(* ===== verification/Slim_Prelude.thy ===== *)
theory Slim_Prelude
  imports Main "HOL-Library.AList" "HOL-Library.Word" "HOL-Library.Monad_Syntax" "HOL-Library.Multiset"
begin

text \<open>
  Shared vocabulary of the development: the parts of the Rust standard library the sources
  use (\<open>Vec::swap_remove\<close>, \<open>Iterator::position\<close>, \<open>HashMap\<close>, \<open>HashSet\<close>, \<open>usize\<close>
  arithmetic), with the generic lemmas the component theories rest on.

  Conventions.
  \<^item> A panic of the source is the value \<open>None\<close> of an \<open>option\<close> result; an \<open>Err\<close> is the
    \<open>Inl\<close> of a sum.
  \<^item> A \<open>HashMap\<close> is an association list with distinct keys (\<open>hmap_wf\<close>): lookup is
    \<open>map_of\<close>, insertion \<open>AList.update\<close>, removal \<open>AList.delete\<close>. The order of the list
    stands for the (unspecified) iteration order of the hash table.
  \<^item> A \<open>HashSet\<close> that is only tested for membership is a \<open>set\<close>; one that is iterated is a
    list with distinct elements (\<open>List.insert\<close>, \<open>removeAll\<close>).
  \<^item> \<open>usize\<close> is 64 bits wide and wraps around, as in a release build.
\<close>

named_theorems hmap_simps \<open>rewrite rules of the hash map and hash set model\<close>
named_theorems vec_simps \<open>rewrite rules of the vector operations\<close>

type_synonym u32 = "32 word"
type_synonym u64 = "64 word"
type_synonym u128 = "128 word"
type_synonym conn_id = nat
type_synonym sub_id = nat

subsection \<open>Vectors\<close>

text \<open>\<open>Vec::swap_remove\<close>: the last element takes the place of the removed one.\<close>

definition swap_remove :: "nat \<Rightarrow> 'a list \<Rightarrow> 'a list" where
  "swap_remove i xs = butlast (xs[i := last xs])"

text \<open>\<open>Iterator::position\<close>: the index of the first element that satisfies the predicate.\<close>

primrec position :: "('a \<Rightarrow> bool) \<Rightarrow> 'a list \<Rightarrow> nat option" where
  "position P [] = None"
| "position P (x # xs) = (if P x then Some 0 else map_option Suc (position P xs))"

lemma position_None_iff: "position P xs = None \<longleftrightarrow> (\<forall>x\<in>set xs. \<not> P x)"
  by (induction xs) auto

lemma position_SomeD:
  "position P xs = Some i \<Longrightarrow> i < length xs \<and> P (xs ! i) \<and> (\<forall>j<i. \<not> P (xs ! j))"
proof (induction xs arbitrary: i)
  case Nil
  then show ?case by simp
next
  case (Cons x xs)
  show ?case
  proof (cases "P x")
    case True
    with Cons.prems show ?thesis by auto
  next
    case False
    with Cons.prems obtain k where k: "position P xs = Some k" "i = Suc k" by auto
    from Cons.IH [OF k(1)] False k(2) show ?thesis by (auto simp: less_Suc_eq_0_disj)
  qed
qed

lemma position_eq_Some_distinct:
  assumes "distinct xs" "i < length xs"
  shows "position (\<lambda>y. y = xs ! i) xs = Some i"
proof -
  have "position (\<lambda>y. y = xs ! i) xs \<noteq> None"
    using assms(2) by (auto simp: position_None_iff)
  then obtain k where k: "position (\<lambda>y. y = xs ! i) xs = Some k" by blast
  from position_SomeD [OF k] assms have "k = i" by (auto simp: nth_eq_iff_index_eq)
  with k show ?thesis by simp
qed

lemma length_swap_remove [vec_simps]: "length (swap_remove i xs) = length xs - 1"
  by (simp add: swap_remove_def)

lemma nth_swap_remove:
  "i < length xs \<Longrightarrow> j < length xs - 1 \<Longrightarrow>
   swap_remove i xs ! j = (if j = i then last xs else xs ! j)"
  by (simp add: swap_remove_def nth_butlast)

lemma mset_swap_remove:
  assumes "i < length xs"
  shows "mset (swap_remove i xs) = mset xs - {# xs ! i #}"
proof -
  obtain ys y where xs: "xs = ys @ [y]" using assms by (cases xs rule: rev_cases) auto
  show ?thesis
  proof (cases "i = length ys")
    case True
    then show ?thesis by (simp add: swap_remove_def xs)
  next
    case False
    with assms xs have i: "i < length ys" by simp
    then have "mset (ys[i := y]) = add_mset y (mset ys - {# ys ! i #})"
      by (simp add: mset_update)
    moreover from i have "ys ! i \<in># mset ys" by simp
    ultimately show ?thesis using i
      by (simp add: swap_remove_def xs list_update_append nth_append)
  qed
qed

lemma distinct_swap_remove [vec_simps]:
  assumes "i < length xs" "distinct xs"
  shows "distinct (swap_remove i xs)"
proof -
  have "\<forall>a. count (mset xs) a \<le> 1"
    using assms(2) by (auto simp: distinct_count_atmost_1)
  then have "\<forall>a. count (mset (swap_remove i xs)) a \<le> 1"
    using assms(1) by (auto simp: mset_swap_remove intro: le_trans [OF diff_le_self])
  then show ?thesis
    by (auto simp: distinct_count_atmost_1 intro!: le_antisym)
qed

lemma set_swap_remove [vec_simps]:
  assumes "i < length xs" "distinct xs"
  shows "set (swap_remove i xs) = set xs - {xs ! i}"
proof -
  have "set (swap_remove i xs) = set_mset (mset xs - {# xs ! i #})"
    using assms(1) by (metis mset_swap_remove set_mset_mset)
  also have "\<dots> = set xs - {xs ! i}"
  proof -
    have "count (mset xs) (xs ! i) = 1"
      using assms by (simp add: distinct_count_atmost_1)
    then have "xs ! i \<notin># mset xs - {# xs ! i #}" by (simp add: not_in_iff)
    then show ?thesis by (simp add: at_most_one_mset_mset_diff)
  qed
  finally show ?thesis .
qed

lemma set_swap_remove_subset: "i < length xs \<Longrightarrow> set (swap_remove i xs) \<subseteq> set xs"
  by (metis mset_swap_remove in_diffD set_mset_mset subsetI)

text \<open>
  An element other than the removed one keeps its position, unless it was the last: then it
  sits where the removed one was.
\<close>

lemma swap_remove_other:
  assumes "i < length xs" "j < length xs" "j \<noteq> i"
  shows "(j < length (swap_remove i xs) \<and> swap_remove i xs ! j = xs ! j) \<or>
         (i < length (swap_remove i xs) \<and> swap_remove i xs ! i = xs ! j)"
proof (cases "j < length xs - 1")
  case True
  then show ?thesis using assms by (simp add: vec_simps nth_swap_remove)
next
  case False
  with assms have "i < length xs - 1" "j = length xs - 1" by linarith+
  moreover from this assms have "last xs = xs ! j" by (cases xs) (simp_all add: last_conv_nth)
  ultimately show ?thesis using assms by (simp add: vec_simps nth_swap_remove)
qed

text \<open>
  Parallel vectors under \<open>swap_remove\<close>: position \<open>j\<close> of the result is position
  \<open>swap_index n i j\<close> of the original, and these are all the positions but \<open>i\<close>.
\<close>

definition swap_index :: "nat \<Rightarrow> nat \<Rightarrow> nat \<Rightarrow> nat" where
  "swap_index n i j = (if j = i then n - 1 else j)"

lemma nth_swap_remove_index:
  assumes "i < length xs" "j < length xs - 1"
  shows "swap_remove i xs ! j = xs ! swap_index (length xs) i j"
proof -
  have "last xs = xs ! (length xs - 1)" using assms(1) by (intro last_conv_nth) auto
  then show ?thesis using assms by (simp add: nth_swap_remove swap_index_def)
qed

lemma ex_swap_index:
  assumes "i < n"
  shows "(\<exists>j<n - 1. P (swap_index n i j)) \<longleftrightarrow> (\<exists>k<n. k \<noteq> i \<and> P k)"
proof
  assume "\<exists>j<n - 1. P (swap_index n i j)"
  then obtain j where "j < n - 1" "P (swap_index n i j)" by blast
  then show "\<exists>k<n. k \<noteq> i \<and> P k"
    by (intro exI [of _ "swap_index n i j"]) (auto simp: swap_index_def)
next
  assume "\<exists>k<n. k \<noteq> i \<and> P k"
  then obtain k where k: "k < n" "k \<noteq> i" "P k" by blast
  then show "\<exists>j<n - 1. P (swap_index n i j)"
    using assms by (intro exI [of _ "if k = n - 1 then i else k"]) (auto simp: swap_index_def)
qed

lemma UN_list_update:
  assumes "i < length xs"
  shows "(\<Union>x\<in>set (xs[i := y]). g x) = (\<Union>x\<in>set (take i xs) \<union> set (drop (Suc i) xs). g x) \<union> g y"
    and "(\<Union>x\<in>set xs. g x) = (\<Union>x\<in>set (take i xs) \<union> set (drop (Suc i) xs). g x) \<union> g (xs ! i)"
proof -
  show "(\<Union>x\<in>set (xs[i := y]). g x) = (\<Union>x\<in>set (take i xs) \<union> set (drop (Suc i) xs). g x) \<union> g y"
    using assms by (auto simp: upd_conv_take_nth_drop)
  have "set xs = set (take i xs @ xs ! i # drop (Suc i) xs)"
    using assms by (simp only: id_take_nth_drop [symmetric])
  then show "(\<Union>x\<in>set xs. g x) = (\<Union>x\<in>set (take i xs) \<union> set (drop (Suc i) xs). g x) \<union> g (xs ! i)"
    by auto
qed

lemma find_SomeD: "List.find P xs = Some x \<Longrightarrow> x \<in> set xs \<and> P x"
  by (auto simp: find_Some_iff)

lemma option_eqI: "(\<And>x. a = Some x \<longleftrightarrow> b = Some x) \<Longrightarrow> a = b"
  by (cases a; cases b) auto

text \<open>
  \<open>Vec::contains\<close> followed by \<open>push\<close>: append when absent. It keeps a list free of
  duplicates.
\<close>

definition push_new :: "'a \<Rightarrow> 'a list \<Rightarrow> 'a list" where
  "push_new x xs = (if x \<in> set xs then xs else xs @ [x])"

lemma set_push_new [vec_simps]: "set (push_new x xs) = insert x (set xs)"
  by (auto simp: push_new_def)

lemma distinct_push_new [vec_simps]: "distinct xs \<Longrightarrow> distinct (push_new x xs)"
  by (auto simp: push_new_def)

text \<open>
  \<open>position\<close> followed by \<open>swap_remove\<close>: remove the first occurrence of an element.
\<close>

definition remove_elem :: "'a \<Rightarrow> 'a list \<Rightarrow> 'a list" where
  "remove_elem x xs =
     (case position (\<lambda>y. y = x) xs of Some pos \<Rightarrow> swap_remove pos xs | None \<Rightarrow> xs)"

lemma set_remove_elem [vec_simps]: "distinct xs \<Longrightarrow> set (remove_elem x xs) = set xs - {x}"
  by (auto simp: remove_elem_def position_None_iff vec_simps dest!: position_SomeD
      split: option.splits)

lemma distinct_remove_elem [vec_simps]: "distinct xs \<Longrightarrow> distinct (remove_elem x xs)"
  by (auto simp: remove_elem_def vec_simps dest!: position_SomeD split: option.splits)

lemma set_remove_elem_subset: "set (remove_elem x xs) \<subseteq> set xs"
  using set_swap_remove_subset
  by (fastforce simp: remove_elem_def dest!: position_SomeD split: option.splits)

lemma remove_elem_absent: "x \<notin> set xs \<Longrightarrow> remove_elem x xs = xs"
  by (auto simp: remove_elem_def dest!: position_SomeD split: option.splits)

lemma length_remove_elem: "x \<in> set xs \<Longrightarrow> length (remove_elem x xs) = length xs - 1"
  by (auto simp: remove_elem_def position_None_iff vec_simps split: option.splits)

subsection \<open>Hash maps\<close>

type_synonym ('k, 'v) hmap = "('k \<times> 'v) list"

abbreviation hget :: "('k, 'v) hmap \<Rightarrow> 'k \<Rightarrow> 'v option" where
  "hget \<equiv> map_of"

abbreviation hput :: "'k \<Rightarrow> 'v \<Rightarrow> ('k, 'v) hmap \<Rightarrow> ('k, 'v) hmap" where
  "hput \<equiv> AList.update"

abbreviation hdel :: "'k \<Rightarrow> ('k, 'v) hmap \<Rightarrow> ('k, 'v) hmap" where
  "hdel \<equiv> AList.delete"

abbreviation hkeys :: "('k, 'v) hmap \<Rightarrow> 'k list" where
  "hkeys m \<equiv> map fst m"

abbreviation hvalues :: "('k, 'v) hmap \<Rightarrow> 'v list" where
  "hvalues m \<equiv> map snd m"

abbreviation hmap_wf :: "('k, 'v) hmap \<Rightarrow> bool" where
  "hmap_wf m \<equiv> distinct (map fst m)"

lemma hget_hput [hmap_simps, simp]: "hget (hput k v m) = (hget m)(k \<mapsto> v)"
  by (rule update_conv')

lemma hget_hdel [hmap_simps, simp]: "hget (hdel k m) = (hget m)(k := None)"
  by (rule delete_conv')

lemma hmap_wf_hput [hmap_simps, simp, intro]: "hmap_wf m \<Longrightarrow> hmap_wf (hput k v m)"
  by (rule distinct_update)

lemma hmap_wf_hdel [hmap_simps, simp, intro]: "hmap_wf m \<Longrightarrow> hmap_wf (hdel k m)"
  by (rule distinct_delete)

lemma hget_None_iff: "hget m k = None \<longleftrightarrow> k \<notin> set (hkeys m)"
  by (simp add: map_of_eq_None_iff)

lemma hkeys_hput: "set (hkeys (hput k v m)) = insert k (set (hkeys m))"
  by (simp add: update_conv' dom_map_of_conv_image_fst [symmetric] flip: dom_map_of_conv_image_fst)

lemma hkeys_hdel: "set (hkeys (hdel k m)) = set (hkeys m) - {k}"
  by (simp add: delete_conv' flip: dom_map_of_conv_image_fst)

lemma hget_mem_iff: "hmap_wf m \<Longrightarrow> (k, v) \<in> set m \<longleftrightarrow> hget m k = Some v"
  by simp

lemma hget_filter_key:
  "hget (filter (\<lambda>(k, _). P k) m) = (\<lambda>k. if P k then hget m k else None)"
  by (induction m) (auto simp: fun_eq_iff)

lemma hget_filter_wf:
  assumes "hmap_wf m"
  shows "hget (filter (\<lambda>(k, v). P k v) m) k =
    (case hget m k of Some v \<Rightarrow> if P k v then Some v else None | None \<Rightarrow> None)"
  using assms by (induction m) (auto simp: map_of_eq_None_iff image_iff split: option.splits)

lemma hmap_wf_filter [hmap_simps, simp, intro]: "hmap_wf m \<Longrightarrow> hmap_wf (filter P m)"
  by (induction m) auto

lemma hget_map_values:
  "hget (map (\<lambda>(k, v). (k, f k v)) m) k = map_option (f k) (hget m k)"
  by (induction m) auto

lemma hkeys_map_values [hmap_simps, simp]: "hkeys (map (\<lambda>(k, v). (k, f k v)) m) = hkeys m"
  by (induction m) auto

lemma hmap_empty_iff: "m = [] \<longleftrightarrow> (\<forall>k. hget m k = None)"
  by (cases m) auto

subsection \<open>Machine integers\<close>

text \<open>\<open>usize::MAX\<close>, wrapping addition and subtraction, and the cast \<open>as u32\<close>.\<close>

definition usize_MAX :: nat where
  "usize_MAX = 2 ^ 64 - 1"

definition usize_add :: "nat \<Rightarrow> nat \<Rightarrow> nat" where
  "usize_add a b = (a + b) mod 2 ^ 64"

definition usize_sub :: "nat \<Rightarrow> nat \<Rightarrow> nat" where
  "usize_sub a b = (a + (2 ^ 64 - b)) mod 2 ^ 64"

definition as_u32 :: "nat \<Rightarrow> nat" where
  "as_u32 a = a mod 2 ^ 32"

lemma usize_add_exact: "a + b < 2 ^ 64 \<Longrightarrow> usize_add a b = a + b"
  by (simp add: usize_add_def)

lemma usize_sub_exact: "b \<le> a \<Longrightarrow> a < 2 ^ 64 \<Longrightarrow> usize_sub a b = a - b"
proof -
  assume "b \<le> a" "a < 2 ^ 64"
  then have "a + (2 ^ 64 - b) = 2 ^ 64 + (a - b)" "a - b < 2 ^ 64" by linarith+
  then show ?thesis by (simp only: usize_sub_def mod_add_self1 mod_less)
qed

lemma as_u32_exact: "a < 2 ^ 32 \<Longrightarrow> as_u32 a = a"
  by (simp add: as_u32_def)

end
