(* ===== verification/Names.thy ===== *)
theory Names
  imports Slim_Prelude
begin

text \<open>
  Names (\<^verbatim>\<open>crates/proto/src/impls.rs\<close>), connection types
  (\<^verbatim>\<open>crates/config/src/conn_type.rs\<close>) and match filters
  (\<^verbatim>\<open>crates/datapath/src/tables.rs\<close>).

  Three functions of third-party crates are parameters, collected in the record \<open>externs\<close>:
  the hash of a name component (\<open>twox_hash\<close>) and the two conversions of the \<open>uuid\<close> crate;
  with them goes the version string of the build.
\<close>

unbundle bit_operations_syntax

record externs =
  calculate_hash :: "string \<Rightarrow> u64"
  uuid_to_string :: "u128 \<Rightarrow> string"
  uuid_parse :: "string \<Rightarrow> u128 option"
  build_version :: string

section \<open>Name ids\<close>

record name_id =
  id_0 :: u64
  id_1 :: u64

definition NULL_COMPONENT :: u128 where
  "NULL_COMPONENT = 0xFFFFFFFFFFFFFFFFFFFFFFFFFFFFFFFF"

definition RESERVED_IDS :: u128 where
  "RESERVED_IDS = 50"

definition is_reserved_id :: "u128 \<Rightarrow> bool" where
  "is_reserved_id i = (NULL_COMPONENT - RESERVED_IDS \<le> i)"

definition name_id_from_u128 :: "u128 \<Rightarrow> name_id" where
  "name_id_from_u128 i = \<lparr>id_0 = ucast (drop_bit 64 i), id_1 = ucast (i AND 0xFFFFFFFFFFFFFFFF)\<rparr>"

definition u128_from_name_id :: "name_id \<Rightarrow> u128" where
  "u128_from_name_id n = push_bit 64 (ucast (id_0 n)) OR ucast (id_1 n)"

datatype name_error = InvalidNameIdFormat string | InvalidNameFormat string

definition name_id_try_from :: "externs \<Rightarrow> string \<Rightarrow> name_error + name_id" where
  "name_id_try_from x s =
     (if s = ''NULL_COMPONENT'' then Inr (name_id_from_u128 NULL_COMPONENT)
      else case uuid_parse x s of
             Some u \<Rightarrow> Inr (name_id_from_u128 u)
           | None \<Rightarrow> Inl (InvalidNameIdFormat s))"

definition name_id_to_string :: "externs \<Rightarrow> name_id \<Rightarrow> string" where
  "name_id_to_string x n =
     (let val = u128_from_name_id n in
      if val = NULL_COMPONENT then ''NULL_COMPONENT'' else uuid_to_string x val)"

section \<open>Encoded names and names\<close>

record encoded_name =
  component_0 :: u64
  component_1 :: u64
  component_2 :: u64
  enc_id :: "name_id option"

record string_name =
  str_component_0 :: string
  str_component_1 :: string
  str_component_2 :: string

record proto_name =
  enc_name :: "encoded_name option"
  str_name :: "string_name option"

definition encoded_name_id :: "encoded_name \<Rightarrow> u128" where
  "encoded_name_id e = (case enc_id e of None \<Rightarrow> NULL_COMPONENT | Some n \<Rightarrow> u128_from_name_id n)"

definition encoded_name_string_id :: "externs \<Rightarrow> encoded_name \<Rightarrow> string" where
  "encoded_name_string_id x e =
     (case enc_id e of None \<Rightarrow> ''NULL_COMPONENT'' | Some n \<Rightarrow> name_id_to_string x n)"

type_synonym prefix = "u64 \<times> u64 \<times> u64"

text \<open>The array \<open>[enc.component_0, enc.component_1, enc.component_2]\<close> the tables are keyed by.\<close>

definition enc_prefix :: "encoded_name \<Rightarrow> prefix" where
  "enc_prefix e = (component_0 e, component_1 e, component_2 e)"

definition from_strings :: "externs \<Rightarrow> string \<Rightarrow> string \<Rightarrow> string \<Rightarrow> proto_name" where
  "from_strings x s0 s1 s2 =
     \<lparr>enc_name = Some \<lparr>component_0 = calculate_hash x s0, component_1 = calculate_hash x s1,
                      component_2 = calculate_hash x s2,
                      enc_id = Some (name_id_from_u128 NULL_COMPONENT)\<rparr>,
      str_name = Some \<lparr>str_component_0 = s0, str_component_1 = s1, str_component_2 = s2\<rparr>\<rparr>"

text \<open>The accessors \<open>expect\<close> an encoded name: \<open>None\<close> is that panic.\<close>

definition with_id :: "u128 \<Rightarrow> proto_name \<Rightarrow> proto_name option" where
  "with_id i n =
     (case enc_name n of
        None \<Rightarrow> None
      | Some e \<Rightarrow> Some (n\<lparr>enc_name := Some (e\<lparr>enc_id := Some (name_id_from_u128 i)\<rparr>)\<rparr>))"

definition proto_name_id :: "proto_name \<Rightarrow> u128 option" where
  "proto_name_id n = map_option encoded_name_id (enc_name n)"

definition has_id :: "proto_name \<Rightarrow> bool option" where
  "has_id n = map_option (\<lambda>i. i \<noteq> NULL_COMPONENT) (proto_name_id n)"

definition reset_id :: "proto_name \<Rightarrow> proto_name option" where
  "reset_id n = with_id NULL_COMPONENT n"

definition match_prefix :: "proto_name \<Rightarrow> proto_name \<Rightarrow> bool option" where
  "match_prefix a b =
     (case (enc_name a, enc_name b) of
        (Some x, Some y) \<Rightarrow> Some (component_0 x = component_0 y \<and> component_1 x = component_1 y \<and>
                                component_2 x = component_2 y)
      | _ \<Rightarrow> None)"

definition str_components :: "proto_name \<Rightarrow> (string \<times> string \<times> string) option" where
  "str_components n =
     map_option (\<lambda>s. (str_component_0 s, str_component_1 s, str_component_2 s)) (str_name n)"

subsection \<open>Round trips\<close>

lemma u128_from_name_id_from_u128: "u128_from_name_id (name_id_from_u128 i) = i"
proof (rule bit_word_eqI)
  fix n :: nat
  assume n: "n < LENGTH(128)"
  have m: "(0xFFFFFFFFFFFFFFFF :: u128) = mask 64" by (simp add: mask_eq_exp_minus_1)
  show "bit (u128_from_name_id (name_id_from_u128 i)) n = bit i n"
    using n
    by (auto simp: u128_from_name_id_def name_id_from_u128_def m bit_simps)
qed

lemma name_id_from_u128_from_name_id: "name_id_from_u128 (u128_from_name_id n) = n"
proof -
  have m: "(0xFFFFFFFFFFFFFFFF :: u128) = mask 64" by (simp add: mask_eq_exp_minus_1)
  have "id_0 (name_id_from_u128 (u128_from_name_id n)) = id_0 n"
    by (rule bit_word_eqI)
       (auto simp: u128_from_name_id_def name_id_from_u128_def m bit_simps dest: bit_imp_le_length)
  moreover have "id_1 (name_id_from_u128 (u128_from_name_id n)) = id_1 n"
    by (rule bit_word_eqI)
       (auto simp: u128_from_name_id_def name_id_from_u128_def m bit_simps)
  ultimately show ?thesis by simp
qed

lemma name_id_inject: "u128_from_name_id a = u128_from_name_id b \<longleftrightarrow> a = b"
  by (metis name_id_from_u128_from_name_id)

text \<open>
  An encoded name with an explicit id is determined by its prefix and its id; one without an
  id has the same id as one with an explicit \<open>NULL_COMPONENT\<close>.
\<close>

definition canonical :: "encoded_name \<Rightarrow> bool" where
  "canonical e \<longleftrightarrow> enc_id e \<noteq> None"

lemma canonical_eqI:
  assumes "canonical a" "canonical b" "enc_prefix a = enc_prefix b"
    "encoded_name_id a = encoded_name_id b"
  shows "a = b"
  using assms
  by (cases a; cases b)
     (auto simp: canonical_def enc_prefix_def encoded_name_id_def name_id_inject)

lemma with_id_from_strings:
  "with_id i (from_strings x s0 s1 s2) =
     Some ((from_strings x s0 s1 s2)\<lparr>enc_name := Some \<lparr>component_0 = calculate_hash x s0,
       component_1 = calculate_hash x s1, component_2 = calculate_hash x s2,
       enc_id = Some (name_id_from_u128 i)\<rparr>\<rparr>)"
  by (simp add: with_id_def from_strings_def)

section \<open>Connection types and match filters\<close>

datatype conn_type = Local | Remote | Peer | Edge

definition conn_type_ALL :: "conn_type list" where
  "conn_type_ALL = [Local, Remote, Peer, Edge]"

definition conn_type_COUNT :: nat where
  "conn_type_COUNT = length conn_type_ALL"

fun conn_type_index :: "conn_type \<Rightarrow> nat" where
  "conn_type_index Local = 0"
| "conn_type_index Remote = 1"
| "conn_type_index Peer = 2"
| "conn_type_index Edge = 3"

definition conn_type_from_is_local :: "bool \<Rightarrow> conn_type" where
  "conn_type_from_is_local b = (if b then Local else Remote)"

definition conn_type_is_local :: "conn_type \<Rightarrow> bool" where
  "conn_type_is_local ct = (ct = Local)"

lemma conn_type_ALL_complete [simp]: "ct \<in> set conn_type_ALL"
  by (cases ct) (simp_all add: conn_type_ALL_def)

lemma bex_conn_type_ALL [simp]: "(\<exists>ct\<in>set conn_type_ALL. P ct) \<longleftrightarrow> (\<exists>ct. P ct)"
  using conn_type_ALL_complete by blast

lemma conn_type_ALL_distinct [simp]: "distinct conn_type_ALL"
  by (simp add: conn_type_ALL_def)

text \<open>
  Arrays of length \<open>ConnType::COUNT\<close> indexed by \<open>ConnType::index()\<close> are functions on the
  connection types: the index is a bijection, and \<open>ALL\<close> lists the types in index order.
\<close>

lemma conn_type_index_ALL: "map conn_type_index conn_type_ALL = [0..<conn_type_COUNT]"
  by (simp add: conn_type_ALL_def conn_type_COUNT_def upt_rec)

lemma conn_type_index_inject: "conn_type_index a = conn_type_index b \<longleftrightarrow> a = b"
  by (cases a; cases b) simp_all

record match_filter =
  filter_include :: "conn_type \<Rightarrow> bool"

definition match_filter_ALL :: match_filter where
  "match_filter_ALL = \<lparr>filter_include = (\<lambda>_. True)\<rparr>"

definition match_filter_EXCLUDE_PEER :: match_filter where
  "match_filter_EXCLUDE_PEER = \<lparr>filter_include = (\<lambda>_. True)(Peer := False)\<rparr>"

definition filter_includes :: "match_filter \<Rightarrow> conn_type \<Rightarrow> bool" where
  "filter_includes f ct = filter_include f ct"

text \<open>\<open>ConnType::ALL.into_iter().filter(|ct| filter.includes(ct))\<close>\<close>

definition filter_types :: "match_filter \<Rightarrow> conn_type list" where
  "filter_types f = filter (filter_includes f) conn_type_ALL"

lemma set_filter_types [simp]: "set (filter_types f) = {ct. filter_includes f ct}"
  by (auto simp: filter_types_def)

lemma distinct_filter_types [simp]: "distinct (filter_types f)"
  by (simp add: filter_types_def)

end
