(* ===== verification/Prefix_Entry.thy ===== *)
theory Prefix_Entry
  imports Names
begin

text \<open>
  \<open>ConnList\<close> and \<open>PrefixEntry\<close> of
  \<^verbatim>\<open>crates/datapath/src/tables/subscription_table.rs\<close>: the connections subscribed to the names
  that share a three-component prefix, in struct-of-arrays form, with the deduplicated union
  per connection type kept beside them. The abstraction \<open>pe_map\<close> reads an entry as a
  partial map from name ids to connection lists; each operation is shown to act on it as its
  name says and to keep the representation invariant \<open>pe_wf\<close>.
\<close>

section \<open>Connection lists\<close>

record conn_list =
  conns :: "conn_id list"
  cl_cursor :: u64

definition conn_list_new :: conn_list where
  "conn_list_new = \<lparr>conns = [], cl_cursor = 0\<rparr>"

definition conn_list_push :: "conn_id \<Rightarrow> conn_list \<Rightarrow> conn_list" where
  "conn_list_push c l = (if c \<notin> set (conns l) then l\<lparr>conns := conns l @ [c]\<rparr> else l)"

definition conn_list_remove :: "conn_id \<Rightarrow> conn_list \<Rightarrow> conn_list" where
  "conn_list_remove c l =
     (case position (\<lambda>d. d = c) (conns l) of
        Some pos \<Rightarrow> l\<lparr>conns := swap_remove pos (conns l)\<rparr>
      | None \<Rightarrow> l)"

definition conn_list_is_empty :: "conn_list \<Rightarrow> bool" where
  "conn_list_is_empty l = (conns l = [])"

text \<open>
  The loop \<open>for _ in 0..n\<close> of \<open>ConnList::next\<close>; the atomic cursor is advanced (modulo
  \<open>2^64\<close>) at every turn.
\<close>

fun conn_list_next_loop :: "nat \<Rightarrow> conn_id \<Rightarrow> conn_list \<Rightarrow> conn_id option \<times> conn_list" where
  "conn_list_next_loop 0 skip l = (None, l)"
| "conn_list_next_loop (Suc k) skip l =
     (let c = conns l ! (unat (cl_cursor l) mod length (conns l));
          l' = l\<lparr>cl_cursor := cl_cursor l + 1\<rparr>
      in if c \<noteq> skip then (Some c, l') else conn_list_next_loop k skip l')"

definition conn_list_next :: "conn_id \<Rightarrow> conn_list \<Rightarrow> conn_id option \<times> conn_list" where
  "conn_list_next skip l =
     (let n = length (conns l) in
      if n = 0 then (None, l)
      else if n = 1 then (if conns l ! 0 \<noteq> skip then Some (conns l ! 0) else None, l)
      else conn_list_next_loop n skip l)"

lemma conns_push [simp]: "conns (conn_list_push c l) = push_new c (conns l)"
  by (simp add: conn_list_push_def push_new_def)

lemma conns_remove [simp]: "conns (conn_list_remove c l) = remove_elem c (conns l)"
  by (simp add: conn_list_remove_def remove_elem_def split: option.splits)

lemma conns_new [simp]: "conns conn_list_new = []"
  by (simp add: conn_list_new_def)

lemma conn_list_is_empty_new [simp]: "conn_list_is_empty conn_list_new"
  by (simp add: conn_list_is_empty_def)

lemma next_loop_conns: "conns (snd (conn_list_next_loop k skip l)) = conns l"
  by (induction k arbitrary: l) (auto simp: Let_def)

lemma next_conns [simp]: "conns (snd (conn_list_next skip l)) = conns l"
  by (simp add: conn_list_next_def next_loop_conns Let_def)

lemma next_loop_sound:
  "conns l \<noteq> [] \<Longrightarrow> fst (conn_list_next_loop k skip l) = Some c \<Longrightarrow> c \<in> set (conns l) \<and> c \<noteq> skip"
proof (induction k arbitrary: l)
  case (Suc k)
  let ?l' = "l\<lparr>cl_cursor := cl_cursor l + 1\<rparr>"
  have "conns l ! (unat (cl_cursor l) mod length (conns l)) \<in> set (conns l)"
    using Suc.prems(1) by simp
  then show ?case
    using Suc.prems Suc.IH [of ?l'] by (auto simp: Let_def split: if_splits)
qed simp

text \<open>
  The loop gives up only if every position it looked at held \<open>skip\<close>. The cursor may wrap
  around in the middle of it, which can show the same position twice in a row.
\<close>

lemma next_loop_None:
  assumes "fst (conn_list_next_loop k skip l) = None" "j < k"
  shows "conns l ! (unat (cl_cursor l + of_nat j) mod length (conns l)) = skip"
  using assms
proof (induction k arbitrary: l j)
  case (Suc k)
  let ?l' = "l\<lparr>cl_cursor := cl_cursor l + 1\<rparr>"
  from Suc.prems(1) have skip: "conns l ! (unat (cl_cursor l) mod length (conns l)) = skip"
    and none: "fst (conn_list_next_loop k skip ?l') = None"
    by (auto simp: Let_def split: if_splits)
  show ?case
  proof (cases j)
    case 0
    with skip show ?thesis by simp
  next
    case (Suc i)
    with Suc.prems(2) have "i < k" by simp
    from Suc.IH [OF none this] Suc show ?thesis by (simp add: ac_simps)
  qed
qed simp

lemma word_mod_step:
  fixes c :: u64
  assumes n: "1 < n" and eq: "unat c mod n = unat (c + 1) mod n"
  shows "c = -1"
proof (rule ccontr)
  assume "c \<noteq> -1"
  then have "1 + c \<noteq> 0" by (metis add.commute add_eq_0_iff)
  then have "unat (c + 1) = Suc (unat c)" by (metis add.commute unatSuc)
  with eq have "unat c mod n = Suc (unat c) mod n" by simp
  with n show False by (simp add: mod_Suc split: if_splits)
qed

lemma next_loop_finds:
  assumes n: "2 \<le> length (conns l)" and dist: "distinct (conns l)"
  shows "fst (conn_list_next_loop (length (conns l)) skip l) \<noteq> None"
proof
  let ?n = "length (conns l)" and ?c = "cl_cursor l"
  assume none: "fst (conn_list_next_loop ?n skip l) = None"
  have ne: "conns l \<noteq> []" using n by auto
  have bound: "m mod ?n < ?n" for m using n by (auto intro: mod_less_divisor)
  have at: "unat (?c + of_nat i) mod ?n = unat (?c + of_nat j) mod ?n" if "i < ?n" "j < ?n" for i j
    using next_loop_None [OF none that(1)] next_loop_None [OF none that(2)]
    by (simp add: nth_eq_iff_index_eq [OF dist bound bound, symmetric])
  have "?c = -1"
    using word_mod_step [of ?n ?c] at [of 0 1] n ne by simp
  then have u: "unat (?c + of_nat 1) = 0" "unat (?c + of_nat 2) = 1" "unat (?c + of_nat 0) = 2 ^ 64 - 1"
    by (simp_all add: unsigned_minus_1_eq_mask mask_eq_exp_minus_1)
  show False
  proof (cases "?n = 2")
    case True
    with at [of 0 1] u(1,3) show False by simp
  next
    case False
    with n at [of 1 2] u(1,2) show False by simp
  qed
qed

text \<open>
  \<open>ConnList::next\<close> finds a connection whenever there is one other than \<open>skip\<close>, for every
  value of the cursor.
\<close>

lemma conn_list_next_None_iff:
  assumes "distinct (conns l)"
  shows "fst (conn_list_next skip l) = None \<longleftrightarrow> set (conns l) \<subseteq> {skip}"
proof (cases "2 \<le> length (conns l)")
  case True
  then have "\<not> set (conns l) \<subseteq> {skip}"
    using assms distinct_card [of "conns l"] card_mono [of "{skip}" "set (conns l)"] by auto
  then show ?thesis
    using True next_loop_finds [OF True assms, of skip] by (auto simp: conn_list_next_def Let_def)
next
  case False
  then have "length (conns l) = 0 \<or> length (conns l) = 1" by linarith
  then show ?thesis
    by (auto simp: conn_list_next_def Let_def length_Suc_conv)
qed

lemma conn_list_next_sound:
  "fst (conn_list_next skip l) = Some c \<Longrightarrow> c \<in> set (conns l) \<and> c \<noteq> skip"
  using next_loop_sound [of l "length (conns l)" skip c]
  by (auto simp: conn_list_next_def Let_def split: if_splits)

section \<open>Prefix entries\<close>

text \<open>
  The two arrays indexed by connection type are functions on connection types
  (\<open>conn_type_index_ALL\<close>).
\<close>

record prefix_entry =
  ids :: "u128 list"
  slots :: "conn_type \<Rightarrow> conn_list list"
  aggregates :: "conn_type \<Rightarrow> conn_id list"
  slot_cursor :: u64
  pe_strings :: "string \<times> string \<times> string"

definition prefix_entry_new :: "string \<times> string \<times> string \<Rightarrow> prefix_entry" where
  "prefix_entry_new strs =
     \<lparr>ids = [], slots = (\<lambda>_. []), aggregates = (\<lambda>_. []), slot_cursor = 0, pe_strings = strs\<rparr>"

definition push_id :: "u128 \<Rightarrow> prefix_entry \<Rightarrow> prefix_entry" where
  "push_id i pe = pe\<lparr>ids := ids pe @ [i], slots := (\<lambda>ct. slots pe ct @ [conn_list_new])\<rparr>"

definition prefix_entry_is_empty :: "prefix_entry \<Rightarrow> bool" where
  "prefix_entry_is_empty pe = (ids pe = [])"

text \<open>One category of \<open>rebuild_aggregates\<close>: push every connection of every slot, once.\<close>

definition rebuild_aggregate :: "conn_list list \<Rightarrow> conn_id list" where
  "rebuild_aggregate ls = fold (\<lambda>l agg. fold push_new (conns l) agg) ls []"

definition rebuild_aggregates :: "prefix_entry \<Rightarrow> prefix_entry" where
  "rebuild_aggregates pe = pe\<lparr>aggregates := (\<lambda>ct. rebuild_aggregate (slots pe ct))\<rparr>"

definition is_slot_empty :: "nat \<Rightarrow> prefix_entry \<Rightarrow> bool" where
  "is_slot_empty idx pe = list_all (\<lambda>ct. conn_list_is_empty (slots pe ct ! idx)) conn_type_ALL"

definition remove_slot :: "nat \<Rightarrow> prefix_entry \<Rightarrow> prefix_entry" where
  "remove_slot idx pe =
     rebuild_aggregates (pe\<lparr>ids := swap_remove idx (ids pe),
                            slots := (\<lambda>ct. swap_remove idx (slots pe ct))\<rparr>)"

lemma ids_remove_slot [simp]: "ids (remove_slot idx pe) = swap_remove idx (ids pe)"
  by (simp add: remove_slot_def rebuild_aggregates_def)

text \<open>The \<open>while\<close> loop of \<open>retain_non_empty\<close>: the index stays when a slot is removed.\<close>

function retain_loop :: "nat \<Rightarrow> prefix_entry \<Rightarrow> prefix_entry" where
  "retain_loop i pe =
     (if i < length (ids pe)
      then if is_slot_empty i pe then retain_loop i (remove_slot i pe) else retain_loop (Suc i) pe
      else pe)"
  by pat_completeness auto
termination
  by (relation "measure (\<lambda>(i, pe). length (ids pe) - i)") (auto simp: vec_simps)

declare retain_loop.simps [simp del]

definition retain_non_empty :: "prefix_entry \<Rightarrow> prefix_entry" where
  "retain_non_empty pe = retain_loop 0 pe"

definition pe_has_id :: "u128 \<Rightarrow> prefix_entry \<Rightarrow> bool" where
  "pe_has_id i pe = (i \<in> set (ids pe))"

text \<open>Write through \<open>lists_mut(category)\<close>: one slot list and the aggregate of a category.\<close>

definition set_lists ::
  "conn_type \<Rightarrow> nat \<Rightarrow> conn_list \<Rightarrow> conn_id list \<Rightarrow> prefix_entry \<Rightarrow> prefix_entry" where
  "set_lists ct idx l agg pe =
     pe\<lparr>slots := (slots pe)(ct := (slots pe ct)[idx := l]), aggregates := (aggregates pe)(ct := agg)\<rparr>"

definition insert_conn_for_id ::
  "u128 \<Rightarrow> conn_id \<Rightarrow> conn_type \<Rightarrow> prefix_entry \<Rightarrow> bool \<times> prefix_entry" where
  "insert_conn_for_id i c category pe =
     (let (idx, pe1) =
        (case position (\<lambda>j. j = i) (ids pe) of
           Some k \<Rightarrow> (k, pe)
         | None \<Rightarrow> (length (ids pe), push_id i pe));
        was_empty = conn_list_is_empty (slots pe1 category ! idx)
      in (was_empty,
          set_lists category idx (conn_list_push c (slots pe1 category ! idx))
            (if c \<notin> set (aggregates pe1 category) then aggregates pe1 category @ [c]
             else aggregates pe1 category) pe1))"

definition remove_conn_for_id ::
  "u128 \<Rightarrow> conn_id \<Rightarrow> conn_type \<Rightarrow> prefix_entry \<Rightarrow> bool \<times> prefix_entry" where
  "remove_conn_for_id i c category pe =
     (case position (\<lambda>j. j = i) (ids pe) of
        Some idx \<Rightarrow>
          let l = conn_list_remove c (slots pe category ! idx);
              ls = (slots pe category)[idx := l];
              agg = (if \<not> list_ex (\<lambda>l. c \<in> set (conns l)) ls
                     then (case position (\<lambda>d. d = c) (aggregates pe category) of
                             Some pos \<Rightarrow> swap_remove pos (aggregates pe category)
                           | None \<Rightarrow> aggregates pe category)
                     else aggregates pe category);
              pe' = set_lists category idx l agg pe
          in (conn_list_is_empty (slots pe' category ! idx), pe')
      | None \<Rightarrow> (False, pe))"

definition has_conn :: "conn_id \<Rightarrow> prefix_entry \<Rightarrow> bool" where
  "has_conn c pe = list_ex (\<lambda>ct. c \<in> set (aggregates pe ct)) conn_type_ALL"

definition remove_conn :: "conn_id \<Rightarrow> prefix_entry \<Rightarrow> prefix_entry" where
  "remove_conn c pe =
     pe\<lparr>slots := (\<lambda>ct. map (conn_list_remove c) (slots pe ct)),
        aggregates := (\<lambda>ct. filter (\<lambda>d. d \<noteq> c) (aggregates pe ct))\<rparr>"

text \<open>\<open>filtered_slots(..).find_map(|list| list.next(skip))\<close>: the first type with a result wins.\<close>

fun find_next :: "conn_type list \<Rightarrow> nat \<Rightarrow> conn_id \<Rightarrow> prefix_entry \<Rightarrow> conn_id option \<times> prefix_entry" where
  "find_next [] idx skip pe = (None, pe)"
| "find_next (ct # cts) idx skip pe =
     (case conn_list_next skip (slots pe ct ! idx) of
        (r, l) \<Rightarrow>
          let pe' = pe\<lparr>slots := (slots pe)(ct := (slots pe ct)[idx := l])\<rparr>
          in (case r of Some c \<Rightarrow> (Some c, pe') | None \<Rightarrow> find_next cts idx skip pe'))"

definition get_one :: "u128 \<Rightarrow> conn_id \<Rightarrow> match_filter \<Rightarrow> prefix_entry \<Rightarrow> conn_id option \<times> prefix_entry" where
  "get_one i skip f pe =
     (case position (\<lambda>j. j = i) (ids pe) of
        None \<Rightarrow> (None, pe)
      | Some idx \<Rightarrow> find_next (filter_types f) idx skip pe)"

definition get_all :: "u128 \<Rightarrow> conn_id \<Rightarrow> match_filter \<Rightarrow> prefix_entry \<Rightarrow> conn_id list option" where
  "get_all i skip f pe =
     (case position (\<lambda>j. j = i) (ids pe) of
        None \<Rightarrow> None
      | Some idx \<Rightarrow>
          Some (concat (map (\<lambda>ct. filter (\<lambda>c. c \<noteq> skip) (conns (slots pe ct ! idx))) (filter_types f))))"

text \<open>
  \<open>pick_one_any\<close>: per category a scan \<open>(start..n).chain(0..start)\<close> from the shared cursor.
\<close>

fun pick_one :: "conn_type list \<Rightarrow> conn_id \<Rightarrow> prefix_entry \<Rightarrow> conn_id option \<times> prefix_entry" where
  "pick_one [] skip pe = (None, pe)"
| "pick_one (ct # cts) skip pe =
     (let cs = aggregates pe ct; n = length cs in
      if n > 0 then
        let start = unat (slot_cursor pe) mod n;
            pe' = pe\<lparr>slot_cursor := slot_cursor pe + 1\<rparr>
        in (case List.find (\<lambda>c. c \<noteq> skip) (drop start cs @ take start cs) of
              Some c \<Rightarrow> (Some c, pe')
            | None \<Rightarrow> pick_one cts skip pe')
      else pick_one cts skip pe)"

definition pick_one_any :: "conn_id \<Rightarrow> match_filter \<Rightarrow> prefix_entry \<Rightarrow> conn_id option \<times> prefix_entry" where
  "pick_one_any skip f pe = pick_one (filter_types f) skip pe"

definition get_all_any :: "conn_id \<Rightarrow> match_filter \<Rightarrow> prefix_entry \<Rightarrow> conn_id list" where
  "get_all_any skip f pe =
     concat (map (\<lambda>ct. filter (\<lambda>c. c \<noteq> skip) (aggregates pe ct)) (filter_types f))"

text \<open>The calls \<open>for_each_slot\<close> makes: id, then the local, remote, peer and edge lists.\<close>

definition for_each_slot ::
  "prefix_entry \<Rightarrow> (u128 \<times> conn_id list \<times> conn_id list \<times> conn_id list \<times> conn_id list) list" where
  "for_each_slot pe =
     map (\<lambda>i. (ids pe ! i, conns (slots pe Local ! i), conns (slots pe Remote ! i),
               conns (slots pe Peer ! i), conns (slots pe Edge ! i))) [0..<length (ids pe)]"

text \<open>
  \<open>to_proto_name\<close>; \<open>with_id\<close> cannot panic on the result of \<open>from_strings\<close>
  (\<open>with_id_from_strings\<close>).
\<close>

definition to_proto_name :: "externs \<Rightarrow> u128 \<Rightarrow> prefix_entry \<Rightarrow> proto_name" where
  "to_proto_name x i pe =
     (case pe_strings pe of (s0, s1, s2) \<Rightarrow>
        let base = from_strings x s0 s1 s2 in
        if i \<noteq> NULL_COMPONENT
        then (case with_id i base of Some n \<Rightarrow> n | None \<Rightarrow> base)
        else base)"

section \<open>Abstraction and invariant\<close>

definition pe_map :: "prefix_entry \<Rightarrow> u128 \<Rightarrow> (conn_type \<Rightarrow> conn_id list) option" where
  "pe_map pe i =
     map_option (\<lambda>idx ct. conns (slots pe ct ! idx)) (position (\<lambda>j. j = i) (ids pe))"

definition pe_wf :: "prefix_entry \<Rightarrow> bool" where
  "pe_wf pe \<longleftrightarrow>
     distinct (ids pe) \<and>
     (\<forall>ct. length (slots pe ct) = length (ids pe)) \<and>
     (\<forall>ct. \<forall>l\<in>set (slots pe ct). distinct (conns l)) \<and>
     (\<forall>ct. distinct (aggregates pe ct) \<and> set (aggregates pe ct) = (\<Union>l\<in>set (slots pe ct). set (conns l)))"

lemma pe_wfD:
  assumes "pe_wf pe"
  shows "distinct (ids pe)"
    and "length (slots pe ct) = length (ids pe)"
    and "l \<in> set (slots pe ct) \<Longrightarrow> distinct (conns l)"
    and "distinct (aggregates pe ct)"
    and "set (aggregates pe ct) = (\<Union>l\<in>set (slots pe ct). set (conns l))"
  using assms by (auto simp: pe_wf_def)

lemma pe_map_Some_iff:
  assumes "distinct (ids pe)"
  shows "pe_map pe i = Some f \<longleftrightarrow>
    (\<exists>k<length (ids pe). ids pe ! k = i \<and> f = (\<lambda>ct. conns (slots pe ct ! k)))"
  using assms
  by (auto simp: pe_map_def position_eq_Some_distinct dest!: position_SomeD)

lemma pe_map_None_iff: "pe_map pe i = None \<longleftrightarrow> i \<notin> set (ids pe)"
  by (auto simp: pe_map_def position_None_iff)

lemma dom_pe_map: "dom (pe_map pe) = set (ids pe)"
  using pe_map_None_iff by (auto simp: dom_def)

lemma pe_map_distinct:
  assumes "pe_wf pe" "pe_map pe i = Some f"
  shows "distinct (f ct)"
  using assms pe_wfD(2) [OF assms(1), of ct] pe_wfD(3) [OF assms(1), of _ ct]
  by (auto simp: pe_map_Some_iff pe_wfD(1))

text \<open>The aggregate of a category is the union of its slots, read through the map.\<close>

lemma aggregate_iff:
  assumes "pe_wf pe"
  shows "c \<in> set (aggregates pe ct) \<longleftrightarrow> (\<exists>i f. pe_map pe i = Some f \<and> c \<in> set (f ct))"
proof -
  have "c \<in> set (aggregates pe ct) \<longleftrightarrow> (\<exists>k<length (ids pe). c \<in> set (conns (slots pe ct ! k)))"
    using pe_wfD(2,5) [OF assms] by (auto simp: set_conv_nth [of "slots pe ct"])
  also have "\<dots> \<longleftrightarrow> (\<exists>i f. pe_map pe i = Some f \<and> c \<in> set (f ct))"
    using pe_wfD(1) [OF assms] by (auto simp: pe_map_Some_iff)
  finally show ?thesis .
qed

subsection \<open>Rebuilding the aggregates\<close>

lemma fold_push_new:
  "distinct acc \<Longrightarrow> distinct (fold push_new xs acc) \<and> set (fold push_new xs acc) = set xs \<union> set acc"
  by (induction xs arbitrary: acc) (auto simp: vec_simps)

lemma rebuild_aggregate_correct:
  "distinct (rebuild_aggregate ls) \<and> set (rebuild_aggregate ls) = (\<Union>l\<in>set ls. set (conns l))"
proof -
  have "distinct (fold (\<lambda>l agg. fold push_new (conns l) agg) ls acc) \<and>
      set (fold (\<lambda>l agg. fold push_new (conns l) agg) ls acc) = (\<Union>l\<in>set ls. set (conns l)) \<union> set acc"
    if "distinct acc" for acc
    using that
  proof (induction ls arbitrary: acc)
    case (Cons l ls)
    show ?case
      using Cons.IH [of "fold push_new (conns l) acc"] fold_push_new [OF Cons.prems, of "conns l"]
      by auto
  qed simp
  from this [of "[]"] show ?thesis by (simp add: rebuild_aggregate_def)
qed

subsection \<open>Removing slots\<close>

lemma remove_slot_correct:
  assumes wf: "pe_wf pe" and idx: "idx < length (ids pe)"
  shows "pe_wf (remove_slot idx pe)"
    and "pe_map (remove_slot idx pe) = (pe_map pe)(ids pe ! idx := None)"
proof -
  let ?pe = "remove_slot idx pe"
  have sl: "slots ?pe ct = swap_remove idx (slots pe ct)" for ct
    by (simp add: remove_slot_def rebuild_aggregates_def)
  have dist: "distinct (ids ?pe)" using pe_wfD(1) [OF wf] idx by (simp add: vec_simps)
  have "distinct (conns l)" if "l \<in> set (slots ?pe ct)" for l ct
    using that set_swap_remove_subset [of idx "slots pe ct"] pe_wfD(2,3) [OF wf] idx
    by (auto simp: sl)
  moreover have "aggregates ?pe ct = rebuild_aggregate (slots ?pe ct)" for ct
    by (simp add: remove_slot_def rebuild_aggregates_def)
  ultimately show "pe_wf ?pe"
    using dist pe_wfD(2) [OF wf] rebuild_aggregate_correct by (auto simp: pe_wf_def sl vec_simps)
  show "pe_map ?pe = (pe_map pe)(ids pe ! idx := None)"
  proof (rule ext, rule option_eqI)
    fix i f
    have "pe_map ?pe i = Some f \<longleftrightarrow>
        (\<exists>j<length (ids pe) - 1. ids pe ! swap_index (length (ids pe)) idx j = i \<and>
           f = (\<lambda>ct. conns (slots pe ct ! swap_index (length (ids pe)) idx j)))"
      using dist idx pe_wfD(2) [OF wf]
      by (auto simp: pe_map_Some_iff sl vec_simps nth_swap_remove_index)
    also have "\<dots> \<longleftrightarrow> (\<exists>k<length (ids pe). k \<noteq> idx \<and> ids pe ! k = i \<and> f = (\<lambda>ct. conns (slots pe ct ! k)))"
      by (rule ex_swap_index [OF idx])
    also have "\<dots> \<longleftrightarrow> ((pe_map pe)(ids pe ! idx := None)) i = Some f"
      using pe_wfD(1) [OF wf] idx by (auto simp: pe_map_Some_iff nth_eq_iff_index_eq)
    finally show "pe_map ?pe i = Some f \<longleftrightarrow> ((pe_map pe)(ids pe ! idx := None)) i = Some f" .
  qed
qed

lemma is_slot_empty_iff: "is_slot_empty idx pe \<longleftrightarrow> (\<forall>ct. conns (slots pe ct ! idx) = [])"
  by (auto simp: is_slot_empty_def list_all_iff conn_list_is_empty_def)

text \<open>
  \<open>retain_non_empty\<close> drops exactly the ids without a connection of any type.
\<close>

definition drop_empty :: "(u128 \<rightharpoonup> conn_type \<Rightarrow> conn_id list) \<Rightarrow> u128 \<rightharpoonup> conn_type \<Rightarrow> conn_id list" where
  "drop_empty m = (\<lambda>i. case m i of None \<Rightarrow> None | Some f \<Rightarrow> if \<forall>ct. f ct = [] then None else Some f)"

lemma drop_empty_id: "(\<And>i f. m i = Some f \<Longrightarrow> \<exists>ct. f ct \<noteq> []) \<Longrightarrow> drop_empty m = m"
  by (auto simp: drop_empty_def fun_eq_iff split: option.splits)

lemma drop_empty_Some_iff: "drop_empty m i = Some f \<longleftrightarrow> m i = Some f \<and> (\<exists>ct. f ct \<noteq> [])"
  by (auto simp: drop_empty_def split: option.splits)

lemma retain_loop_correct:
  assumes "pe_wf pe" "\<forall>k<i. k < length (ids pe) \<longrightarrow> \<not> is_slot_empty k pe"
  shows "pe_wf (retain_loop i pe) \<and> pe_map (retain_loop i pe) = drop_empty (pe_map pe)"
  using assms
proof (induction i pe rule: retain_loop.induct)
  case (1 i pe)
  show ?case
  proof (cases "i < length (ids pe)")
    case False
    then have "drop_empty (pe_map pe) = pe_map pe"
      using "1.prems"
      by (intro drop_empty_id) (force simp: is_slot_empty_iff pe_map_Some_iff pe_wfD(1))
    with False "1.prems" show ?thesis by (simp add: retain_loop.simps [of i pe])
  next
    case lt: True
    show ?thesis
    proof (cases "is_slot_empty i pe")
      case True
      note rem = remove_slot_correct [OF "1.prems"(1) lt]
      have keep: "\<forall>k<i. k < length (ids (remove_slot i pe)) \<longrightarrow> \<not> is_slot_empty k (remove_slot i pe)"
        using "1.prems" lt pe_wfD(2) [OF "1.prems"(1)]
        by (auto simp: is_slot_empty_iff vec_simps remove_slot_def rebuild_aggregates_def nth_swap_remove)
      have "pe_map pe (ids pe ! i) = Some (\<lambda>ct. [])"
        using lt True "1.prems"(1)
        by (auto simp: pe_map_Some_iff pe_wfD(1) is_slot_empty_iff intro!: exI [of _ i])
      then have "drop_empty (pe_map (remove_slot i pe)) = drop_empty (pe_map pe)"
        unfolding rem(2) by (auto simp: drop_empty_def fun_eq_iff)
      with "1.IH"(1) [OF lt True rem(1) keep] lt True show ?thesis
        by (simp add: retain_loop.simps [of i pe])
    next
      case False
      with "1.prems" have "\<forall>k<Suc i. k < length (ids pe) \<longrightarrow> \<not> is_slot_empty k pe"
        by (auto simp: less_Suc_eq)
      with "1.IH"(2) [OF lt False "1.prems"(1)] lt False show ?thesis
        by (simp add: retain_loop.simps [of i pe])
    qed
  qed
qed

lemma retain_non_empty_correct:
  assumes "pe_wf pe"
  shows "pe_wf (retain_non_empty pe)" and "pe_map (retain_non_empty pe) = drop_empty (pe_map pe)"
  using retain_loop_correct [OF assms, of 0] by (simp_all add: retain_non_empty_def)

subsection \<open>Adding and removing one connection\<close>

lemma set_lists_correct:
  assumes wf: "pe_wf pe" and idx: "idx < length (ids pe)"
    and l: "distinct (conns l)"
    and agg: "distinct agg" "set agg = (\<Union>l\<in>set ((slots pe ct)[idx := l]). set (conns l))"
  shows "pe_wf (set_lists ct idx l agg pe)"
    and "pe_map (set_lists ct idx l agg pe) =
      (pe_map pe)(ids pe ! idx \<mapsto> (\<lambda>t. conns (slots pe t ! idx))(ct := conns l))"
proof -
  let ?pe = "set_lists ct idx l agg pe"
  have ids: "ids ?pe = ids pe" by (simp add: set_lists_def)
  show "pe_wf ?pe"
    using wf l agg set_update_subset_insert [of "slots pe ct" idx l]
    by (auto simp: pe_wf_def set_lists_def)
  show "pe_map ?pe = (pe_map pe)(ids pe ! idx \<mapsto> (\<lambda>t. conns (slots pe t ! idx))(ct := conns l))"
  proof (rule ext, rule option_eqI)
    fix i f
    show "pe_map ?pe i = Some f \<longleftrightarrow>
        ((pe_map pe)(ids pe ! idx \<mapsto> (\<lambda>t. conns (slots pe t ! idx))(ct := conns l))) i = Some f"
    proof (cases "i = ids pe ! idx")
      case True
      then show ?thesis
        using idx pe_wfD(1,2) [OF wf]
        by (auto simp: pe_map_Some_iff ids nth_eq_iff_index_eq set_lists_def fun_eq_iff)
    next
      case False
      then have "conns (slots ?pe t ! k) = conns (slots pe t ! k)" if "ids pe ! k = i" for t k
        using that by (cases "k = idx") (auto simp: set_lists_def)
      then show ?thesis
        using False pe_wfD(1) [OF wf] by (auto simp: pe_map_Some_iff ids cong: conj_cong)
    qed
  qed
qed

lemma push_id_correct:
  assumes wf: "pe_wf pe" and new: "i \<notin> set (ids pe)"
  shows "pe_wf (push_id i pe)" and "pe_map (push_id i pe) = (pe_map pe)(i \<mapsto> (\<lambda>_. []))"
proof -
  show wf': "pe_wf (push_id i pe)"
    using wf new by (auto simp: pe_wf_def push_id_def)
  show "pe_map (push_id i pe) = (pe_map pe)(i \<mapsto> (\<lambda>_. []))"
  proof (rule ext, rule option_eqI)
    fix j f
    have "pe_map (push_id i pe) j = Some f \<longleftrightarrow>
        (\<exists>k<Suc (length (ids pe)). (ids pe @ [i]) ! k = j \<and>
           f = (\<lambda>ct. conns ((slots pe ct @ [conn_list_new]) ! k)))"
      using pe_wfD(1) [OF wf'] by (simp add: pe_map_Some_iff) (simp add: push_id_def)
    also have "\<dots> \<longleftrightarrow> ((pe_map pe)(i \<mapsto> (\<lambda>_. []))) j = Some f"
      using new pe_wfD(1,2) [OF wf]
      by (auto simp: pe_map_Some_iff nth_append less_Suc_eq fun_eq_iff dest: nth_mem)
    finally show "pe_map (push_id i pe) j = Some f \<longleftrightarrow> ((pe_map pe)(i \<mapsto> (\<lambda>_. []))) j = Some f" .
  qed
qed

definition conns_of :: "prefix_entry \<Rightarrow> u128 \<Rightarrow> conn_type \<Rightarrow> conn_id list" where
  "conns_of pe i = (case pe_map pe i of None \<Rightarrow> (\<lambda>_. []) | Some f \<Rightarrow> f)"

lemma conns_of_nth:
  assumes "distinct (ids pe)" "k < length (ids pe)"
  shows "conns_of pe (ids pe ! k) = (\<lambda>ct. conns (slots pe ct ! k))"
  using assms by (auto simp: conns_of_def pe_map_def position_eq_Some_distinct)

lemma insert_conn_for_id_correct:
  assumes wf: "pe_wf pe"
  shows "pe_wf (snd (insert_conn_for_id i c ct pe))"
    and "pe_map (snd (insert_conn_for_id i c ct pe)) =
      (pe_map pe)(i \<mapsto> (conns_of pe i)(ct := push_new c (conns_of pe i ct)))"
    and "fst (insert_conn_for_id i c ct pe) \<longleftrightarrow> conns_of pe i ct = []"
proof -
  define pe1 idx where
    "pe1 = (if i \<in> set (ids pe) then pe else push_id i pe)" and
    "idx = (case position (\<lambda>j. j = i) (ids pe) of Some k \<Rightarrow> k | None \<Rightarrow> length (ids pe))"
  have wf1: "pe_wf pe1" using wf push_id_correct by (simp add: pe1_def)
  have idx: "idx < length (ids pe1)" "ids pe1 ! idx = i"
    using position_None_iff [of "\<lambda>j. j = i" "ids pe"] position_SomeD [of "\<lambda>j. j = i" "ids pe"]
    by (auto simp: pe1_def idx_def push_id_def split: option.splits)
  have map1: "(pe_map pe1)(i \<mapsto> v) = (pe_map pe)(i \<mapsto> v)" "conns_of pe1 i = conns_of pe i" for v
    using push_id_correct(2) [OF wf, of i]
    by (auto simp: pe1_def conns_of_def dom_pe_map [symmetric] split: option.splits)
  have slot: "(\<lambda>t. conns (slots pe1 t ! idx)) = conns_of pe i"
    using conns_of_nth [OF pe_wfD(1) [OF wf1] idx(1)] map1(2) by (simp add: idx(2))
  have ins: "insert_conn_for_id i c ct pe = (conn_list_is_empty (slots pe1 ct ! idx),
      set_lists ct idx (conn_list_push c (slots pe1 ct ! idx)) (push_new c (aggregates pe1 ct)) pe1)"
    using position_None_iff [of "\<lambda>j. j = i" "ids pe"] position_SomeD [of "\<lambda>j. j = i" "ids pe"]
    by (auto simp: insert_conn_for_id_def pe1_def idx_def push_new_def Let_def split: option.splits)
  have "slots pe1 ct ! idx \<in> set (slots pe1 ct)" using idx(1) pe_wfD(2) [OF wf1] by simp
  moreover from this have "distinct (conns (slots pe1 ct ! idx))" by (rule pe_wfD(3) [OF wf1])
  moreover have "set (push_new c (aggregates pe1 ct)) =
      (\<Union>l\<in>set ((slots pe1 ct)[idx := conn_list_push c (slots pe1 ct ! idx)]). set (conns l))"
    using idx(1) by (auto simp: vec_simps pe_wfD(2,5) [OF wf1] UN_list_update [of idx])
  ultimately have
    "pe_wf (set_lists ct idx (conn_list_push c (slots pe1 ct ! idx)) (push_new c (aggregates pe1 ct)) pe1)"
    "pe_map (set_lists ct idx (conn_list_push c (slots pe1 ct ! idx)) (push_new c (aggregates pe1 ct)) pe1) =
      (pe_map pe1)(ids pe1 ! idx \<mapsto> (\<lambda>t. conns (slots pe1 t ! idx))(ct := push_new c (conns (slots pe1 ct ! idx))))"
    using set_lists_correct [OF wf1 idx(1)] pe_wfD(4) [OF wf1] by (simp_all add: vec_simps)
  with fun_cong [OF slot, of ct]
  show "pe_wf (snd (insert_conn_for_id i c ct pe))"
    "pe_map (snd (insert_conn_for_id i c ct pe)) =
      (pe_map pe)(i \<mapsto> (conns_of pe i)(ct := push_new c (conns_of pe i ct)))"
    "fst (insert_conn_for_id i c ct pe) \<longleftrightarrow> conns_of pe i ct = []"
    by (simp_all add: ins idx(2) map1 slot conn_list_is_empty_def)
qed

end
