(* ===== verification/Prefix_Entry_Match.thy ===== *)
theory Prefix_Entry_Match
  imports Prefix_Entry
begin

text \<open>
  Second part of the correctness of \<open>PrefixEntry\<close>: removing a connection, and the four ways
  of matching (one or all connections, for one id or for any id), each characterised through
  the abstraction \<open>pe_map\<close>.
\<close>

section \<open>Removing a connection\<close>

lemma remove_conn_for_id_correct:
  assumes wf: "pe_wf pe"
  shows "pe_wf (snd (remove_conn_for_id i c ct pe))"
    and "pe_map (snd (remove_conn_for_id i c ct pe)) =
      (\<lambda>j. if j = i then map_option (\<lambda>f. f(ct := remove_elem c (f ct))) (pe_map pe i) else pe_map pe j)"
    and "fst (remove_conn_for_id i c ct pe) \<longleftrightarrow>
      (\<exists>f. pe_map pe i = Some f \<and> remove_elem c (f ct) = [])"
proof -
  have "pe_wf (snd (remove_conn_for_id i c ct pe)) \<and>
    pe_map (snd (remove_conn_for_id i c ct pe)) =
      (\<lambda>j. if j = i then map_option (\<lambda>f. f(ct := remove_elem c (f ct))) (pe_map pe i) else pe_map pe j) \<and>
    (fst (remove_conn_for_id i c ct pe) \<longleftrightarrow> (\<exists>f. pe_map pe i = Some f \<and> remove_elem c (f ct) = []))"
  proof (cases "position (\<lambda>j. j = i) (ids pe)")
    case None
    then show ?thesis using wf by (auto simp: remove_conn_for_id_def pe_map_def fun_eq_iff)
  next
    case (Some idx)
    then have idx: "idx < length (ids pe)" "ids pe ! idx = i" by (auto dest: position_SomeD)
    define l where "l = conn_list_remove c (slots pe ct ! idx)"
    define agg where "agg = (if \<not> list_ex (\<lambda>l. c \<in> set (conns l)) ((slots pe ct)[idx := l])
      then remove_elem c (aggregates pe ct) else aggregates pe ct)"
    have rem: "remove_conn_for_id i c ct pe = (conn_list_is_empty l, set_lists ct idx l agg pe)"
      using Some idx(1) pe_wfD(2) [OF wf, of ct]
      by (simp add: remove_conn_for_id_def l_def agg_def remove_elem_def Let_def set_lists_def)
    have slot: "slots pe ct ! idx \<in> set (slots pe ct)" using idx(1) pe_wfD(2) [OF wf] by simp
    note d = pe_wfD(3) [OF wf slot]
    have l: "set (conns l) = set (conns (slots pe ct ! idx)) - {c}" "distinct (conns l)"
      using d by (simp_all add: l_def vec_simps)
    have "distinct agg" using pe_wfD(4) [OF wf] by (simp add: agg_def vec_simps)
    moreover have "set agg = (\<Union>l\<in>set ((slots pe ct)[idx := l]). set (conns l))"
      using idx(1) l(1) pe_wfD(2,4,5) [OF wf, of ct]
      by (auto simp: agg_def vec_simps UN_list_update [of idx] list_ex_iff
          upd_conv_take_nth_drop split: if_splits)
    ultimately have res: "pe_wf (set_lists ct idx l agg pe)"
      "pe_map (set_lists ct idx l agg pe) = (pe_map pe)(i \<mapsto> (\<lambda>t. conns (slots pe t ! idx))(ct := conns l))"
      using set_lists_correct [OF wf idx(1) l(2)] by (simp_all add: idx(2))
    have "pe_map pe i = Some (\<lambda>t. conns (slots pe t ! idx))" using Some by (simp add: pe_map_def)
    then show ?thesis
      using res by (auto simp: rem conn_list_is_empty_def l_def fun_eq_iff)
  qed
  then show "pe_wf (snd (remove_conn_for_id i c ct pe))"
    and "pe_map (snd (remove_conn_for_id i c ct pe)) =
      (\<lambda>j. if j = i then map_option (\<lambda>f. f(ct := remove_elem c (f ct))) (pe_map pe i) else pe_map pe j)"
    and "fst (remove_conn_for_id i c ct pe) \<longleftrightarrow>
      (\<exists>f. pe_map pe i = Some f \<and> remove_elem c (f ct) = [])"
    by blast+
qed

lemma remove_conn_correct:
  assumes wf: "pe_wf pe"
  shows "pe_wf (remove_conn c pe)"
    and "pe_map (remove_conn c pe) = (\<lambda>i. map_option (\<lambda>f ct. remove_elem c (f ct)) (pe_map pe i))"
proof -
  have "set (conns l) - {c} = set (remove_elem c (conns l))" if "l \<in> set (slots pe ct)" for l ct
    using pe_wfD(3) [OF wf that] by (simp add: vec_simps)
  then show "pe_wf (remove_conn c pe)"
    using wf by (auto simp: pe_wf_def remove_conn_def vec_simps)
  show "pe_map (remove_conn c pe) = (\<lambda>i. map_option (\<lambda>f ct. remove_elem c (f ct)) (pe_map pe i))"
  proof
    fix i
    show "pe_map (remove_conn c pe) i = map_option (\<lambda>f ct. remove_elem c (f ct)) (pe_map pe i)"
      using pe_wfD(2) [OF wf]
      by (cases "position (\<lambda>j. j = i) (ids pe)")
         (auto simp: fun_eq_iff pe_map_def remove_conn_def dest!: position_SomeD)
  qed
qed

lemma has_conn_iff:
  "pe_wf pe \<Longrightarrow> has_conn c pe \<longleftrightarrow> (\<exists>i f ct. pe_map pe i = Some f \<and> c \<in> set (f ct))"
  by (auto simp: has_conn_def list_ex_iff aggregate_iff)

section \<open>Matching\<close>

text \<open>
  The connections an entry routes to: those of one id, or of any id, whose type passes the
  filter, but for the connection the message came from.
\<close>

definition targets :: "prefix_entry \<Rightarrow> u128 \<Rightarrow> conn_id \<Rightarrow> match_filter \<Rightarrow> conn_id set" where
  "targets pe i skip f = {c. c \<noteq> skip \<and> (\<exists>ct. filter_includes f ct \<and> c \<in> set (conns_of pe i ct))}"

definition targets_any :: "prefix_entry \<Rightarrow> conn_id \<Rightarrow> match_filter \<Rightarrow> conn_id set" where
  "targets_any pe skip f = (\<Union>i. targets pe i skip f)"

lemma get_all_correct:
  "get_all i skip f pe = None \<longleftrightarrow> pe_map pe i = None"
  "get_all i skip f pe = Some out \<Longrightarrow> set out = targets pe i skip f"
  by (auto simp: get_all_def pe_map_def targets_def conns_of_def split: option.splits)

text \<open>
  Advancing a cursor is invisible through \<open>pe_map\<close>, the invariant and the aggregates.
\<close>

definition same_but_cursors :: "prefix_entry \<Rightarrow> prefix_entry \<Rightarrow> bool" where
  "same_but_cursors pe pe' \<longleftrightarrow>
     ids pe' = ids pe \<and> aggregates pe' = aggregates pe \<and> pe_strings pe' = pe_strings pe \<and>
     (\<forall>ct. map conns (slots pe' ct) = map conns (slots pe ct))"

lemma same_but_cursors_refl [simp]: "same_but_cursors pe pe"
  by (simp add: same_but_cursors_def)

lemma same_but_cursors_trans:
  "same_but_cursors a b \<Longrightarrow> same_but_cursors b c \<Longrightarrow> same_but_cursors a c"
  by (simp add: same_but_cursors_def)

lemma same_but_cursors_nth:
  assumes "same_but_cursors pe pe'"
  shows "length (slots pe' ct) = length (slots pe ct)"
    and "k < length (slots pe ct) \<Longrightarrow> conns (slots pe' ct ! k) = conns (slots pe ct ! k)"
proof -
  have eq: "map conns (slots pe' ct) = map conns (slots pe ct)"
    using assms by (simp add: same_but_cursors_def)
  show len: "length (slots pe' ct) = length (slots pe ct)" using arg_cong [OF eq, of length] by simp
  show "k < length (slots pe ct) \<Longrightarrow> conns (slots pe' ct ! k) = conns (slots pe ct ! k)"
    using arg_cong [OF eq, of "\<lambda>xs. xs ! k"] len by simp
qed

lemma same_but_cursors_wf:
  assumes "same_but_cursors pe pe'" "pe_wf pe"
  shows "pe_wf pe'"
proof -
  have all: "(\<forall>l\<in>set ls. distinct (conns l)) \<longleftrightarrow> (\<forall>cs\<in>set (map conns ls). distinct cs)"
    and un: "(\<Union>l\<in>set ls. set (conns l)) = \<Union> (set ` set (map conns ls))" for ls
    by auto
  have eq: "map conns (slots pe' ct) = map conns (slots pe ct)" "ids pe' = ids pe"
    "aggregates pe' = aggregates pe" for ct
    using assms(1) by (auto simp: same_but_cursors_def)
  show ?thesis
    using assms(2) same_but_cursors_nth(1) [OF assms(1)] unfolding pe_wf_def all un eq by simp
qed

lemma same_but_cursors_map:
  assumes "same_but_cursors pe pe'" "pe_wf pe"
  shows "pe_map pe' = pe_map pe"
proof (rule ext, rule option_eqI)
  fix i f
  show "pe_map pe' i = Some f \<longleftrightarrow> pe_map pe i = Some f"
    using assms same_but_cursors_nth [OF assms(1)] pe_wfD(1,2) [OF assms(2)]
      same_but_cursors_wf [OF assms]
    by (auto simp: pe_map_Some_iff same_but_cursors_def pe_wfD(1))
qed

lemma find_next_cursors: "same_but_cursors pe (snd (find_next cts idx skip pe))"
proof (induction cts arbitrary: pe)
  case (Cons ct cts)
  obtain r l where nx: "conn_list_next skip (slots pe ct ! idx) = (r, l)" by fastforce
  define pe' where "pe' = pe\<lparr>slots := (slots pe)(ct := (slots pe ct)[idx := l])\<rparr>"
  have "conns l = conns (slots pe ct ! idx)" using next_conns [of skip "slots pe ct ! idx"] nx by simp
  then have "same_but_cursors pe pe'"
    by (cases "idx < length (slots pe ct)")
       (auto simp: same_but_cursors_def pe'_def map_update list_update_same_conv list_update_beyond)
  with Cons.IH [of pe'] nx show ?case
    by (auto simp: Let_def pe'_def [symmetric] split: option.splits intro: same_but_cursors_trans)
qed simp

lemma find_next_correct:
  assumes wf: "pe_wf pe" and idx: "idx < length (ids pe)"
  shows "case fst (find_next cts idx skip pe) of
      Some c \<Rightarrow> c \<noteq> skip \<and> (\<exists>ct\<in>set cts. c \<in> set (conns (slots pe ct ! idx)))
    | None \<Rightarrow> \<forall>ct\<in>set cts. set (conns (slots pe ct ! idx)) \<subseteq> {skip}"
  using assms
proof (induction cts arbitrary: pe)
  case (Cons ct cts)
  obtain r l where nx: "conn_list_next skip (slots pe ct ! idx) = (r, l)" by fastforce
  define pe' where "pe' = pe\<lparr>slots := (slots pe)(ct := (slots pe ct)[idx := l])\<rparr>"
  have len: "idx < length (slots pe t)" for t using Cons.prems pe_wfD(2) by simp
  have l: "conns l = conns (slots pe ct ! idx)" using next_conns [of skip "slots pe ct ! idx"] nx by simp
  have same: "same_but_cursors pe pe'"
    using l len by (auto simp: same_but_cursors_def pe'_def map_update list_update_same_conv)
  have d: "distinct (conns (slots pe ct ! idx))"
    by (rule pe_wfD(3) [OF Cons.prems(1), of _ ct]) (simp add: len)
  show ?case
  proof (cases r)
    case None
    then have "set (conns (slots pe ct ! idx)) \<subseteq> {skip}"
      using conn_list_next_None_iff [OF d, of skip] nx by simp
    moreover have "idx < length (ids pe')" using Cons.prems(2) by (simp add: pe'_def)
    note Cons.IH [OF same_but_cursors_wf [OF same Cons.prems(1)] this]
    moreover have "conns (slots pe' t ! idx) = conns (slots pe t ! idx)" for t
      using same_but_cursors_nth(2) [OF same len] .
    ultimately show ?thesis
      using nx None by (auto simp: pe'_def [symmetric] Let_def split: option.splits)
  next
    case (Some c)
    then show ?thesis
      using conn_list_next_sound [of skip "slots pe ct ! idx" c] nx by auto
  qed
qed simp

lemma get_one_correct:
  assumes wf: "pe_wf pe"
  shows "case fst (get_one i skip f pe) of
      Some c \<Rightarrow> c \<in> targets pe i skip f
    | None \<Rightarrow> targets pe i skip f = {}"
proof (cases "position (\<lambda>j. j = i) (ids pe)")
  case None
  then show ?thesis by (simp add: get_one_def targets_def conns_of_def pe_map_def)
next
  case (Some idx)
  then have "idx < length (ids pe)" by (auto dest: position_SomeD)
  from find_next_correct [OF wf this, of "filter_types f" skip] Some show ?thesis
    by (auto simp: get_one_def targets_def conns_of_def pe_map_def split: option.splits)
qed

lemma get_one_cursors: "same_but_cursors pe (snd (get_one i skip f pe))"
  by (simp add: get_one_def find_next_cursors split: option.splits)

lemma conns_of_mem_iff: "c \<in> set (conns_of pe i ct) \<longleftrightarrow> (\<exists>f. pe_map pe i = Some f \<and> c \<in> set (f ct))"
  by (auto simp: conns_of_def split: option.splits)

lemma targets_any_iff:
  assumes "pe_wf pe"
  shows "c \<in> targets_any pe skip f \<longleftrightarrow>
    c \<noteq> skip \<and> (\<exists>ct. filter_includes f ct \<and> c \<in> set (aggregates pe ct))"
  unfolding targets_any_def targets_def by (auto simp: aggregate_iff [OF assms] conns_of_mem_iff)

lemma get_all_any_correct: "pe_wf pe \<Longrightarrow> set (get_all_any skip f pe) = targets_any pe skip f"
  by (auto simp: get_all_any_def targets_any_iff)

lemma pick_one_correct:
  "case fst (pick_one cts skip pe) of
      Some c \<Rightarrow> c \<noteq> skip \<and> (\<exists>ct\<in>set cts. c \<in> set (aggregates pe ct))
    | None \<Rightarrow> \<forall>ct\<in>set cts. set (aggregates pe ct) \<subseteq> {skip}"
proof (induction cts arbitrary: pe)
  case (Cons ct cts)
  define start where "start = unat (slot_cursor pe) mod length (aggregates pe ct)"
  have rot: "set (drop start (aggregates pe ct)) \<union> set (take start (aggregates pe ct)) = set (aggregates pe ct)"
    by (metis append_take_drop_id set_append sup_commute)
  show ?case
  proof (cases "List.find (\<lambda>c. c \<noteq> skip) (drop start (aggregates pe ct) @ take start (aggregates pe ct))")
    case None
    then have "set (aggregates pe ct) \<subseteq> {skip}"
      using rot by (auto simp: find_None_iff)
    then show ?thesis
      using None Cons.IH [of "pe\<lparr>slot_cursor := slot_cursor pe + 1\<rparr>"] Cons.IH [of pe]
      by (auto simp: Let_def start_def [symmetric] split: option.splits)
  next
    case (Some c)
    then have "c \<noteq> skip" "c \<in> set (aggregates pe ct)"
      using rot find_SomeD [OF Some] by auto
    then show ?thesis
      using Some by (auto simp: Let_def start_def [symmetric])
  qed
qed simp

lemma pick_one_cursors: "same_but_cursors pe (snd (pick_one cts skip pe))"
proof (induction cts arbitrary: pe)
  case (Cons ct cts)
  have "same_but_cursors pe (pe\<lparr>slot_cursor := slot_cursor pe + 1\<rparr>)"
    by (simp add: same_but_cursors_def)
  with Cons.IH [of "pe\<lparr>slot_cursor := slot_cursor pe + 1\<rparr>"] Cons.IH [of pe] show ?case
    by (auto simp: Let_def split: option.splits intro: same_but_cursors_trans)
qed simp

lemma pick_one_any_correct:
  assumes "pe_wf pe"
  shows "case fst (pick_one_any skip f pe) of
      Some c \<Rightarrow> c \<in> targets_any pe skip f
    | None \<Rightarrow> targets_any pe skip f = {}"
  using pick_one_correct [where cts = "filter_types f" and skip = skip and pe = pe]
  by (auto simp: pick_one_any_def targets_any_iff [OF assms] split: option.splits) blast

lemma pick_one_any_cursors: "same_but_cursors pe (snd (pick_one_any skip f pe))"
  by (simp add: pick_one_any_def pick_one_cursors)

end
