(* ===== verification/Messages.thy ===== *)
theory Messages
  imports Names
begin

text \<open>
  The wire messages of \<^verbatim>\<open>crates/proto\<close>: the protobuf types of
  \<^verbatim>\<open>proto/data-plane/v1/data_plane.proto\<close> and their accessors, validation and builder of
  \<^verbatim>\<open>src/impls.rs\<close>. An accessor that panics on a missing part (\<open>expect\<close>) returns \<open>None\<close>.
  An unknown value of an enum field reads as the unspecified one.
\<close>

section \<open>Types\<close>

type_synonym bytes = "8 word list"

datatype session_type = UnspecifiedType | PointToPoint | Multicast

datatype session_message_type =
    Unspecified | Msg | MsgAck | RtxRequest | RtxReply | DiscoveryRequest | DiscoveryReply
  | JoinRequest | JoinReply | LeaveRequest | LeaveReply | GroupUpdate | GroupWelcome | GroupClose
  | GroupProposal | GroupAck | GroupNack | Heartbeat | UpdateParticipantState | RejoinRequest | RejoinReply

record slim_header =
  hdr_source :: "proto_name option"
  hdr_destination :: "proto_name option"
  hdr_identity :: string
  hdr_fanout :: nat
  hdr_version :: string
  hdr_ttl :: nat
  hdr_recv_from :: "nat option"
  hdr_forward_to :: "nat option"
  hdr_incoming_conn :: "nat option"
  hdr_error :: "bool option"
  hdr_mac :: "bytes option"
  hdr_e2e_sig :: "bytes option"

record session_header =
  sh_session_type :: session_type
  sh_message_type :: session_message_type
  sh_session_id :: nat
  sh_message_id :: nat

datatype participant_state = Online | Offline

record participant_settings =
  sends_data :: bool
  receives_data :: bool

record participant =
  part_name :: "proto_name option"
  part_settings :: "participant_settings option"
  part_status :: participant_state

datatype group_update_op = Add | Remove | Rejoin

record mls_payload =
  commit_id :: nat
  mls_content :: bytes

record group_update_payload =
  gu_op :: group_update_op
  gu_participant :: "participant option"
  gu_participants :: "participant list"
  gu_mls :: "mls_payload option"

record timer_settings_payload =
  tsp_timeout :: nat
  tsp_max_retries :: nat

record join_request_payload =
  jr_timer_settings :: "timer_settings_payload option"
  jr_channel :: "proto_name option"
  jr_control :: "proto_name option"
  jr_header_integrity :: "nat option"

datatype command_payload =
    DiscoveryRequestPayload
  | DiscoveryReplyPayload
  | JoinRequestPayload join_request_payload
  | JoinReplyPayload "bytes option" "participant option"
  | LeaveRequestPayload
  | LeaveReplyPayload
  | GroupUpdatePayload group_update_payload
  | GroupWelcomePayload "participant list" "mls_payload option"
  | GroupClosePayload "proto_name list"
  | GroupProposalPayload "proto_name option" bytes
  | GroupAckPayload
  | GroupNackPayload
  | HeartbeatPayload u64
  | UpdateParticipantStatePayload "proto_name option" participant_state u64
  | RejoinRequestPayload "proto_name option" bytes
  | RejoinReplyPayload nat bytes

text \<open>\<open>Content\<close>: its \<open>oneof\<close> may be unset, as may the one of \<open>CommandPayload\<close>.\<close>

datatype content = AppPayload string bytes | Command "command_payload option" | NoContent

record publish_msg =
  pub_header :: "slim_header option"
  pub_session :: "session_header option"
  pub_msg :: "content option"

record subscribe_msg =
  sub_header :: "slim_header option"
  subscription_id :: nat

record link_negotiation =
  neg_link_id :: string
  neg_slim_version :: string
  neg_is_reply :: bool
  neg_ecdh_public_key :: bytes
  neg_connection_type :: nat
  neg_node_id :: string
  neg_deployment_name :: string
  neg_kem_payload :: "bytes option"

record subscription_ack =
  ack_subscription_id :: nat
  ack_success :: bool
  ack_error :: string

datatype message_type =
    Publish publish_msg
  | Subscribe subscribe_msg
  | Unsubscribe subscribe_msg
  | Link "link_negotiation option"
  | SubscriptionAck subscription_ack

record proto_message =
  metadata :: "(string, string) hmap"
  message_type :: "message_type option"

datatype message_error =
    MessageTypeNotFound | LinkTypeNotSet | SlimHeaderNotFound | SessionHeaderNotFound
  | SourceNotFound | SourceEncodedNameNotFound | DestinationNotFound | DestinationEncodedNameNotFound
  | BuilderErrorSourceRequired | BuilderErrorDestinationRequired
  | ContentTypeNotSet | NotApplicationPayload | NotCommandPayload
  | InvalidCommandPayloadType string "command_payload option"
  | ParticipantNameNotFound | ParticipantSettingsNotFound

definition PUBLISH_TO :: string where "PUBLISH_TO = ''PUBLISH_TO''"
definition TRUE_VAL :: string where "TRUE_VAL = ''TRUE''"
definition MAX_PUBLISH_ID :: nat where "MAX_PUBLISH_ID = 2 ^ 31 - 1"

section \<open>Participants and message types\<close>

definition bidirectional :: participant_settings where
  "bidirectional = \<lparr>sends_data = True, receives_data = True\<rparr>"

definition participant_new :: "proto_name \<Rightarrow> participant_settings \<Rightarrow> participant" where
  "participant_new n s = \<lparr>part_name = Some n, part_settings = Some s, part_status = Online\<rparr>"

definition participant_get_name :: "participant \<Rightarrow> message_error + proto_name" where
  "participant_get_name p = (case part_name p of Some n \<Rightarrow> Inr n | None \<Rightarrow> Inl ParticipantNameNotFound)"

definition participant_get_settings :: "participant \<Rightarrow> message_error + participant_settings" where
  "participant_get_settings p =
     (case part_settings p of Some s \<Rightarrow> Inr s | None \<Rightarrow> Inl ParticipantSettingsNotFound)"

definition is_command_message :: "session_message_type \<Rightarrow> bool" where
  "is_command_message t \<longleftrightarrow>
     t \<in> {DiscoveryRequest, DiscoveryReply, JoinRequest, JoinReply, LeaveRequest, LeaveReply, GroupUpdate,
          GroupWelcome, GroupClose, GroupProposal, GroupAck, GroupNack, Heartbeat, UpdateParticipantState,
          RejoinRequest, RejoinReply}"

section \<open>Validation\<close>

definition validate_routed_header :: "slim_header \<Rightarrow> message_error + unit" where
  "validate_routed_header h =
     (case hdr_source h of
        None \<Rightarrow> Inl SourceNotFound
      | Some src \<Rightarrow>
          if enc_name src = None then Inl SourceEncodedNameNotFound
          else (case hdr_destination h of
                  None \<Rightarrow> Inl DestinationNotFound
                | Some dst \<Rightarrow> if enc_name dst = None then Inl DestinationEncodedNameNotFound else Inr ()))"

definition validate_publish :: "publish_msg \<Rightarrow> message_error + unit" where
  "validate_publish p =
     (case pub_header p of
        None \<Rightarrow> Inl SlimHeaderNotFound
      | Some h \<Rightarrow>
          (case validate_routed_header h of
             Inl e \<Rightarrow> Inl e
           | Inr _ \<Rightarrow> if pub_session p = None then Inl SessionHeaderNotFound else Inr ()))"

definition validate_subscribe :: "subscribe_msg \<Rightarrow> message_error + unit" where
  "validate_subscribe s =
     (case sub_header s of None \<Rightarrow> Inl SlimHeaderNotFound | Some h \<Rightarrow> validate_routed_header h)"

definition validate :: "proto_message \<Rightarrow> message_error + unit" where
  "validate m =
     (case message_type m of
        None \<Rightarrow> Inl MessageTypeNotFound
      | Some (Link l) \<Rightarrow> if l = None then Inl LinkTypeNotSet else Inr ()
      | Some (Publish p) \<Rightarrow> validate_publish p
      | Some (Subscribe s) \<Rightarrow> validate_subscribe s
      | Some (Unsubscribe s) \<Rightarrow> validate_subscribe s
      | Some (SubscriptionAck _) \<Rightarrow> Inr ())"

section \<open>Accessors\<close>

definition contains_metadata :: "string \<Rightarrow> proto_message \<Rightarrow> bool" where
  "contains_metadata k m \<longleftrightarrow> hget (metadata m) k \<noteq> None"

definition remove_metadata :: "string \<Rightarrow> proto_message \<Rightarrow> proto_message" where
  "remove_metadata k m = m\<lparr>metadata := hdel k (metadata m)\<rparr>"

definition get_slim_header :: "proto_message \<Rightarrow> slim_header option" where
  "get_slim_header m =
     (case message_type m of
        Some (Publish p) \<Rightarrow> pub_header p
      | Some (Subscribe s) \<Rightarrow> sub_header s
      | Some (Unsubscribe s) \<Rightarrow> sub_header s
      | _ \<Rightarrow> None)"

definition get_session_header :: "proto_message \<Rightarrow> session_header option" where
  "get_session_header m = (case message_type m of Some (Publish p) \<Rightarrow> pub_session p | _ \<Rightarrow> None)"

text \<open>\<open>get_slim_header_mut\<close> and \<open>get_session_header_mut\<close>, with the change made to the header.\<close>

definition update_slim_header :: "(slim_header \<Rightarrow> slim_header) \<Rightarrow> proto_message \<Rightarrow> proto_message option" where
  "update_slim_header f m =
     (case message_type m of
        Some (Publish p) \<Rightarrow>
          map_option (\<lambda>h. m\<lparr>message_type := Some (Publish (p\<lparr>pub_header := Some (f h)\<rparr>))\<rparr>) (pub_header p)
      | Some (Subscribe s) \<Rightarrow>
          map_option (\<lambda>h. m\<lparr>message_type := Some (Subscribe (s\<lparr>sub_header := Some (f h)\<rparr>))\<rparr>) (sub_header s)
      | Some (Unsubscribe s) \<Rightarrow>
          map_option (\<lambda>h. m\<lparr>message_type := Some (Unsubscribe (s\<lparr>sub_header := Some (f h)\<rparr>))\<rparr>) (sub_header s)
      | _ \<Rightarrow> None)"

definition update_session_header ::
  "(session_header \<Rightarrow> session_header) \<Rightarrow> proto_message \<Rightarrow> proto_message option" where
  "update_session_header f m =
     (case message_type m of
        Some (Publish p) \<Rightarrow>
          map_option (\<lambda>h. m\<lparr>message_type := Some (Publish (p\<lparr>pub_session := Some (f h)\<rparr>))\<rparr>) (pub_session p)
      | _ \<Rightarrow> None)"

definition get_id :: "proto_message \<Rightarrow> nat option" where
  "get_id m = map_option sh_message_id (get_session_header m)"

definition get_session_message_type :: "proto_message \<Rightarrow> session_message_type option" where
  "get_session_message_type m = map_option sh_message_type (get_session_header m)"

definition get_session_type :: "proto_message \<Rightarrow> session_type option" where
  "get_session_type m = map_option sh_session_type (get_session_header m)"

definition get_source :: "proto_message \<Rightarrow> proto_name option" where
  "get_source m = Option.bind (get_slim_header m) hdr_source"

definition get_dst :: "proto_message \<Rightarrow> proto_name option" where
  "get_dst m = Option.bind (get_slim_header m) hdr_destination"

definition get_encoded_source :: "proto_message \<Rightarrow> encoded_name option" where
  "get_encoded_source m = Option.bind (get_source m) enc_name"

definition get_encoded_dst :: "proto_message \<Rightarrow> encoded_name option" where
  "get_encoded_dst m = Option.bind (get_dst m) enc_name"

definition get_incoming_conn :: "proto_message \<Rightarrow> nat option" where
  "get_incoming_conn m = Option.bind (get_slim_header m) hdr_incoming_conn"

definition get_error :: "proto_message \<Rightarrow> bool option option" where
  "get_error m = map_option hdr_error (get_slim_header m)"

definition decrement_ttl :: "slim_header \<Rightarrow> slim_header" where
  "decrement_ttl h = h\<lparr>hdr_ttl := hdr_ttl h - 1\<rparr>"

definition take_subscription_id :: "proto_message \<Rightarrow> nat option \<times> proto_message" where
  "take_subscription_id m =
     (case message_type m of
        Some (Subscribe s) \<Rightarrow>
          if subscription_id s \<noteq> 0
          then (Some (subscription_id s), m\<lparr>message_type := Some (Subscribe (s\<lparr>subscription_id := 0\<rparr>))\<rparr>)
          else (None, m)
      | Some (Unsubscribe s) \<Rightarrow>
          if subscription_id s \<noteq> 0
          then (Some (subscription_id s), m\<lparr>message_type := Some (Unsubscribe (s\<lparr>subscription_id := 0\<rparr>))\<rparr>)
          else (None, m)
      | _ \<Rightarrow> (None, m))"

definition set_subscription_id :: "nat \<Rightarrow> proto_message \<Rightarrow> proto_message" where
  "set_subscription_id i m =
     (case message_type m of
        Some (Subscribe s) \<Rightarrow> m\<lparr>message_type := Some (Subscribe (s\<lparr>subscription_id := i\<rparr>))\<rparr>
      | Some (Unsubscribe s) \<Rightarrow> m\<lparr>message_type := Some (Unsubscribe (s\<lparr>subscription_id := i\<rparr>))\<rparr>
      | _ \<Rightarrow> m)"

section \<open>Payloads\<close>

definition as_command_payload :: "content \<Rightarrow> message_error + command_payload option" where
  "as_command_payload c =
     (case c of
        AppPayload _ _ \<Rightarrow> Inl NotCommandPayload
      | Command p \<Rightarrow> Inr p
      | NoContent \<Rightarrow> Inl ContentTypeNotSet)"

text \<open>\<open>extract_command_payload\<close>; the outer \<open>None\<close> is the panic of \<open>get_payload\<close>.\<close>

definition extract_command_payload :: "proto_message \<Rightarrow> (message_error + command_payload option) option" where
  "extract_command_payload m =
     (case message_type m of
        Some (Publish p) \<Rightarrow>
          Some (case pub_msg p of None \<Rightarrow> Inl ContentTypeNotSet | Some c \<Rightarrow> as_command_payload c)
      | _ \<Rightarrow> None)"

definition extract_group_update :: "proto_message \<Rightarrow> (message_error + group_update_payload) option" where
  "extract_group_update m =
     map_option (\<lambda>r. case r of
         Inl e \<Rightarrow> Inl e
       | Inr (Some (GroupUpdatePayload g)) \<Rightarrow> Inr g
       | Inr other \<Rightarrow> Inl (InvalidCommandPayloadType ''GroupUpdate'' other))
     (extract_command_payload m)"

section \<open>The builder\<close>

record slim_header_flags =
  fl_fanout :: nat
  fl_recv_from :: "nat option"
  fl_forward_to :: "nat option"
  fl_incoming_conn :: "nat option"
  fl_error :: "bool option"
  fl_ttl :: nat

definition DEFAULT_TTL :: nat where "DEFAULT_TTL = 8"

definition default_flags :: slim_header_flags where
  "default_flags =
     \<lparr>fl_fanout = 1, fl_recv_from = None, fl_forward_to = None, fl_incoming_conn = None, fl_error = None,
      fl_ttl = DEFAULT_TTL\<rparr>"

definition slim_header_new ::
  "externs \<Rightarrow> proto_name \<Rightarrow> proto_name \<Rightarrow> string \<Rightarrow> slim_header_flags option \<Rightarrow> slim_header" where
  "slim_header_new x src dst ident flags =
     (let f = (case flags of Some f \<Rightarrow> f | None \<Rightarrow> default_flags) in
      \<lparr>hdr_source = Some src, hdr_destination = Some dst, hdr_identity = ident, hdr_fanout = fl_fanout f,
       hdr_version = build_version x, hdr_ttl = fl_ttl f, hdr_recv_from = fl_recv_from f,
       hdr_forward_to = fl_forward_to f, hdr_incoming_conn = fl_incoming_conn f, hdr_error = fl_error f,
       hdr_mac = None, hdr_e2e_sig = None\<rparr>)"

record message_builder =
  b_source :: "proto_name option"
  b_destination :: "proto_name option"
  b_identity :: "string option"
  b_flags :: "slim_header_flags option"
  b_session_type :: "session_type option"
  b_session_message_type :: "session_message_type option"
  b_session_id :: "nat option"
  b_message_id :: "nat option"
  b_payload :: "content option"
  b_metadata :: "(string, string) hmap"
  b_subscription_id :: "nat option"

definition builder_new :: message_builder where
  "builder_new =
     \<lparr>b_source = None, b_destination = None, b_identity = None, b_flags = None, b_session_type = None,
      b_session_message_type = None, b_session_id = None, b_message_id = None, b_payload = None,
      b_metadata = [], b_subscription_id = None\<rparr>"

text \<open>\<open>flags.get_or_insert_default()\<close> and a change to the flags: \<open>fanout\<close>, \<open>forward_to\<close>, \<open>error\<close>.\<close>

definition with_flags :: "(slim_header_flags \<Rightarrow> slim_header_flags) \<Rightarrow> message_builder \<Rightarrow> message_builder" where
  "with_flags f b = b\<lparr>b_flags := Some (f (case b_flags b of Some fl \<Rightarrow> fl | None \<Rightarrow> default_flags))\<rparr>"

text \<open>\<open>build_publish\<close>; \<open>rnd\<close> is the random message id used when none is set.\<close>

definition build_publish :: "externs \<Rightarrow> nat \<Rightarrow> message_builder \<Rightarrow> message_error + proto_message" where
  "build_publish x rnd b =
     (case b_source b of
        None \<Rightarrow> Inl BuilderErrorSourceRequired
      | Some src \<Rightarrow>
          (case b_destination b of
             None \<Rightarrow> Inl BuilderErrorDestinationRequired
           | Some dst \<Rightarrow>
               Inr \<lparr>metadata = b_metadata b,
                    message_type = Some (Publish
                      \<lparr>pub_header = Some (slim_header_new x src dst
                         (case b_identity b of Some i \<Rightarrow> i | None \<Rightarrow> '''') (b_flags b)),
                       pub_session = Some
                         (if b_session_type b \<noteq> None \<or> b_session_message_type b \<noteq> None
                          then \<lparr>sh_session_type = (case b_session_type b of Some t \<Rightarrow> t | None \<Rightarrow> PointToPoint),
                                sh_message_type = (case b_session_message_type b of Some t \<Rightarrow> t | None \<Rightarrow> Msg),
                                sh_session_id = (case b_session_id b of Some i \<Rightarrow> i | None \<Rightarrow> 0),
                                sh_message_id = (case b_message_id b of Some i \<Rightarrow> i | None \<Rightarrow> rnd)\<rparr>
                          else \<lparr>sh_session_type = UnspecifiedType, sh_message_type = Unspecified,
                                sh_session_id = 0, sh_message_id = 0\<rparr>),
                       pub_msg = b_payload b\<rparr>)\<rparr>))"

definition build_subscription :: "externs \<Rightarrow> message_builder \<Rightarrow> message_error + subscribe_msg" where
  "build_subscription x b =
     (case b_source b of
        None \<Rightarrow> Inl BuilderErrorSourceRequired
      | Some src \<Rightarrow>
          (case b_destination b of
             None \<Rightarrow> Inl BuilderErrorDestinationRequired
           | Some dst \<Rightarrow>
               Inr \<lparr>sub_header = Some (slim_header_new x src dst
                       (case b_identity b of Some i \<Rightarrow> i | None \<Rightarrow> '''') (b_flags b)),
                    subscription_id = (case b_subscription_id b of Some i \<Rightarrow> i | None \<Rightarrow> 0)\<rparr>))"

definition build_subscribe :: "externs \<Rightarrow> message_builder \<Rightarrow> message_error + proto_message" where
  "build_subscribe x b =
     map_sum id (\<lambda>s. \<lparr>metadata = b_metadata b, message_type = Some (Subscribe s)\<rparr>) (build_subscription x b)"

definition build_unsubscribe :: "externs \<Rightarrow> message_builder \<Rightarrow> message_error + proto_message" where
  "build_unsubscribe x b =
     map_sum id (\<lambda>s. \<lparr>metadata = b_metadata b, message_type = Some (Unsubscribe s)\<rparr>) (build_subscription x b)"

section \<open>Valid publish messages\<close>

text \<open>
  What the session layer works on: a publish message that passed \<open>validate\<close> and carries the
  connection it came in on. None of the accessors panics on it.
\<close>

definition is_publish :: "proto_message \<Rightarrow> bool" where
  "is_publish m \<longleftrightarrow> (\<exists>p. message_type m = Some (Publish p))"

definition publish_ok :: "proto_message \<Rightarrow> bool" where
  "publish_ok m \<longleftrightarrow>
     get_session_header m \<noteq> None \<and> get_encoded_source m \<noteq> None \<and> get_encoded_dst m \<noteq> None"

lemma validate_publish_ok:
  assumes "validate m = Inr ()" "message_type m = Some (Publish p)"
  shows "publish_ok m"
  using assms
  by (auto simp: validate_def validate_publish_def validate_routed_header_def publish_ok_def
      get_session_header_def get_encoded_source_def get_encoded_dst_def get_source_def get_dst_def
      get_slim_header_def split: option.splits sum.splits if_splits)

lemma publish_okE:
  assumes "publish_ok m"
  obtains p h s src dst se de where
    "message_type m = Some (Publish p)" "pub_header p = Some h" "pub_session p = Some s"
    "hdr_source h = Some src" "enc_name src = Some se" "hdr_destination h = Some dst" "enc_name dst = Some de"
  using assms
  by (auto simp: publish_ok_def get_session_header_def get_encoded_source_def get_encoded_dst_def
      get_source_def get_dst_def get_slim_header_def bind_eq_Some_conv split: option.splits message_type.splits)

lemmas accessor_defs =
  get_session_header_def get_slim_header_def get_id_def get_session_message_type_def get_session_type_def
  get_source_def get_dst_def get_encoded_source_def get_encoded_dst_def get_incoming_conn_def get_error_def

text \<open>A message built with both names present is valid when their encoded parts are.\<close>

lemma build_publish_ok:
  assumes "build_publish x rnd b = Inr m" "b_source b = Some src" "b_destination b = Some dst"
    "enc_name src \<noteq> None" "enc_name dst \<noteq> None"
  shows "validate m = Inr ()" "publish_ok m"
  using assms
  by (auto simp: build_publish_def validate_def validate_publish_def validate_routed_header_def publish_ok_def
      accessor_defs slim_header_new_def Let_def)

end
