(* ===== verification/Subscription_Table.thy ===== *)
theory Subscription_Table
  imports Prefix_Entry_Match Messages
begin

text \<open>
  \<open>SubscriptionTableImpl\<close> of \<^verbatim>\<open>crates/datapath/src/tables/subscription_table.rs\<close>: the routing
  table (prefix to \<open>PrefixEntry\<close>) that messages are matched against, and the bookkeeping of
  subscriptions behind the mutex. A write takes the mutex, clones the routing snapshot,
  changes the clone and stores it; a match reads one snapshot. The operations are therefore
  functions on the pair of both, and advance the round-robin cursors of the snapshot.
\<close>

section \<open>State\<close>

text \<open>
  \<open>DataPathError\<close>. The payloads that are errors of other crates or of parts outside the model
  (gRPC status, configuration, header authentication) are their texts.
\<close>

datatype datapath_error =
    ConnectionError
  | DisconnectionError conn_id
  | GrpcError string
  | NegotiationError string
  | UnknownMsgType
  | InvalidMessage message_error
  | DataPath_InvalidNameIdFormat string
  | DataPath_InvalidNameFormat string
  | NoMatchEncoded u64 u64 u64 string
  | SubscriptionNotFound proto_name
  | SubscriptionIdNotFound sub_id
  | IdNotFound string
  | ConnectionNotFound conn_id
  | ConnectionIdNotFound conn_id
  | InvalidDefaultGateway conn_id string
  | MalformedMessage message_error
  | ProcessingError message_error
  | ConnectionSendError
  | ConnectionTableAddError
  | MessageProcessingError datapath_error proto_message
  | ConfigurationError string
  | RemoteSubscriptionAckTimeout nat
  | RemoteSubscriptionAckError string
  | AlreadyClosedError
  | ShuttingDownError
  | ShutdownTimeoutError
  | HeaderIntegrity string
  | HeaderMacAwaitingLinkNegotiation conn_id
  | LinkKeyGeneration
  | TtlExpired

record sub_record =
  rec_encoded :: encoded_name
  rec_conn :: conn_id
  rec_category :: conn_type

record sub_key =
  key_conn :: conn_id
  key_sub :: sub_id
  key_encoded :: encoded_name

text \<open>\<open>SubscriptionState\<close>: the subscriptions, and the reverse map from connections.\<close>

record sub_state =
  subscriptions :: "(sub_key, sub_record) hmap"
  conn_subs :: "(conn_id, sub_key list) hmap"

record sub_table =
  routing :: "(prefix, prefix_entry) hmap"
  sub_state :: sub_state

definition sub_table_default :: sub_table where
  "sub_table_default = \<lparr>routing = [], sub_state = \<lparr>subscriptions = [], conn_subs = []\<rparr>\<rparr>"

section \<open>The bookkeeping\<close>

definition sub_state_add :: "sub_id \<Rightarrow> sub_record \<Rightarrow> sub_state \<Rightarrow> sub_state" where
  "sub_state_add sid r ss =
     (let key = \<lparr>key_conn = rec_conn r, key_sub = sid, key_encoded = rec_encoded r\<rparr> in
      ss\<lparr>subscriptions := hput key r (subscriptions ss),
         conn_subs := hput (rec_conn r)
           (List.insert key (case hget (conn_subs ss) (rec_conn r) of Some ks \<Rightarrow> ks | None \<Rightarrow> []))
           (conn_subs ss)\<rparr>)"

definition sub_state_remove :: "sub_key \<Rightarrow> sub_state \<Rightarrow> (sub_record \<times> sub_state) option" where
  "sub_state_remove key ss =
     (case hget (subscriptions ss) key of
        None \<Rightarrow> None
      | Some r \<Rightarrow>
          Some (r, ss\<lparr>subscriptions := hdel key (subscriptions ss),
                     conn_subs :=
                       (case hget (conn_subs ss) (key_conn key) of
                          Some ks \<Rightarrow>
                            let ks' = removeAll key ks in
                            if ks' = [] then hdel (key_conn key) (conn_subs ss)
                            else hput (key_conn key) ks' (conn_subs ss)
                        | None \<Rightarrow> conn_subs ss)\<rparr>))"

definition conn_still_subscribed :: "conn_id \<Rightarrow> encoded_name \<Rightarrow> sub_state \<Rightarrow> bool" where
  "conn_still_subscribed c e ss =
     (case hget (conn_subs ss) c of
        Some ks \<Rightarrow> list_ex (\<lambda>k. key_encoded k = e) ks
      | None \<Rightarrow> False)"

section \<open>Writes\<close>

text \<open>
  \<open>add_subscription\<close>. The result is \<open>None\<close> on a panic: a name without its encoded part
  (\<open>unwrap\<close>), or, when the prefix is new, without its string part (\<open>str_components\<close>). The
  routing change and the bookkeeping are both done under the mutex.
\<close>

definition add_subscription ::
  "proto_name \<Rightarrow> conn_id \<Rightarrow> conn_type \<Rightarrow> sub_id \<Rightarrow> sub_table \<Rightarrow> (bool \<times> sub_table) option" where
  "add_subscription n c category sid t =
     do {
       enc \<leftarrow> enc_name n;
       entry \<leftarrow> (case hget (routing t) (enc_prefix enc) of
                  Some pe \<Rightarrow> Some pe
                | None \<Rightarrow> map_option prefix_entry_new (str_components n));
       let (first, pe) = insert_conn_for_id (encoded_name_id enc) c category entry;
       Some (first, t\<lparr>routing := hput (enc_prefix enc) pe (routing t),
                      sub_state := sub_state_add sid
                        \<lparr>rec_encoded = enc, rec_conn = c, rec_category = category\<rparr> (sub_state t)\<rparr>)
     }"

text \<open>
  The step both removals share: take the connection out of the slot of an id, drop the empty
  slots, and drop the whole prefix when nothing is left.
\<close>

definition unroute ::
  "prefix \<Rightarrow> u128 \<Rightarrow> conn_id \<Rightarrow> conn_type \<Rightarrow> (prefix, prefix_entry) hmap \<Rightarrow> bool \<times> (prefix, prefix_entry) hmap" where
  "unroute p i c category rs =
     (case hget rs p of
        Some entry \<Rightarrow>
          let (was_last, pe1) = remove_conn_for_id i c category entry;
              pe = retain_non_empty pe1
          in (was_last, if prefix_entry_is_empty pe then hdel p rs else hput p pe rs)
      | None \<Rightarrow> (False, rs))"

definition remove_subscription ::
  "externs \<Rightarrow> proto_name \<Rightarrow> conn_id \<Rightarrow> conn_type \<Rightarrow> sub_id \<Rightarrow> sub_table \<Rightarrow>
   ((datapath_error + bool) \<times> sub_table) option" where
  "remove_subscription x n c category sid t =
     (case enc_name n of
        None \<Rightarrow> None
      | Some enc \<Rightarrow>
          Some (let i = encoded_name_id enc in
            case hget (routing t) (enc_prefix enc) of
              None \<Rightarrow> (Inl (SubscriptionNotFound n), t)
            | Some pe \<Rightarrow>
                if \<not> pe_has_id i pe
                then (Inl (IdNotFound (name_id_to_string x (name_id_from_u128 i))), t)
                else
                  (case sub_state_remove \<lparr>key_conn = c, key_sub = sid, key_encoded = enc\<rparr> (sub_state t) of
                     None \<Rightarrow> (Inl (SubscriptionIdNotFound sid), t)
                   | Some (_, ss) \<Rightarrow>
                       if \<not> conn_still_subscribed c enc ss
                       then (case unroute (enc_prefix enc) i c category (routing t) of
                               (was_last, rs) \<Rightarrow> (Inr was_last, t\<lparr>routing := rs, sub_state := ss\<rparr>))
                       else (Inr False, t\<lparr>sub_state := ss\<rparr>))))"

text \<open>The name of a record: from the strings of its prefix, or else the encoded name alone.\<close>

definition record_name :: "externs \<Rightarrow> (prefix, prefix_entry) hmap \<Rightarrow> encoded_name \<Rightarrow> proto_name" where
  "record_name x rs enc =
     (case hget rs (enc_prefix enc) of
        Some pe \<Rightarrow> to_proto_name x (encoded_name_id enc) pe
      | None \<Rightarrow> \<lparr>enc_name = Some enc, str_name = None\<rparr>)"

text \<open>Pass 1 of \<open>remove_connection\<close>: the records removed, the result map, the affected names.\<close>

fun remove_connection_pass1 ::
  "externs \<Rightarrow> (prefix, prefix_entry) hmap \<Rightarrow> sub_key list \<Rightarrow>
   (sub_key, sub_record) hmap \<times> (proto_name, sub_id list) hmap \<times> encoded_name list \<Rightarrow>
   (sub_key, sub_record) hmap \<times> (proto_name, sub_id list) hmap \<times> encoded_name list" where
  "remove_connection_pass1 x rs [] st = st"
| "remove_connection_pass1 x rs (key # keys) (subs, res, encs) =
     remove_connection_pass1 x rs keys
       (case hget subs key of
          None \<Rightarrow> (subs, res, encs)
        | Some r \<Rightarrow>
            let n = record_name x rs (rec_encoded r) in
            (hdel key subs,
             hput n (List.insert (key_sub key) (case hget res n of Some s \<Rightarrow> s | None \<Rightarrow> [])) res,
             push_new (rec_encoded r) encs))"

definition remove_connection ::
  "externs \<Rightarrow> conn_id \<Rightarrow> conn_type \<Rightarrow> sub_table \<Rightarrow>
   (datapath_error + (proto_name, sub_id list) hmap) \<times> sub_table" where
  "remove_connection x c category t =
     (case hget (conn_subs (sub_state t)) c of
        None \<Rightarrow> (Inl (ConnectionIdNotFound c), t)
      | Some keys \<Rightarrow>
          (case remove_connection_pass1 x (routing t) keys (subscriptions (sub_state t), [], []) of
             (subs, res, encs) \<Rightarrow>
               (Inr res,
                t\<lparr>routing := fold (\<lambda>e rs. snd (unroute (enc_prefix e) (encoded_name_id e) c category rs))
                              encs (routing t),
                  sub_state := \<lparr>subscriptions = subs, conn_subs = hdel c (conn_subs (sub_state t))\<rparr>\<rparr>)))"

definition remove_routes_to :: "conn_id \<Rightarrow> sub_table \<Rightarrow> sub_table" where
  "remove_routes_to c t =
     (if \<not> list_ex (has_conn c) (hvalues (routing t)) then t
      else
        t\<lparr>routing :=
           List.map_filter (\<lambda>(p, pe).
             if \<not> has_conn c pe then Some (p, pe)
             else let pe' = retain_non_empty (remove_conn c pe) in
                  if prefix_entry_is_empty pe' then None else Some (p, pe')) (routing t)\<rparr>)"

section \<open>Matching and iteration\<close>

definition no_match :: "externs \<Rightarrow> encoded_name \<Rightarrow> datapath_error" where
  "no_match x e = NoMatchEncoded (component_0 e) (component_1 e) (component_2 e) (encoded_name_string_id x e)"

definition match_one ::
  "externs \<Rightarrow> encoded_name \<Rightarrow> conn_id \<Rightarrow> match_filter \<Rightarrow> sub_table \<Rightarrow> (datapath_error + conn_id) \<times> sub_table" where
  "match_one x e incoming f t =
     (case hget (routing t) (enc_prefix e) of
        None \<Rightarrow> (Inl (no_match x e), t)
      | Some pe \<Rightarrow>
          (case (if encoded_name_id e \<noteq> NULL_COMPONENT
                 then get_one (encoded_name_id e) incoming f pe
                 else pick_one_any incoming f pe) of
             (r, pe') \<Rightarrow>
               (case r of Some c \<Rightarrow> Inr c | None \<Rightarrow> Inl (no_match x e),
                t\<lparr>routing := hput (enc_prefix e) pe' (routing t)\<rparr>)))"

definition match_all ::
  "externs \<Rightarrow> encoded_name \<Rightarrow> conn_id \<Rightarrow> match_filter \<Rightarrow> sub_table \<Rightarrow> datapath_error + conn_id list" where
  "match_all x e incoming f t =
     (case hget (routing t) (enc_prefix e) of
        None \<Rightarrow> Inl (no_match x e)
      | Some pe \<Rightarrow>
          if encoded_name_id e \<noteq> NULL_COMPONENT then
            (case get_all (encoded_name_id e) incoming f pe of
               None \<Rightarrow> Inl (no_match x e)
             | Some out \<Rightarrow> if out = [] then Inl (no_match x e) else Inr out)
          else
            let out = get_all_any incoming f pe in
            if out = [] then Inl (no_match x e) else Inr out)"

text \<open>The calls made by \<open>for_each\<close> and \<open>for_each_subscription\<close>.\<close>

definition table_for_each ::
  "externs \<Rightarrow> sub_table \<Rightarrow>
   (proto_name \<times> u128 \<times> conn_id list \<times> conn_id list \<times> conn_id list \<times> conn_id list) list" where
  "table_for_each x t =
     concat (map (\<lambda>pe. case pe_strings pe of (s0, s1, s2) \<Rightarrow>
                         map (\<lambda>row. (from_strings x s0 s1 s2, row)) (for_each_slot pe))
               (hvalues (routing t)))"

definition for_each_subscription ::
  "externs \<Rightarrow> sub_table \<Rightarrow> (proto_name \<times> sub_id \<times> conn_id \<times> conn_type) list" where
  "for_each_subscription x t =
     map (\<lambda>(k, r). (record_name x (routing t) (rec_encoded r), key_sub k, rec_conn r, rec_category r))
       (subscriptions (sub_state t))"

end
