(* ===== verification/Subscription_Routes.thy ===== *)
theory Subscription_Routes
  imports Subscription_Table
begin

text \<open>
  The invariant of the subscription table and what each write does to it, read through two
  abstractions: the set of routes of a routing snapshot, and the set of subscription keys of
  the bookkeeping.
\<close>

section \<open>Routes of a snapshot\<close>

definition entry_ok :: "prefix_entry \<Rightarrow> bool" where
  "entry_ok pe \<longleftrightarrow> pe_wf pe \<and> ids pe \<noteq> [] \<and> (\<forall>i f. pe_map pe i = Some f \<longrightarrow> (\<exists>ct. f ct \<noteq> []))"

definition routing_wf :: "(prefix, prefix_entry) hmap \<Rightarrow> bool" where
  "routing_wf rs \<longleftrightarrow> hmap_wf rs \<and> (\<forall>p pe. hget rs p = Some pe \<longrightarrow> entry_ok pe)"

definition entry_routes :: "prefix_entry \<Rightarrow> (u128 \<times> conn_type \<times> conn_id) set" where
  "entry_routes pe = {(i, ct, c). c \<in> set (conns_of pe i ct)}"

definition routes :: "(prefix, prefix_entry) hmap \<Rightarrow> (prefix \<times> u128 \<times> conn_type \<times> conn_id) set" where
  "routes rs = {(p, r). \<exists>pe. hget rs p = Some pe \<and> r \<in> entry_routes pe}"

lemma routes_empty [simp]: "routes [] = {}" and routing_wf_empty [simp]: "routing_wf []"
  by (simp_all add: routes_def routing_wf_def)

lemma routing_wfD:
  "routing_wf rs \<Longrightarrow> hget rs p = Some pe \<Longrightarrow> entry_ok pe"
  "routing_wf rs \<Longrightarrow> hmap_wf rs"
  unfolding routing_wf_def by blast+

lemma routing_wf_hput [intro]: "routing_wf rs \<Longrightarrow> entry_ok pe \<Longrightarrow> routing_wf (hput p pe rs)"
  by (auto simp: routing_wf_def)

lemma routing_wf_hdel [intro]: "routing_wf rs \<Longrightarrow> routing_wf (hdel p rs)"
  by (auto simp: routing_wf_def)

lemma routes_hput: "routes (hput p pe rs) = {(q, r) \<in> routes rs. q \<noteq> p} \<union> {p} \<times> entry_routes pe"
  by (auto simp: routes_def split: if_splits)

lemma routes_hdel: "routes (hdel p rs) = {(q, r) \<in> routes rs. q \<noteq> p}"
  by (auto simp: routes_def split: if_splits)

lemma routes_at: "hget rs p = Some pe \<Longrightarrow> (p, r) \<in> routes rs \<longleftrightarrow> r \<in> entry_routes pe"
  by (auto simp: routes_def)

text \<open>A stored id always has a route, so the tests of \<open>remove_subscription\<close> are about routes.\<close>

lemma has_id_iff:
  assumes "entry_ok pe"
  shows "pe_has_id i pe \<longleftrightarrow> (\<exists>ct c. (i, ct, c) \<in> entry_routes pe)"
proof
  assume "pe_has_id i pe"
  then obtain f where f: "pe_map pe i = Some f"
    using pe_map_None_iff [of pe i] by (auto simp: pe_has_id_def)
  then obtain ct where "f ct \<noteq> []" using assms by (auto simp: entry_ok_def)
  then show "\<exists>ct c. (i, ct, c) \<in> entry_routes pe"
    using f by (auto simp: entry_routes_def conns_of_def intro!: exI [of _ ct] exI [of _ "hd (f ct)"])
next
  assume "\<exists>ct c. (i, ct, c) \<in> entry_routes pe"
  then show "pe_has_id i pe"
    using pe_map_None_iff [of pe i] by (auto simp: entry_routes_def pe_has_id_def conns_of_def)
qed

lemma entry_nonempty:
  assumes "entry_ok pe"
  shows "\<exists>r. r \<in> entry_routes pe"
proof -
  have "pe_has_id (hd (ids pe)) pe" using assms by (simp add: entry_ok_def pe_has_id_def)
  then show ?thesis using has_id_iff [OF assms] by blast
qed

section \<open>Entries under the writes\<close>

lemma insert_conn_entry:
  assumes "pe_wf pe" "\<forall>i f. pe_map pe i = Some f \<longrightarrow> (\<exists>ct. f ct \<noteq> [])"
  shows "entry_ok (snd (insert_conn_for_id i c ct pe))"
    and "entry_routes (snd (insert_conn_for_id i c ct pe)) = insert (i, ct, c) (entry_routes pe)"
proof -
  let ?pe = "snd (insert_conn_for_id i c ct pe)"
  have m: "pe_map ?pe = (pe_map pe)(i \<mapsto> (conns_of pe i)(ct := push_new c (conns_of pe i ct)))"
    by (rule insert_conn_for_id_correct(2) [OF assms(1)])
  have ne: "push_new c (conns_of pe i ct) \<noteq> []" by (auto simp: push_new_def)
  have "i \<in> set (ids ?pe)" using dom_pe_map [of ?pe] m by auto
  then show "entry_ok ?pe"
    using insert_conn_for_id_correct(1) [OF assms(1)] assms(2) m ne
    by (auto simp: entry_ok_def)
  have "conns_of ?pe j t = (if j = i \<and> t = ct then push_new c (conns_of pe i ct) else conns_of pe j t)" for j t
    using m by (simp add: conns_of_def)
  then show "entry_routes ?pe = insert (i, ct, c) (entry_routes pe)"
    by (auto simp: entry_routes_def vec_simps split: if_splits)
qed

lemma retain_entry:
  assumes "pe_wf pe"
  shows "\<not> prefix_entry_is_empty (retain_non_empty pe) \<Longrightarrow> entry_ok (retain_non_empty pe)"
    and "entry_routes (retain_non_empty pe) = entry_routes pe"
    and "prefix_entry_is_empty (retain_non_empty pe) \<longleftrightarrow> entry_routes pe = {}"
proof -
  note wf = retain_non_empty_correct(1) [OF assms] and m = retain_non_empty_correct(2) [OF assms]
  show ok: "entry_ok (retain_non_empty pe)" if "\<not> prefix_entry_is_empty (retain_non_empty pe)"
    using that wf by (auto simp: entry_ok_def prefix_entry_is_empty_def m drop_empty_Some_iff)
  show r: "entry_routes (retain_non_empty pe) = entry_routes pe"
    by (auto simp: entry_routes_def conns_of_mem_iff m drop_empty_Some_iff) (metis empty_iff list.set(1))
  have "entry_routes (retain_non_empty pe) = {}" if "prefix_entry_is_empty (retain_non_empty pe)"
    using that pe_map_None_iff [of "retain_non_empty pe"]
    by (auto simp: prefix_entry_is_empty_def entry_routes_def conns_of_def)
  then show "prefix_entry_is_empty (retain_non_empty pe) \<longleftrightarrow> entry_routes pe = {}"
    using ok entry_nonempty [of "retain_non_empty pe"] r by blast
qed

lemma remove_conn_for_id_entry:
  assumes "pe_wf pe"
  shows "entry_routes (snd (remove_conn_for_id i c ct pe)) = entry_routes pe - {(i, ct, c)}"
proof -
  have "conns_of (snd (remove_conn_for_id i c ct pe)) j t =
    (if j = i \<and> t = ct then remove_elem c (conns_of pe i ct) else conns_of pe j t)" for j t
    using remove_elem_absent [of c "[]"]
    by (auto simp: conns_of_def remove_conn_for_id_correct(2) [OF assms] split: option.splits)
  moreover have "distinct (conns_of pe i ct)"
    using pe_map_distinct [OF assms] by (auto simp: conns_of_def split: option.splits)
  ultimately show ?thesis by (auto simp: entry_routes_def vec_simps split: if_splits)
qed

lemma remove_conn_entry:
  assumes "pe_wf pe"
  shows "entry_routes (remove_conn c pe) = {(i, ct, d) \<in> entry_routes pe. d \<noteq> c}"
proof -
  have "distinct (f t)" if "pe_map pe j = Some f" for j f t
    using pe_map_distinct [OF assms that] .
  then show ?thesis
    by (auto simp: entry_routes_def conns_of_mem_iff remove_conn_correct(2) [OF assms] vec_simps)
qed

lemma same_but_cursors_entry:
  assumes "same_but_cursors pe pe'" "entry_ok pe"
  shows "entry_ok pe'" "entry_routes pe' = entry_routes pe"
  using assms same_but_cursors_map [OF assms(1)] same_but_cursors_wf [OF assms(1)]
  by (auto simp: entry_ok_def entry_routes_def conns_of_def same_but_cursors_def)

section \<open>Snapshots under the writes\<close>

text \<open>Storing a changed entry, or dropping it when it has no route left.\<close>

definition store_entry :: "prefix \<Rightarrow> prefix_entry \<Rightarrow> (prefix, prefix_entry) hmap \<Rightarrow> (prefix, prefix_entry) hmap" where
  "store_entry p pe rs = (if prefix_entry_is_empty pe then hdel p rs else hput p pe rs)"

lemma store_entry_correct:
  assumes "routing_wf rs" "pe_wf pe"
  shows "routing_wf (store_entry p (retain_non_empty pe) rs)"
    and "routes (store_entry p (retain_non_empty pe) rs) = {(q, r) \<in> routes rs. q \<noteq> p} \<union> {p} \<times> entry_routes pe"
  using assms(1) retain_entry [OF assms(2)]
  by (simp_all add: store_entry_def routing_wf_hput routing_wf_hdel routes_hput routes_hdel)

lemma unroute_Some:
  assumes "hget rs p = Some pe"
  shows "unroute p i c ct rs = (fst (remove_conn_for_id i c ct pe),
    store_entry p (retain_non_empty (snd (remove_conn_for_id i c ct pe))) rs)"
  using assms by (simp add: unroute_def store_entry_def split_beta Let_def)

lemma routes_split:
  assumes "hget rs p = Some pe"
  shows "routes rs = {(q, r) \<in> routes rs. q \<noteq> p} \<union> {p} \<times> entry_routes pe"
  using routes_at [OF assms] by blast

lemma unroute_correct:
  assumes wf: "routing_wf rs"
  shows "routing_wf (snd (unroute p i c ct rs))"
    and "routes (snd (unroute p i c ct rs)) = routes rs - {(p, i, ct, c)}"
proof -
  have "routing_wf (snd (unroute p i c ct rs)) \<and>
    routes (snd (unroute p i c ct rs)) = routes rs - {(p, i, ct, c)}"
  proof (cases "hget rs p")
    case None
    then have "(p, r) \<notin> routes rs" for r by (simp add: routes_def)
    then show ?thesis using wf None by (simp add: unroute_def)
  next
    case (Some pe)
    then have pwf: "pe_wf pe" using routing_wfD(1) [OF wf] by (auto simp: entry_ok_def)
    have "routes rs - {(p, i, ct, c)} =
      {(q, r) \<in> routes rs. q \<noteq> p} \<union> {p} \<times> (entry_routes pe - {(i, ct, c)})"
      by (subst routes_split [OF Some]) blast
    then show ?thesis
      using store_entry_correct [OF wf remove_conn_for_id_correct(1) [OF pwf]]
      by (simp only: unroute_Some [OF Some] snd_conv remove_conn_for_id_entry [OF pwf])
  qed
  then show "routing_wf (snd (unroute p i c ct rs))"
    and "routes (snd (unroute p i c ct rs)) = routes rs - {(p, i, ct, c)}"
    by blast+
qed

lemma unroute_last:
  assumes wf: "routing_wf rs" and r: "(p, i, ct, c) \<in> routes rs"
  shows "fst (unroute p i c ct rs) \<longleftrightarrow> (\<forall>d. (p, i, ct, d) \<in> routes rs \<longrightarrow> d = c)"
proof -
  obtain pe where pe: "hget rs p = Some pe" using r by (auto simp: routes_def)
  then have pwf: "pe_wf pe" using routing_wfD(1) [OF wf] by (auto simp: entry_ok_def)
  obtain f where f: "pe_map pe i = Some f"
    using r by (auto simp: routes_at [OF pe] entry_routes_def conns_of_mem_iff)
  have "set (remove_elem c (f ct)) = set (f ct) - {c}"
    using pe_map_distinct [OF pwf f] by (rule set_remove_elem)
  then have "remove_elem c (f ct) = [] \<longleftrightarrow> set (f ct) \<subseteq> {c}" by (metis Diff_eq_empty_iff set_empty)
  then show ?thesis
    using remove_conn_for_id_correct(3) [OF pwf, of i c ct] f
    by (auto simp: unroute_Some [OF pe] routes_at [OF pe] entry_routes_def conns_of_def)
qed

text \<open>\<open>remove_routes_to\<close> takes a connection out of every route and touches nothing else.\<close>

lemma hget_map_filter_values:
  assumes "hmap_wf m"
  shows "hget (List.map_filter (\<lambda>(k, v). map_option (Pair k) (g k v)) m) k = Option.bind (hget m k) (g k)"
  using assms
proof (induction m)
  case (Cons a m)
  obtain k' v where a: "a = (k', v)" by (cases a)
  with Cons have IH: "hget (List.map_filter (\<lambda>(k, v). map_option (Pair k) (g k v)) m) k = Option.bind (hget m k) (g k)"
    and "k' \<notin> set (hkeys m)" by auto
  then have "hget m k' = None" by (simp add: map_of_eq_None_iff)
  with IH show ?case by (cases "g k' v") (auto simp: a List.map_filter_def)
qed (simp add: List.map_filter_def)

lemma hmap_wf_map_filter:
  assumes "hmap_wf m"
  shows "hmap_wf (List.map_filter (\<lambda>(k, v). map_option (Pair k) (g k v)) m)"
  using assms
proof (induction m)
  case (Cons a m)
  have "set (hkeys (List.map_filter (\<lambda>(k, v). map_option (Pair k) (g k v)) l)) \<subseteq> set (hkeys l)" for l
    by (force simp: List.map_filter_def)
  moreover have "List.map_filter (\<lambda>(k, v). map_option (Pair k) (g k v)) (a # m) =
    (case g (fst a) (snd a) of None \<Rightarrow> [] | Some v \<Rightarrow> [(fst a, v)]) @
    List.map_filter (\<lambda>(k, v). map_option (Pair k) (g k v)) m"
    by (simp add: List.map_filter_def split_beta split: option.splits)
  ultimately show ?case using Cons by (auto split: option.splits)
qed (simp add: List.map_filter_def)

definition cut_conn :: "conn_id \<Rightarrow> prefix_entry \<Rightarrow> prefix_entry option" where
  "cut_conn c pe =
     (if \<not> has_conn c pe then Some pe
      else let pe' = retain_non_empty (remove_conn c pe) in if prefix_entry_is_empty pe' then None else Some pe')"

lemma cut_conn_correct:
  assumes "entry_ok pe"
  shows "case cut_conn c pe of
      None \<Rightarrow> {(i, ct, d) \<in> entry_routes pe. d \<noteq> c} = {}
    | Some pe' \<Rightarrow> entry_ok pe' \<and> entry_routes pe' = {(i, ct, d) \<in> entry_routes pe. d \<noteq> c}"
proof -
  have wf: "pe_wf pe" using assms by (simp add: entry_ok_def)
  have h: "has_conn c pe \<longleftrightarrow> (\<exists>i ct. (i, ct, c) \<in> entry_routes pe)"
    by (auto simp: has_conn_iff [OF wf] entry_routes_def conns_of_mem_iff)
  note r = retain_entry [OF remove_conn_correct(1) [OF wf, of c]]
  show ?thesis
  proof (cases "has_conn c pe")
    case True
    then show ?thesis
      using r remove_conn_entry [OF wf, of c] by (auto simp: cut_conn_def Let_def)
  next
    case False
    then have "entry_routes pe = {(i, ct, d) \<in> entry_routes pe. d \<noteq> c}" using h by auto
    then show ?thesis using assms False by (simp add: cut_conn_def)
  qed
qed

lemma remove_routes_to_correct:
  assumes wf: "routing_wf (routing t)"
  shows "routing_wf (routing (remove_routes_to c t))"
    and "routes (routing (remove_routes_to c t)) = {(p, i, ct, d) \<in> routes (routing t). d \<noteq> c}"
    and "sub_state (remove_routes_to c t) = sub_state t"
proof -
  let ?rs = "List.map_filter (\<lambda>(p, pe). map_option (Pair p) (cut_conn c pe)) (routing t)"
  have fun_eq: "(\<lambda>(p, pe). if \<not> has_conn c pe then Some (p, pe)
      else let pe' = retain_non_empty (remove_conn c pe) in
           if prefix_entry_is_empty pe' then None else Some (p, pe'))
    = (\<lambda>(p, pe). map_option (Pair p) (cut_conn c pe))"
    by (simp add: fun_eq_iff cut_conn_def Let_def)
  have get: "hget ?rs p = Option.bind (hget (routing t) p) (cut_conn c)" for p
    using hget_map_filter_values [OF routing_wfD(2) [OF wf], of "\<lambda>_. cut_conn c"] by simp
  have wf': "routing_wf ?rs"
    unfolding routing_wf_def
  proof (intro conjI allI impI)
    show "hmap_wf ?rs" by (rule hmap_wf_map_filter [OF routing_wfD(2) [OF wf]])
    show "entry_ok pe" if get_pe: "hget ?rs p = Some pe" for p pe
    proof -
      obtain pe0 where "hget (routing t) p = Some pe0" "cut_conn c pe0 = Some pe"
        using get_pe unfolding get bind_eq_Some_conv by blast
      then show ?thesis using routing_wfD(1) [OF wf] cut_conn_correct [of pe0 c] by auto
    qed
  qed
  have rt: "routes ?rs = {(p, i, ct, d) \<in> routes (routing t). d \<noteq> c}"
  proof -
    have "(p, i, ct, d) \<in> routes ?rs \<longleftrightarrow> (p, i, ct, d) \<in> routes (routing t) \<and> d \<noteq> c" for p i ct d
      using routing_wfD(1) [OF wf, of p] cut_conn_correct [where c = c]
      by (cases "hget (routing t) p") (fastforce simp: routes_def get split: option.splits)+
    then show ?thesis by auto
  qed
  have same: "routes (routing t) = {(p, i, ct, d) \<in> routes (routing t). d \<noteq> c}"
    if "\<not> list_ex (has_conn c) (hvalues (routing t))"
  proof -
    have "(i, ct, c) \<notin> entry_routes pe" if "hget (routing t) p = Some pe" for p pe i ct
    proof -
      have "\<not> has_conn c pe"
        using \<open>\<not> list_ex (has_conn c) (hvalues (routing t))\<close> map_of_SomeD [OF that]
        by (force simp: list_ex_iff)
      then show ?thesis
        using routing_wfD(1) [OF wf that]
        by (auto simp: has_conn_iff entry_ok_def entry_routes_def conns_of_mem_iff)
    qed
    then show ?thesis by (auto simp: routes_def)
  qed
  show "routing_wf (routing (remove_routes_to c t))" "sub_state (remove_routes_to c t) = sub_state t"
    using wf wf' by (simp_all add: remove_routes_to_def fun_eq)
  show "routes (routing (remove_routes_to c t)) = {(p, i, ct, d) \<in> routes (routing t). d \<noteq> c}"
    using rt same by (simp add: remove_routes_to_def fun_eq)
qed

end
