(* ===== verification/Subscription_Spec.thy ===== *)
theory Subscription_Spec
  imports Subscription_Routes
begin

text \<open>
  What the subscription table promises, over its abstract state: the set of subscription
  keys. The invariant ties the routes that messages are matched against to that set, for
  connections of a fixed type \<open>cat\<close>. The connections in \<open>D\<close> lost their routes to
  \<open>remove_routes_to\<close> while their records stay until they are dropped.
\<close>

section \<open>The bookkeeping as a set of keys\<close>

definition sub_keys :: "sub_state \<Rightarrow> sub_key set" where
  "sub_keys ss = set (hkeys (subscriptions ss))"

definition sub_state_ok :: "sub_state \<Rightarrow> bool" where
  "sub_state_ok ss \<longleftrightarrow>
     hmap_wf (subscriptions ss) \<and>
     (\<forall>k r. hget (subscriptions ss) k = Some r \<longrightarrow> rec_conn r = key_conn k \<and> rec_encoded r = key_encoded k) \<and>
     (\<forall>c. case hget (conn_subs ss) c of
            None \<Rightarrow> {k \<in> sub_keys ss. key_conn k = c} = {}
          | Some ks \<Rightarrow> ks \<noteq> [] \<and> distinct ks \<and> set ks = {k \<in> sub_keys ss. key_conn k = c})"

lemma conn_subs_set:
  assumes "sub_state_ok ss"
  shows "set (case hget (conn_subs ss) c of Some ks \<Rightarrow> ks | None \<Rightarrow> []) = {k \<in> sub_keys ss. key_conn k = c}"
    and "distinct (case hget (conn_subs ss) c of Some ks \<Rightarrow> ks | None \<Rightarrow> [])"
proof -
  have "case hget (conn_subs ss) c of
            None \<Rightarrow> {k \<in> sub_keys ss. key_conn k = c} = {}
          | Some ks \<Rightarrow> ks \<noteq> [] \<and> distinct ks \<and> set ks = {k \<in> sub_keys ss. key_conn k = c}"
    using assms by (simp add: sub_state_ok_def)
  then show "set (case hget (conn_subs ss) c of Some ks \<Rightarrow> ks | None \<Rightarrow> []) = {k \<in> sub_keys ss. key_conn k = c}"
    and "distinct (case hget (conn_subs ss) c of Some ks \<Rightarrow> ks | None \<Rightarrow> [])"
    by (cases "hget (conn_subs ss) c"; simp)+
qed

lemma sub_state_okI:
  assumes "hmap_wf (subscriptions ss)"
    and "\<And>k r. hget (subscriptions ss) k = Some r \<Longrightarrow> rec_conn r = key_conn k \<and> rec_encoded r = key_encoded k"
    and "\<And>c. hget (conn_subs ss) c \<noteq> Some []"
    and "\<And>c. distinct (case hget (conn_subs ss) c of Some ks \<Rightarrow> ks | None \<Rightarrow> [])"
    and "\<And>c. set (case hget (conn_subs ss) c of Some ks \<Rightarrow> ks | None \<Rightarrow> []) = {k \<in> sub_keys ss. key_conn k = c}"
  shows "sub_state_ok ss"
  unfolding sub_state_ok_def
proof (intro conjI allI)
  show "hmap_wf (subscriptions ss)" by (rule assms(1))
  show "hget (subscriptions ss) k = Some r \<longrightarrow> rec_conn r = key_conn k \<and> rec_encoded r = key_encoded k" for k r
    using assms(2) by blast
  show "case hget (conn_subs ss) c of
            None \<Rightarrow> {k \<in> sub_keys ss. key_conn k = c} = {}
          | Some ks \<Rightarrow> ks \<noteq> [] \<and> distinct ks \<and> set ks = {k \<in> sub_keys ss. key_conn k = c}" for c
    using assms(3) [of c] assms(4) [of c] assms(5) [of c] by (cases "hget (conn_subs ss) c") simp_all
qed

lemma sub_state_okD:
  assumes "sub_state_ok ss"
  shows "hmap_wf (subscriptions ss)"
    and "hget (subscriptions ss) k = Some r \<Longrightarrow> rec_conn r = key_conn k"
    and "hget (subscriptions ss) k = Some r \<Longrightarrow> rec_encoded r = key_encoded k"
    and "hget (conn_subs ss) c \<noteq> Some []"
proof -
  show "hmap_wf (subscriptions ss)" "hget (subscriptions ss) k = Some r \<Longrightarrow> rec_conn r = key_conn k"
    "hget (subscriptions ss) k = Some r \<Longrightarrow> rec_encoded r = key_encoded k"
    using assms unfolding sub_state_ok_def by blast+
  have "case hget (conn_subs ss) c of
            None \<Rightarrow> {k \<in> sub_keys ss. key_conn k = c} = {}
          | Some ks \<Rightarrow> ks \<noteq> [] \<and> distinct ks \<and> set ks = {k \<in> sub_keys ss. key_conn k = c}"
    using assms unfolding sub_state_ok_def by blast
  then show "hget (conn_subs ss) c \<noteq> Some []" by auto
qed

lemma sub_keys_iff: "k \<in> sub_keys ss \<longleftrightarrow> (\<exists>r. hget (subscriptions ss) k = Some r)"
  using hget_None_iff [of "subscriptions ss" k] by (auto simp: sub_keys_def)

lemma sub_state_add_correct:
  fixes r sid
  assumes ok: "sub_state_ok ss"
  defines "key \<equiv> \<lparr>key_conn = rec_conn r, key_sub = sid, key_encoded = rec_encoded r\<rparr>"
  shows "sub_state_ok (sub_state_add sid r ss)"
    and "sub_keys (sub_state_add sid r ss) = insert key (sub_keys ss)"
proof -
  show keys: "sub_keys (sub_state_add sid r ss) = insert key (sub_keys ss)"
    by (simp add: sub_state_add_def sub_keys_def key_def Let_def hkeys_hput [simplified])
  let ?old = "\<lambda>c. case hget (conn_subs ss) c of Some ks \<Rightarrow> ks | None \<Rightarrow> []"
  have new: "(case hget (conn_subs (sub_state_add sid r ss)) c of Some ks \<Rightarrow> ks | None \<Rightarrow> []) =
    (if c = rec_conn r then List.insert key (?old c) else ?old c)" for c
    by (simp add: sub_state_add_def key_def Let_def)
  show "sub_state_ok (sub_state_add sid r ss)"
  proof (rule sub_state_okI)
    show "hmap_wf (subscriptions (sub_state_add sid r ss))"
      using sub_state_okD(1) [OF ok] by (simp add: sub_state_add_def Let_def)
    show "rec_conn r' = key_conn k \<and> rec_encoded r' = key_encoded k"
      if "hget (subscriptions (sub_state_add sid r ss)) k = Some r'" for k r'
      using that sub_state_okD(2,3) [OF ok, of k r'] by (auto simp: sub_state_add_def Let_def split: if_splits)
    show "hget (conn_subs (sub_state_add sid r ss)) c \<noteq> Some []" for c
      using sub_state_okD(4) [OF ok, of c] by (auto simp: sub_state_add_def Let_def List.insert_def split: option.splits)
    show "distinct (case hget (conn_subs (sub_state_add sid r ss)) c of Some ks \<Rightarrow> ks | None \<Rightarrow> [])" for c
      unfolding new using conn_subs_set(2) [OF ok, of c] by (auto simp: distinct_insert)
    show "set (case hget (conn_subs (sub_state_add sid r ss)) c of Some ks \<Rightarrow> ks | None \<Rightarrow> []) =
      {k \<in> sub_keys (sub_state_add sid r ss). key_conn k = c}" for c
      unfolding new keys using conn_subs_set(1) [OF ok, of c] by (auto simp: key_def)
  qed
qed

lemma sub_state_remove_None: "sub_state_remove key ss = None \<longleftrightarrow> key \<notin> sub_keys ss"
  using sub_keys_iff [of key ss] by (auto simp: sub_state_remove_def split: option.splits)

lemma sub_state_remove_correct:
  assumes ok: "sub_state_ok ss" and rem: "sub_state_remove key ss = Some (r, ss')"
  shows "sub_state_ok ss'" and "sub_keys ss' = sub_keys ss - {key}"
    and "hget (subscriptions ss') = (hget (subscriptions ss))(key := None)"
proof -
  have subs: "subscriptions ss' = hdel key (subscriptions ss)"
    using rem by (auto simp: sub_state_remove_def split: option.splits)
  then show keys: "sub_keys ss' = sub_keys ss - {key}"
    and "hget (subscriptions ss') = (hget (subscriptions ss))(key := None)"
    by (simp_all add: sub_keys_def hkeys_hdel [simplified])
  let ?at = "\<lambda>ss c. case hget (conn_subs ss) c of Some ks \<Rightarrow> ks | None \<Rightarrow> []"
  have new: "?at ss' c = (if c = key_conn key then removeAll key (?at ss c) else ?at ss c)" for c
    using rem
    by (cases "hget (conn_subs ss) (key_conn key)"; cases "removeAll key (?at ss (key_conn key)) = []")
       (auto simp: sub_state_remove_def Let_def split: option.splits)
  show "sub_state_ok ss'"
  proof (rule sub_state_okI)
    show "hmap_wf (subscriptions ss')" using sub_state_okD(1) [OF ok] subs by simp
    show "rec_conn r' = key_conn k \<and> rec_encoded r' = key_encoded k"
      if "hget (subscriptions ss') k = Some r'" for k r'
      using that sub_state_okD(2,3) [OF ok, of k r'] by (auto simp: subs split: if_splits)
    show "hget (conn_subs ss') c \<noteq> Some []" for c
      using rem sub_state_okD(4) [OF ok, of c]
      by (auto simp: sub_state_remove_def Let_def split: option.splits if_splits)
    show "distinct (?at ss' c)" for c
      unfolding new using conn_subs_set(2) [OF ok, of c] by (auto simp: distinct_removeAll)
    show "set (?at ss' c) = {k \<in> sub_keys ss'. key_conn k = c}" for c
      unfolding new keys using conn_subs_set(1) [OF ok, of c] by auto
  qed
qed

lemma conn_still_subscribed_iff:
  assumes "sub_state_ok ss"
  shows "conn_still_subscribed c e ss \<longleftrightarrow> (\<exists>k\<in>sub_keys ss. key_conn k = c \<and> key_encoded k = e)"
  using conn_subs_set(1) [OF assms, of c]
  by (auto simp: conn_still_subscribed_def list_ex_iff split: option.splits)

section \<open>The invariant of the table\<close>

definition route_of :: "(conn_id \<Rightarrow> conn_type) \<Rightarrow> sub_key \<Rightarrow> prefix \<times> u128 \<times> conn_type \<times> conn_id" where
  "route_of cat k =
     (enc_prefix (key_encoded k), encoded_name_id (key_encoded k), cat (key_conn k), key_conn k)"

definition table_keys :: "sub_table \<Rightarrow> sub_key set" where
  "table_keys t = sub_keys (sub_state t)"

definition table_inv :: "(conn_id \<Rightarrow> conn_type) \<Rightarrow> conn_id set \<Rightarrow> sub_table \<Rightarrow> bool" where
  "table_inv cat D t \<longleftrightarrow>
     routing_wf (routing t) \<and> sub_state_ok (sub_state t) \<and>
     (\<forall>k\<in>table_keys t. canonical (key_encoded k)) \<and>
     routes (routing t) \<subseteq> route_of cat ` table_keys t \<and>
     (\<forall>k\<in>table_keys t. key_conn k \<notin> D \<longrightarrow> route_of cat k \<in> routes (routing t))"

lemma table_invD:
  assumes "table_inv cat D t"
  shows "routing_wf (routing t)" and "sub_state_ok (sub_state t)"
    and "k \<in> table_keys t \<Longrightarrow> canonical (key_encoded k)"
    and "x \<in> routes (routing t) \<Longrightarrow> x \<in> route_of cat ` table_keys t"
    and "k \<in> table_keys t \<Longrightarrow> key_conn k \<notin> D \<Longrightarrow> route_of cat k \<in> routes (routing t)"
  using assms unfolding table_inv_def by blast+

lemma route_of_inject:
  assumes "canonical (key_encoded a)" "canonical (key_encoded b)"
  shows "route_of cat a = route_of cat b \<longleftrightarrow> key_conn a = key_conn b \<and> key_encoded a = key_encoded b"
  using canonical_eqI [OF assms] by (auto simp: route_of_def)

lemma table_inv_default: "table_inv cat {} sub_table_default" "table_keys sub_table_default = {}"
  by (simp_all add: table_inv_def sub_table_default_def table_keys_def sub_keys_def sub_state_ok_def)

section \<open>The writes\<close>

text \<open>\<open>add_subscription\<close> adds one key, and reports whether its route is the first of its type.\<close>

lemma add_subscription_total:
  assumes "enc_name n = Some e" "str_name n \<noteq> None"
  shows "add_subscription n c ct sid t \<noteq> None"
  using assms by (auto simp: add_subscription_def str_components_def split: option.splits prod.splits)

lemma add_subscription_correct:
  assumes inv: "table_inv cat D t" and enc: "enc_name n = Some e" "canonical e"
    and add: "add_subscription n c (cat c) sid t = Some (first, t')"
  shows "table_inv cat D t'"
    and "table_keys t' = insert \<lparr>key_conn = c, key_sub = sid, key_encoded = e\<rparr> (table_keys t)"
    and "routes (routing t') = insert (enc_prefix e, encoded_name_id e, cat c, c) (routes (routing t))"
    and "first \<longleftrightarrow> (\<forall>d. (enc_prefix e, encoded_name_id e, cat c, d) \<notin> routes (routing t))"
proof -
  let ?p = "enc_prefix e" and ?i = "encoded_name_id e"
  let ?r = "\<lparr>rec_encoded = e, rec_conn = c, rec_category = cat c\<rparr>"
  obtain pe where pe: "(case hget (routing t) ?p of Some pe \<Rightarrow> Some pe
      | None \<Rightarrow> map_option prefix_entry_new (str_components n)) = Some pe"
    using add enc by (auto simp: add_subscription_def bind_eq_Some_conv)
  let ?pe = "snd (insert_conn_for_id ?i c (cat c) pe)"
  have t': "t' = t\<lparr>routing := hput ?p ?pe (routing t), sub_state := sub_state_add sid ?r (sub_state t)\<rparr>"
    and first: "first = fst (insert_conn_for_id ?i c (cat c) pe)"
    using add enc pe by (auto simp: add_subscription_def split_beta)
  note wf = table_invD(1) [OF inv] and ok = table_invD(2) [OF inv]
  have pe_ok: "pe_wf pe" "\<forall>i f. pe_map pe i = Some f \<longrightarrow> (\<exists>ct. f ct \<noteq> [])"
    and split: "routes (routing t) = {(q, r) \<in> routes (routing t). q \<noteq> ?p} \<union> {?p} \<times> entry_routes pe"
  proof -
    have "pe_wf pe \<and> (\<forall>i f. pe_map pe i = Some f \<longrightarrow> (\<exists>ct. f ct \<noteq> [])) \<and>
      routes (routing t) = {(q, r) \<in> routes (routing t). q \<noteq> ?p} \<union> {?p} \<times> entry_routes pe"
    proof (cases "hget (routing t) ?p")
      case None
      then have "(?p, r) \<notin> routes (routing t)" for r by (simp add: routes_def)
      moreover obtain ss where "pe = prefix_entry_new ss" using None pe by auto
      ultimately show ?thesis
        by (auto simp: prefix_entry_new_def pe_wf_def pe_map_def entry_routes_def conns_of_def)
    next
      case (Some pe0)
      then have "pe0 = pe" using pe by simp
      with Some show ?thesis
        using routing_wfD(1) [OF wf Some] routes_split [OF Some] by (simp add: entry_ok_def)
    qed
    then show "pe_wf pe" "\<forall>i f. pe_map pe i = Some f \<longrightarrow> (\<exists>ct. f ct \<noteq> [])"
      and "routes (routing t) = {(q, r) \<in> routes (routing t). q \<noteq> ?p} \<union> {?p} \<times> entry_routes pe" by blast+
  qed
  note ins = insert_conn_entry [OF pe_ok, of ?i c "cat c"]
  show routes': "routes (routing t') = insert (?p, ?i, cat c, c) (routes (routing t))"
    by (subst split, simp add: t' routes_hput ins(2))
  show keys': "table_keys t' = insert \<lparr>key_conn = c, key_sub = sid, key_encoded = e\<rparr> (table_keys t)"
    using sub_state_add_correct(2) [OF ok, of sid ?r] by (simp add: t' table_keys_def)
  have "conns_of pe ?i (cat c) = [] \<longleftrightarrow> (\<forall>d. (?i, cat c, d) \<notin> entry_routes pe)"
    by (simp add: entry_routes_def)
  then show "first \<longleftrightarrow> (\<forall>d. (?p, ?i, cat c, d) \<notin> routes (routing t))"
    using insert_conn_for_id_correct(3) [OF pe_ok(1), of ?i c "cat c"]
    by (subst split, simp add: first)
  have "routing_wf (routing t')" using wf ins(1) by (simp add: t' routing_wf_hput)
  moreover have "sub_state_ok (sub_state t')"
    using sub_state_add_correct(1) [OF ok, of sid ?r] by (simp add: t')
  ultimately show "table_inv cat D t'"
    using inv enc(2) unfolding table_inv_def keys' routes' by (auto simp: route_of_def)
qed

text \<open>
  Dropping a key keeps the invariant when its route is dropped exactly if no other key of the
  same connection has the same name.
\<close>

lemma table_inv_removeI:
  assumes inv: "table_inv cat D t" and wf: "routing_wf (routing t')" "sub_state_ok (sub_state t')"
    and key: "key \<in> table_keys t" and keys': "table_keys t' = table_keys t - {key}"
    and routes': "routes (routing t') =
      (if \<exists>k\<in>table_keys t'. key_conn k = key_conn key \<and> key_encoded k = key_encoded key
       then routes (routing t) else routes (routing t) - {route_of cat key})"
  shows "table_inv cat D t'"
  unfolding table_inv_def
proof (intro conjI ballI impI subsetI)
  show "routing_wf (routing t')" "sub_state_ok (sub_state t')" by (rule wf)+
  show "canonical (key_encoded k)" if "k \<in> table_keys t'" for k
    using that keys' table_invD(3) [OF inv] by blast
  have inj: "route_of cat k = route_of cat key \<longleftrightarrow> key_conn k = key_conn key \<and> key_encoded k = key_encoded key"
    if "k \<in> table_keys t" for k
    using route_of_inject table_invD(3) [OF inv] key that by blast
  show "r \<in> route_of cat ` table_keys t'" if r: "r \<in> routes (routing t')" for r
  proof -
    obtain k where k: "k \<in> table_keys t" "r = route_of cat k"
      using r routes' table_invD(4) [OF inv, of r] by (auto split: if_splits)
    show ?thesis
    proof (cases "k = key")
      case True
      then obtain k' where "k' \<in> table_keys t'" "key_conn k' = key_conn key" "key_encoded k' = key_encoded key"
        using r k routes' by (auto split: if_splits)
      then show ?thesis using k True inj [of k'] keys' by (intro image_eqI [of _ _ k']) auto
    qed (use k keys' in blast)
  qed
  show "route_of cat k \<in> routes (routing t')" if "k \<in> table_keys t'" "key_conn k \<notin> D" for k
    using that keys' routes' inj [of k] table_invD(5) [OF inv, of k] by auto
qed

text \<open>
  \<open>remove_subscription\<close> removes one key. It fails, changing nothing, on a key that is not
  there; on one that is there only when its connection lost its routes.
\<close>

lemma remove_subscription_correct:
  assumes inv: "table_inv cat D t" and enc: "enc_name n = Some e"
    and rem: "remove_subscription x n c (cat c) sid t = Some (res, t')"
  defines "key \<equiv> \<lparr>key_conn = c, key_sub = sid, key_encoded = e\<rparr>"
  shows "table_inv cat D t'"
    and "case res of
        Inl _ \<Rightarrow> t' = t \<and> (key \<notin> table_keys t \<or> c \<in> D)
      | Inr was_last \<Rightarrow> key \<in> table_keys t \<and> table_keys t' = table_keys t - {key} \<and>
          routes (routing t') = (if \<exists>k\<in>table_keys t'. key_conn k = c \<and> key_encoded k = e
            then routes (routing t) else routes (routing t) - {route_of cat key})"
proof -
  note wf = table_invD(1) [OF inv] and ok = table_invD(2) [OF inv]
  let ?p = "enc_prefix e" and ?i = "encoded_name_id e"
  let ?good = "table_inv cat D t' \<and> (case res of
        Inl _ \<Rightarrow> t' = t \<and> (key \<notin> table_keys t \<or> c \<in> D)
      | Inr was_last \<Rightarrow> key \<in> table_keys t \<and> table_keys t' = table_keys t - {key} \<and>
          routes (routing t') = (if \<exists>k\<in>table_keys t'. key_conn k = c \<and> key_encoded k = e
            then routes (routing t) else routes (routing t) - {route_of cat key}))"
  have route: "route_of cat key = (?p, ?i, cat c, c)" by (simp add: route_of_def key_def)
  have lost: "c \<in> D" if "key \<in> table_keys t" "(?p, ?i, cat c, c) \<notin> routes (routing t)"
    using table_invD(5) [OF inv that(1)] that(2) route by (auto simp: key_def)
  have ?good
  proof (cases "\<exists>pe. hget (routing t) ?p = Some pe \<and> pe_has_id ?i pe")
    case False
    then have "t' = t" "\<exists>err. res = Inl err" "(?p, ?i, cat c, c) \<notin> routes (routing t)"
      using rem enc has_id_iff routing_wfD(1) [OF wf]
      by (auto simp: remove_subscription_def Let_def routes_def split: option.splits)
    then show ?thesis using inv lost by auto
  next
    case True
    then obtain pe where pe: "hget (routing t) ?p = Some pe" "pe_has_id ?i pe" by blast
    show ?thesis
    proof (cases "sub_state_remove key (sub_state t)")
      case None
      then show ?thesis
        using rem enc pe inv sub_state_remove_None [of key "sub_state t"]
        by (auto simp: remove_subscription_def key_def table_keys_def)
    next
      case (Some rs)
      obtain rec ss where rs: "rs = (rec, ss)" by (cases rs)
      note del = sub_state_remove_correct [OF ok Some [unfolded rs]]
      have key: "key \<in> table_keys t"
        using Some sub_state_remove_None [of key "sub_state t"] by (auto simp: table_keys_def)
      have ss': "sub_state t' = ss" and ex: "\<exists>b. res = Inr b"
        and rt: "routing t' = (if conn_still_subscribed c e ss then routing t
          else snd (unroute ?p ?i c (cat c) (routing t)))"
        using rem enc pe Some
        by (auto simp: remove_subscription_def key_def rs split: if_splits prod.splits)
      have keys': "table_keys t' = table_keys t - {key}" using del(2) ss' by (simp add: table_keys_def)
      have still: "conn_still_subscribed c e ss \<longleftrightarrow> (\<exists>k\<in>table_keys t'. key_conn k = c \<and> key_encoded k = e)"
        using conn_still_subscribed_iff [OF del(1)] by (simp add: table_keys_def ss')
      have routes': "routes (routing t') = (if \<exists>k\<in>table_keys t'. key_conn k = c \<and> key_encoded k = e
            then routes (routing t) else routes (routing t) - {route_of cat key})"
        unfolding rt still route using unroute_correct(2) [OF wf, of ?p ?i c "cat c"]
        by auto
      have "table_inv cat D t'"
      proof (rule table_inv_removeI [OF inv _ _ key keys'])
        show "routing_wf (routing t')" using unroute_correct(1) [OF wf] wf rt by simp
        show "sub_state_ok (sub_state t')" using del(1) ss' by simp
      qed (simp only: routes' key_def sub_key.select_convs)
      with ex key keys' routes' show ?thesis by (elim exE) (simp only: sum.case simp_thms)
    qed
  qed
  then show "table_inv cat D t'"
    and "case res of
        Inl _ \<Rightarrow> t' = t \<and> (key \<notin> table_keys t \<or> c \<in> D)
      | Inr was_last \<Rightarrow> key \<in> table_keys t \<and> table_keys t' = table_keys t - {key} \<and>
          routes (routing t') = (if \<exists>k\<in>table_keys t'. key_conn k = c \<and> key_encoded k = e
            then routes (routing t) else routes (routing t) - {route_of cat key})"
    by blast+
qed

text \<open>
  The flag of a successful removal: the connection keeps no subscription to the name, and no
  other connection of its type is routed to for it.
\<close>

lemma remove_subscription_last:
  assumes inv: "table_inv cat D t" and enc: "enc_name n = Some e" and live: "c \<notin> D"
    and rem: "remove_subscription x n c (cat c) sid t = Some (Inr was_last, t')"
  shows "was_last \<longleftrightarrow>
    (\<forall>k\<in>table_keys t'. \<not> (key_conn k = c \<and> key_encoded k = e)) \<and>
    (\<forall>d. (enc_prefix e, encoded_name_id e, cat c, d) \<in> routes (routing t) \<longrightarrow> d = c)"
proof -
  let ?key = "\<lparr>key_conn = c, key_sub = sid, key_encoded = e\<rparr>"
  have key: "?key \<in> table_keys t"
    using remove_subscription_correct(2) [OF inv enc rem] by simp
  then have route: "(enc_prefix e, encoded_name_id e, cat c, c) \<in> routes (routing t)"
    using table_invD(5) [OF inv key] live by (simp add: route_of_def)
  obtain r ss where ss: "sub_state_remove ?key (sub_state t) = Some (r, ss)"
    using key sub_state_remove_None [of ?key "sub_state t"] by (force simp: table_keys_def)
  then have "sub_state t' = ss" and "was_last = (\<not> conn_still_subscribed c e ss \<and>
      fst (unroute (enc_prefix e) (encoded_name_id e) c (cat c) (routing t)))"
    using rem enc by (auto simp: remove_subscription_def Let_def split: if_splits prod.splits option.splits)
  moreover have "conn_still_subscribed c e ss \<longleftrightarrow> (\<exists>k\<in>sub_keys ss. key_conn k = c \<and> key_encoded k = e)"
    by (rule conn_still_subscribed_iff [OF sub_state_remove_correct(1) [OF table_invD(2) [OF inv] ss]])
  ultimately show ?thesis
    using unroute_last [OF table_invD(1) [OF inv] route] by (auto simp: table_keys_def)
qed

text \<open>
  \<open>remove_connection\<close>: pass 1 takes out the records of the connection's keys and collects,
  per name, their subscription ids, and the encoded names to unroute.
\<close>

definition encs_of :: "(sub_key, sub_record) hmap \<Rightarrow> sub_key set \<Rightarrow> encoded_name set" where
  "encs_of subs K = {rec_encoded r | k r. k \<in> K \<and> hget subs k = Some r}"

lemma encs_of_insert:
  "encs_of subs (insert key K) =
     (case hget subs key of None \<Rightarrow> encs_of subs K | Some r \<Rightarrow> insert (rec_encoded r) (encs_of (hdel key subs) K))"
  by (auto simp: encs_of_def split: option.splits if_splits) (metis option.inject)

lemma pass1_subs:
  assumes "remove_connection_pass1 x rs keys (subs, res, encs) = (subs', res', encs')"
  shows "hget subs' = (\<lambda>k. if k \<in> set keys then None else hget subs k) \<and>
    (hmap_wf subs \<longrightarrow> hmap_wf subs') \<and> set encs' = set encs \<union> encs_of subs (set keys)"
  using assms
proof (induction keys arbitrary: subs res encs)
  case Nil
  then show ?case by (simp add: encs_of_def)
next
  case (Cons key keys)
  show ?case
  proof (cases "hget subs key")
    case None
    then show ?thesis
      using Cons.IH [of subs res encs] Cons.prems by (auto simp: encs_of_insert fun_eq_iff)
  next
    case (Some r)
    then show ?thesis
      using Cons.IH [of "hdel key subs" _ "push_new (rec_encoded r) encs"] Cons.prems
      by (simp add: encs_of_insert fun_eq_iff Let_def vec_simps)
  qed
qed

lemma fold_unroute:
  assumes "routing_wf rs"
  shows "routing_wf (fold (\<lambda>e rs. snd (unroute (enc_prefix e) (encoded_name_id e) c ct rs)) encs rs)"
    and "routes (fold (\<lambda>e rs. snd (unroute (enc_prefix e) (encoded_name_id e) c ct rs)) encs rs) =
      routes rs - {(enc_prefix e, encoded_name_id e, ct, c) | e. e \<in> set encs}"
  using assms
proof (induction encs arbitrary: rs)
  case (Cons e encs)
  {
    case 1
    then show ?case using Cons.IH(1) [OF unroute_correct(1)] by simp
  next
    case 2
    then show ?case using Cons.IH(2) [OF unroute_correct(1) [OF 2]] unroute_correct(2) [OF 2] by auto
  }
qed simp_all

lemma remove_connection_None:
  assumes inv: "table_inv cat D t" and get: "hget (conn_subs (sub_state t)) c = None"
  shows "remove_connection x c ct t = (Inl (ConnectionIdNotFound c), t)"
    and "k \<in> table_keys t \<Longrightarrow> key_conn k \<noteq> c"
    and "(p, i, ct, c) \<notin> routes (routing t)"
proof -
  show none: "key_conn k \<noteq> c" if "k \<in> table_keys t" for k
    using that get conn_subs_set(1) [OF table_invD(2) [OF inv], of c] by (auto simp: table_keys_def)
  show "(p, i, ct, c) \<notin> routes (routing t)"
    using table_invD(4) [OF inv, of "(p, i, ct, c)"] none by (auto simp: route_of_def)
qed (use get in \<open>simp add: remove_connection_def\<close>)

lemma remove_connection_Some:
  assumes inv: "table_inv cat D t" and get: "hget (conn_subs (sub_state t)) c = Some keys"
    and rem: "remove_connection x c (cat c) t = (res, t')"
  shows "routing_wf (routing t')" and "sub_state_ok (sub_state t')"
    and "table_keys t' = {k \<in> table_keys t. key_conn k \<noteq> c}"
    and "routes (routing t') = {(p, i, ct, d) \<in> routes (routing t). d \<noteq> c}"
    and "\<exists>m. res = Inr m" and "\<exists>k\<in>table_keys t. key_conn k = c"
proof -
  note wf = table_invD(1) [OF inv] and ok = table_invD(2) [OF inv]
  have keys: "set keys = {k \<in> table_keys t. key_conn k = c}" and ne: "keys \<noteq> []"
    using conn_subs_set(1) [OF ok, of c] sub_state_okD(4) [OF ok, of c] get by (auto simp: table_keys_def)
  obtain subs m encs where p1:
    "remove_connection_pass1 x (routing t) keys (subscriptions (sub_state t), [], []) = (subs, m, encs)"
    by (cases "remove_connection_pass1 x (routing t) keys (subscriptions (sub_state t), [], [])") auto
  have subs: "hget subs k = (if k \<in> table_keys t \<and> key_conn k = c then None else hget (subscriptions (sub_state t)) k)"
    and swf: "hmap_wf subs" for k
    using pass1_subs [OF p1] sub_state_okD(1) [OF ok] keys by auto
  have encs: "set encs = key_encoded ` set keys"
  proof -
    have "set encs = encs_of (subscriptions (sub_state t)) (set keys)" using pass1_subs [OF p1] by simp
    also have "\<dots> = key_encoded ` set keys"
    proof (intro set_eqI iffI)
      fix e assume "e \<in> key_encoded ` set keys"
      then obtain k where "k \<in> set keys" "e = key_encoded k" by blast
      moreover then obtain r where "hget (subscriptions (sub_state t)) k = Some r"
        using keys by (auto simp: table_keys_def sub_keys_iff)
      ultimately show "e \<in> encs_of (subscriptions (sub_state t)) (set keys)"
        using sub_state_okD(3) [OF ok] unfolding encs_of_def by force
    qed (auto simp: encs_of_def sub_state_okD(3) [OF ok])
    finally show ?thesis .
  qed
  let ?rs = "fold (\<lambda>e rs. snd (unroute (enc_prefix e) (encoded_name_id e) c (cat c) rs)) encs (routing t)"
  have t': "routing t' = ?rs"
      "sub_state t' = \<lparr>subscriptions = subs, conn_subs = hdel c (conn_subs (sub_state t))\<rparr>"
    and "res = Inr m"
    using rem get p1 by (auto simp: remove_connection_def)
  then show "\<exists>m. res = Inr m" by blast
  show "\<exists>k\<in>table_keys t. key_conn k = c" using keys ne by (auto simp: neq_Nil_conv)
  show keys': "table_keys t' = {k \<in> table_keys t. key_conn k \<noteq> c}"
    by (auto simp: table_keys_def t' sub_keys_iff subs split: if_splits)
  show "routing_wf (routing t')" using fold_unroute(1) [OF wf] by (simp add: t')
  have A: "{(enc_prefix e, encoded_name_id e, cat c, c) | e. e \<in> set encs} = route_of cat ` set keys"
    unfolding encs keys by (auto simp: route_of_def)
  have B: "r \<in> route_of cat ` set keys \<longleftrightarrow> snd (snd (snd r)) = c" if "r \<in> routes (routing t)" for r
    using table_invD(4) [OF inv that] unfolding keys by (auto simp: route_of_def)
  have "routes (routing t') = {r \<in> routes (routing t). snd (snd (snd r)) \<noteq> c}"
    unfolding t' fold_unroute(2) [OF wf] A using B by blast
  then show "routes (routing t') = {(p, i, ct, d) \<in> routes (routing t). d \<noteq> c}"
    by (simp add: split_def)
  show "sub_state_ok (sub_state t')"
  proof (rule sub_state_okI)
    show "hmap_wf (subscriptions (sub_state t'))" using swf by (simp add: t')
    show "rec_conn r = key_conn k \<and> rec_encoded r = key_encoded k"
      if "hget (subscriptions (sub_state t')) k = Some r" for k r
      using that sub_state_okD(2,3) [OF ok, of k r] by (simp add: t' subs split: if_splits)
    show "hget (conn_subs (sub_state t')) d \<noteq> Some []" for d
      using sub_state_okD(4) [OF ok, of d] by (simp add: t')
    show "distinct (case hget (conn_subs (sub_state t')) d of Some ks \<Rightarrow> ks | None \<Rightarrow> [])" for d
      using conn_subs_set(2) [OF ok, of d] by (simp add: t')
    show "set (case hget (conn_subs (sub_state t')) d of Some ks \<Rightarrow> ks | None \<Rightarrow> []) =
      {k \<in> sub_keys (sub_state t'). key_conn k = d}" for d
      unfolding keys' [unfolded table_keys_def] using conn_subs_set(1) [OF ok, of d] by (auto simp: t')
  qed
qed

lemma remove_connection_correct:
  assumes inv: "table_inv cat D t" and rem: "remove_connection x c (cat c) t = (res, t')"
  shows "table_inv cat (D - {c}) t'"
    and "table_keys t' = {k \<in> table_keys t. key_conn k \<noteq> c}"
    and "routes (routing t') = {(p, i, ct, d) \<in> routes (routing t). d \<noteq> c}"
    and "(\<exists>m. res = Inr m) \<longleftrightarrow> (\<exists>k\<in>table_keys t. key_conn k = c)"
proof -
  note wf = table_invD(1) [OF inv] and ok = table_invD(2) [OF inv]
  have all: "routing_wf (routing t') \<and> sub_state_ok (sub_state t') \<and>
    table_keys t' = {k \<in> table_keys t. key_conn k \<noteq> c} \<and>
    routes (routing t') = {(p, i, ct, d) \<in> routes (routing t). d \<noteq> c} \<and>
    ((\<exists>m. res = Inr m) \<longleftrightarrow> (\<exists>k\<in>table_keys t. key_conn k = c))"
  proof (cases "hget (conn_subs (sub_state t)) c")
    case None
    note none = remove_connection_None [OF inv None]
    have t': "t' = t" and res: "res = Inl (ConnectionIdNotFound c)"
      using rem unfolding none(1) [of x "cat c"] by simp_all
    have "snd (snd (snd r)) \<noteq> c" if "r \<in> routes (routing t)" for r
      using that none(3) [of "fst r" "fst (snd r)" "fst (snd (snd r))"] by (cases r) auto
    then have "{(p, i, ct, d) \<in> routes (routing t). d \<noteq> c} = routes (routing t)"
      unfolding split_def prod.collapse by blast
    moreover have "{k \<in> table_keys t. key_conn k \<noteq> c} = table_keys t" "\<not> (\<exists>k\<in>table_keys t. key_conn k = c)"
      using none(2) by blast+
    ultimately show ?thesis using wf ok by (simp only: t' res Inl_Inr_False simp_thms)
  next
    case (Some keys)
    from remove_connection_Some [OF inv this rem] show ?thesis by (intro conjI) (assumption | simp only: simp_thms)+
  qed
  from all show keys': "table_keys t' = {k \<in> table_keys t. key_conn k \<noteq> c}" by (elim conjE)
  from all show "routes (routing t') = {(p, i, ct, d) \<in> routes (routing t). d \<noteq> c}" by (elim conjE)
  from all show "(\<exists>m. res = Inr m) \<longleftrightarrow> (\<exists>k\<in>table_keys t. key_conn k = c)" by (elim conjE)
  have routes': "routes (routing t') = {r \<in> routes (routing t). snd (snd (snd r)) \<noteq> c}"
    using all by (simp only: split_def prod.collapse)
  show "table_inv cat (D - {c}) t'"
    unfolding table_inv_def
  proof (intro conjI ballI impI subsetI)
    from all show "routing_wf (routing t')" by (elim conjE)
    from all show "sub_state_ok (sub_state t')" by (elim conjE)
    show "canonical (key_encoded k)" if "k \<in> table_keys t'" for k
      using that table_invD(3) [OF inv, of k] keys' by blast
    show "r \<in> route_of cat ` table_keys t'" if "r \<in> routes (routing t')" for r
      using that table_invD(4) [OF inv, of r] unfolding keys' routes' by (auto simp: route_of_def)
    show "route_of cat k \<in> routes (routing t')" if "k \<in> table_keys t'" "key_conn k \<notin> D - {c}" for k
      using that table_invD(5) [OF inv, of k] unfolding keys' routes' by (simp add: route_of_def)
  qed
qed

text \<open>The reported map: per name, the subscription ids of the connection's keys for that name.\<close>

definition ids_at :: "(proto_name, sub_id list) hmap \<Rightarrow> proto_name \<Rightarrow> sub_id set" where
  "ids_at m n = set (case hget m n of Some s \<Rightarrow> s | None \<Rightarrow> [])"

definition subs_named ::
  "externs \<Rightarrow> (prefix, prefix_entry) hmap \<Rightarrow> (sub_key, sub_record) hmap \<Rightarrow> sub_key set \<Rightarrow> proto_name \<Rightarrow> sub_id set" where
  "subs_named x rs subs K n =
     {key_sub k | k r. k \<in> K \<and> hget subs k = Some r \<and> record_name x rs (rec_encoded r) = n}"

lemma subs_named_insert:
  "subs_named x rs subs (insert key K) n =
     (case hget subs key of
        None \<Rightarrow> subs_named x rs subs K n
      | Some r \<Rightarrow> (if record_name x rs (rec_encoded r) = n then {key_sub key} else {})
                  \<union> subs_named x rs (hdel key subs) K n)"
  by (auto simp: subs_named_def split: option.splits if_splits) (metis option.inject)+

lemma pass1_res:
  assumes "remove_connection_pass1 x rs keys (subs, res, encs) = (subs', res', encs')"
  shows "ids_at res' n = ids_at res n \<union> subs_named x rs subs (set keys) n"
  using assms
proof (induction keys arbitrary: subs res encs)
  case Nil
  then show ?case by (simp add: subs_named_def)
next
  case (Cons key keys)
  show ?case
  proof (cases "hget subs key")
    case None
    then show ?thesis using Cons.IH [of subs res encs] Cons.prems by (simp add: subs_named_insert)
  next
    case (Some r)
    let ?n = "record_name x rs (rec_encoded r)"
    let ?res = "hput ?n (List.insert (key_sub key) (case hget res ?n of Some s \<Rightarrow> s | None \<Rightarrow> [])) res"
    have "ids_at ?res n = ids_at res n \<union> (if ?n = n then {key_sub key} else {})"
      by (auto simp: ids_at_def)
    then show ?thesis
      using Some Cons.IH [of "hdel key subs" ?res "push_new (rec_encoded r) encs"] Cons.prems
      by (simp add: subs_named_insert Let_def Un_assoc)
  qed
qed

lemma remove_connection_report:
  assumes inv: "table_inv cat D t" and rem: "remove_connection x c ct t = (Inr m, t')"
  shows "ids_at m n =
    {key_sub k | k. k \<in> table_keys t \<and> key_conn k = c \<and> record_name x (routing t) (key_encoded k) = n}"
proof -
  note ok = table_invD(2) [OF inv]
  obtain keys where get: "hget (conn_subs (sub_state t)) c = Some keys"
    using rem by (auto simp: remove_connection_def split: option.splits)
  then have keys: "set keys = {k \<in> table_keys t. key_conn k = c}"
    using conn_subs_set(1) [OF ok, of c] by (simp add: table_keys_def)
  obtain subs encs where p1:
    "remove_connection_pass1 x (routing t) keys (subscriptions (sub_state t), [], []) = (subs, m, encs)"
    using rem get by (auto simp: remove_connection_def split: prod.splits)
  then have "ids_at m n = subs_named x (routing t) (subscriptions (sub_state t)) (set keys) n"
    using pass1_res [OF p1, of n] by (simp add: ids_at_def)
  also have "\<dots> = {key_sub k | k. k \<in> set keys \<and> record_name x (routing t) (key_encoded k) = n}"
  proof -
    have "(\<exists>r. hget (subscriptions (sub_state t)) k = Some r \<and> record_name x (routing t) (rec_encoded r) = n)
      \<longleftrightarrow> record_name x (routing t) (key_encoded k) = n" if "k \<in> set keys" for k
      using that keys sub_state_okD(3) [OF ok, of k] by (auto simp: table_keys_def sub_keys_iff)
    then show ?thesis unfolding subs_named_def by blast
  qed
  finally show ?thesis by (simp add: keys)
qed

text \<open>\<open>remove_routes_to\<close> keeps the keys; the connection is from then on without routes.\<close>

lemma remove_routes_to_inv:
  assumes "table_inv cat D t"
  shows "table_inv cat (insert c D) (remove_routes_to c t)" and "table_keys (remove_routes_to c t) = table_keys t"
proof -
  note r = remove_routes_to_correct [OF table_invD(1) [OF assms], of c]
  show keys: "table_keys (remove_routes_to c t) = table_keys t" by (simp add: table_keys_def r(3))
  have routes': "routes (routing (remove_routes_to c t)) = {r \<in> routes (routing t). snd (snd (snd r)) \<noteq> c}"
    using r(2) by (simp only: split_def prod.collapse)
  show "table_inv cat (insert c D) (remove_routes_to c t)"
    unfolding table_inv_def keys routes' r(3)
  proof (intro conjI ballI impI subsetI)
    show "routing_wf (routing (remove_routes_to c t))" by (rule r(1))
    show "sub_state_ok (sub_state t)" by (rule table_invD(2) [OF assms])
    show "canonical (key_encoded k)" if "k \<in> table_keys t" for k using table_invD(3) [OF assms that] .
    show "x \<in> route_of cat ` table_keys t" if "x \<in> {r \<in> routes (routing t). snd (snd (snd r)) \<noteq> c}" for x
      using that table_invD(4) [OF assms, of x] by simp
    show "route_of cat k \<in> {r \<in> routes (routing t). snd (snd (snd r)) \<noteq> c}"
      if "k \<in> table_keys t" "key_conn k \<notin> insert c D" for k
      using that table_invD(5) [OF assms, of k] by (simp add: route_of_def)
  qed
qed

end
