(* ===== verification/Subscription_Match.thy ===== *)
theory Subscription_Match
  imports Subscription_Spec
begin

text \<open>
  Matching against the subscription table: \<open>match_one\<close> and \<open>match_all\<close> return the connections
  the routes of a snapshot lead to, and, through the invariant, the connections subscribed.
\<close>

section \<open>Matching against routes\<close>

definition route_targets ::
  "(prefix, prefix_entry) hmap \<Rightarrow> encoded_name \<Rightarrow> conn_id \<Rightarrow> match_filter \<Rightarrow> conn_id set" where
  "route_targets rs e skip f =
     {c. c \<noteq> skip \<and> (\<exists>i ct. (enc_prefix e, i, ct, c) \<in> routes rs \<and> filter_includes f ct \<and>
           (encoded_name_id e = NULL_COMPONENT \<or> i = encoded_name_id e))}"

definition routed_conns :: "(prefix, prefix_entry) hmap \<Rightarrow> conn_id set" where
  "routed_conns rs = {c. \<exists>p i ct. (p, i, ct, c) \<in> routes rs}"

lemma finite_routed_conns: "finite (routed_conns rs)"
proof -
  have "c \<in> (\<Union>pe\<in>set (hvalues rs). \<Union>ct\<in>set conn_type_ALL. \<Union>i\<in>set (ids pe). set (conns_of pe i ct))"
    if c: "c \<in> routed_conns rs" for c
  proof -
    obtain p pe i ct where r: "hget rs p = Some pe" "c \<in> set (conns_of pe i ct)"
      using c by (auto simp: routed_conns_def routes_def entry_routes_def)
    then have "i \<in> set (ids pe)"
      using pe_map_None_iff [of pe i] by (auto simp: conns_of_def split: option.splits)
    moreover have "pe \<in> set (hvalues rs)" using map_of_SomeD [OF r(1)] by force
    moreover have "ct \<in> set conn_type_ALL" by simp
    ultimately show ?thesis using r(2) by blast
  qed
  then have "routed_conns rs \<subseteq>
    (\<Union>pe\<in>set (hvalues rs). \<Union>ct\<in>set conn_type_ALL. \<Union>i\<in>set (ids pe). set (conns_of pe i ct))" by blast
  then show ?thesis by (rule finite_subset) simp
qed

lemma route_targets_at:
  assumes "hget rs (enc_prefix e) = Some pe"
  shows "route_targets rs e skip f =
    (if encoded_name_id e = NULL_COMPONENT then targets_any pe skip f else targets pe (encoded_name_id e) skip f)"
  unfolding route_targets_def targets_any_def targets_def routes_at [OF assms] entry_routes_def by auto

lemma route_targets_none: "hget rs (enc_prefix e) = None \<Longrightarrow> route_targets rs e skip f = {}"
  by (auto simp: route_targets_def routes_def)

lemma match_all_routes:
  assumes wf: "routing_wf (routing t)"
  shows "case match_all x e skip f t of
      Inl err \<Rightarrow> err = no_match x e \<and> route_targets (routing t) e skip f = {}
    | Inr out \<Rightarrow> out \<noteq> [] \<and> set out = route_targets (routing t) e skip f"
proof (cases "hget (routing t) (enc_prefix e)")
  case None
  then show ?thesis by (simp add: match_all_def route_targets_none)
next
  case (Some pe)
  have pwf: "pe_wf pe" using routing_wfD(1) [OF wf Some] by (simp add: entry_ok_def)
  have "targets pe (encoded_name_id e) skip f = {}" if "get_all (encoded_name_id e) skip f pe = None"
    using that get_all_correct(1) [of "encoded_name_id e" skip f pe] by (simp add: targets_def conns_of_def)
  then show ?thesis
    using Some get_all_correct(2) [of "encoded_name_id e" skip f pe] get_all_any_correct [OF pwf, of skip f]
    by (auto simp: match_all_def route_targets_at [OF Some] Let_def split: option.splits)
qed

lemma match_one_routes:
  assumes wf: "routing_wf (routing t)"
  shows "case fst (match_one x e skip f t) of
      Inl err \<Rightarrow> err = no_match x e \<and> route_targets (routing t) e skip f = {}
    | Inr c \<Rightarrow> c \<in> route_targets (routing t) e skip f"
proof (cases "hget (routing t) (enc_prefix e)")
  case None
  then show ?thesis by (simp add: match_one_def route_targets_none)
next
  case (Some pe)
  have pwf: "pe_wf pe" using routing_wfD(1) [OF wf Some] by (simp add: entry_ok_def)
  show ?thesis
    using Some get_one_correct [OF pwf, of "encoded_name_id e" skip f] pick_one_any_correct [OF pwf, of skip f]
    by (auto simp: match_one_def route_targets_at [OF Some] split_beta split: option.splits)
qed

text \<open>\<open>match_one\<close> moves cursors only: it keeps the routes, the bookkeeping and the invariant.\<close>

lemma match_one_state:
  assumes wf: "routing_wf (routing t)"
  shows "routing_wf (routing (snd (match_one x e skip f t)))"
    and "routes (routing (snd (match_one x e skip f t))) = routes (routing t)"
    and "sub_state (snd (match_one x e skip f t)) = sub_state t"
proof -
  let ?t = "snd (match_one x e skip f t)"
  have "routing_wf (routing ?t) \<and> routes (routing ?t) = routes (routing t) \<and> sub_state ?t = sub_state t"
  proof (cases "hget (routing t) (enc_prefix e)")
    case None
    then show ?thesis using wf by (simp add: match_one_def)
  next
    case (Some pe)
    then obtain pe' where pe': "routing ?t = hput (enc_prefix e) pe' (routing t)" "sub_state ?t = sub_state t"
      "same_but_cursors pe pe'"
      using get_one_cursors [of pe "encoded_name_id e" skip f] pick_one_any_cursors [of pe skip f]
      by (auto simp: match_one_def split_beta)
    note ok = same_but_cursors_entry [OF pe'(3) routing_wfD(1) [OF wf Some]]
    have "routes (routing ?t) = routes (routing t)"
      unfolding pe'(1) routes_hput ok(2) by (rule routes_split [OF Some, symmetric])
    then show ?thesis using wf ok(1) pe' by (simp add: routing_wf_hput)
  qed
  then show "routing_wf (routing ?t)" "routes (routing ?t) = routes (routing t)" "sub_state ?t = sub_state t"
    by blast+
qed

lemma match_one_inv:
  assumes "table_inv cat D t"
  shows "table_inv cat D (snd (match_one x e skip f t))"
    and "table_keys (snd (match_one x e skip f t)) = table_keys t"
  using assms match_one_state [OF table_invD(1) [OF assms], of x e skip f]
  by (simp_all add: table_inv_def table_keys_def)

section \<open>Matching against subscriptions\<close>

text \<open>A key matches a name: same prefix, and same id unless the name asks for any id.\<close>

definition key_matches :: "encoded_name \<Rightarrow> sub_key \<Rightarrow> bool" where
  "key_matches e k \<longleftrightarrow>
     enc_prefix (key_encoded k) = enc_prefix e \<and>
     (encoded_name_id e = NULL_COMPONENT \<or> encoded_name_id (key_encoded k) = encoded_name_id e)"

definition subscribers ::
  "(conn_id \<Rightarrow> conn_type) \<Rightarrow> sub_key set \<Rightarrow> encoded_name \<Rightarrow> conn_id \<Rightarrow> match_filter \<Rightarrow> conn_id set" where
  "subscribers cat K e skip f =
     {key_conn k | k. k \<in> K \<and> key_matches e k \<and> key_conn k \<noteq> skip \<and> filter_includes f (cat (key_conn k))}"

lemma route_targets_subscribers:
  assumes inv: "table_inv cat D t"
  shows "route_targets (routing t) e skip f \<subseteq> subscribers cat (table_keys t) e skip f"
    and "subscribers cat (table_keys t) e skip f - D \<subseteq> route_targets (routing t) e skip f"
proof -
  show "route_targets (routing t) e skip f \<subseteq> subscribers cat (table_keys t) e skip f"
  proof
    fix c assume c: "c \<in> route_targets (routing t) e skip f"
    then obtain i ct where r: "(enc_prefix e, i, ct, c) \<in> routes (routing t)" "filter_includes f ct" "c \<noteq> skip"
      "encoded_name_id e = NULL_COMPONENT \<or> i = encoded_name_id e" by (auto simp: route_targets_def)
    then obtain k where "k \<in> table_keys t" "(enc_prefix e, i, ct, c) = route_of cat k"
      using table_invD(4) [OF inv r(1)] by blast
    then show "c \<in> subscribers cat (table_keys t) e skip f"
      using r unfolding subscribers_def by (auto simp: route_of_def key_matches_def)
  qed
  show "subscribers cat (table_keys t) e skip f - D \<subseteq> route_targets (routing t) e skip f"
  proof
    fix c assume "c \<in> subscribers cat (table_keys t) e skip f - D"
    then obtain k where k: "k \<in> table_keys t" "key_matches e k" "c = key_conn k" "c \<noteq> skip"
      "filter_includes f (cat c)" "c \<notin> D" by (auto simp: subscribers_def)
    then have "route_of cat k \<in> routes (routing t)" using table_invD(5) [OF inv k(1)] by simp
    then show "c \<in> route_targets (routing t) e skip f"
      using k unfolding route_targets_def by (auto simp: route_of_def key_matches_def)
  qed
qed

text \<open>A connection has one type, so the list of \<open>match_all\<close> has no duplicates.\<close>

lemma distinct_concat_map:
  assumes "distinct xs" "\<And>x. x \<in> set xs \<Longrightarrow> distinct (g x)"
    and "\<And>x y c. c \<in> set (g x) \<Longrightarrow> c \<in> set (g y) \<Longrightarrow> x = y"
  shows "distinct (concat (map g xs))"
  using assms by (induction xs) auto

lemma match_all_distinct:
  assumes inv: "table_inv cat D t" and out: "match_all x e skip f t = Inr out"
  shows "distinct out"
proof -
  obtain pe where pe: "hget (routing t) (enc_prefix e) = Some pe"
    using out by (auto simp: match_all_def split: option.splits)
  then have pwf: "pe_wf pe" using routing_wfD(1) [OF table_invD(1) [OF inv]] by (auto simp: entry_ok_def)
  have type: "ct = cat c" if "c \<in> set (conns_of pe i ct)" for c i ct
    using table_invD(4) [OF inv, of "(enc_prefix e, i, ct, c)"] that
    by (auto simp: routes_at [OF pe] entry_routes_def route_of_def)
  have agg: "ct = cat c" if "c \<in> set (aggregates pe ct)" for c ct
    using that type by (auto simp: aggregate_iff [OF pwf] conns_of_mem_iff)
  show ?thesis
  proof (cases "encoded_name_id e = NULL_COMPONENT")
    case True
    then have "out = get_all_any skip f pe" using out pe by (auto simp: match_all_def Let_def split: if_splits)
    then show ?thesis
      using pe_wfD(4) [OF pwf] agg unfolding get_all_any_def
      by (auto intro!: distinct_concat_map distinct_filter) metis
  next
    case False
    then obtain k where k: "position (\<lambda>j. j = encoded_name_id e) (ids pe) = Some k"
      and o: "get_all (encoded_name_id e) skip f pe = Some out"
      using out pe by (auto simp: match_all_def get_all_def split: option.splits if_splits)
    have "k < length (ids pe)" using k by (auto dest: position_SomeD)
    then have "distinct (conns (slots pe ct ! k))" for ct
      using pe_wfD(2) [OF pwf, of ct] by (intro pe_wfD(3) [OF pwf, where ct = ct]) simp
    moreover have "ct = cat c" if "c \<in> set (conns (slots pe ct ! k))" for c ct
      using type [of c "encoded_name_id e" ct] k that by (simp add: conns_of_def pe_map_def)
    ultimately show ?thesis
      using o k unfolding get_all_def
      by (auto intro!: distinct_concat_map distinct_filter) metis
  qed
qed

end
