(* ===== verification/Pool.thy ===== *)
theory Pool
  imports Slim_Prelude
begin

text \<open>
  \<^verbatim>\<open>crates/datapath/src/tables/pool.rs\<close> and
  \<^verbatim>\<open>crates/datapath/src/tables/connection_table.rs\<close>: a slot pool that hands out stable
  ids, keeps a dense list of the live slots with back-pointers, and recycles freed slots; and
  the connection table, a pool behind a write lock. Both are shown to implement a partial map
  from ids to elements (locale \<open>id_table\<close>), and never to panic.
\<close>

section \<open>The pool\<close>

record 'a pool_entry =
  entry_value :: 'a
  active_pos :: nat

text \<open>
  The free-slot stack is written with its top first. The capacity hint of the allocator is
  not state the operations depend on and is left out.
\<close>

record 'a pool =
  pool_slots :: "'a pool_entry option list"
  active_indexes :: "nat list"
  free_slots :: "nat list"
  pool_cursor :: u64

definition pool_with_capacity :: "nat \<Rightarrow> 'a pool" where
  "pool_with_capacity capacity =
     \<lparr>pool_slots = [], active_indexes = [], free_slots = [], pool_cursor = 0\<rparr>"

text \<open>
  The loop of \<open>Pool::insert\<close>: pop free slots, skipping the stale ones. \<open>None\<close> is the
  out-of-range panic of \<open>self.pool[i]\<close>; \<open>Some (None, _)\<close> means the stack ran empty.
\<close>

fun pop_free :: "'a pool_entry option list \<Rightarrow> nat list \<Rightarrow> (nat option \<times> nat list) option" where
  "pop_free slots [] = Some (None, [])"
| "pop_free slots (i # fs) =
     (if i < length slots
      then (case slots ! i of
              None \<Rightarrow> Some (Some i, fs)
            | Some _ \<Rightarrow> pop_free slots fs)
      else None)"

definition pool_insert :: "'a \<Rightarrow> 'a pool \<Rightarrow> (nat \<times> 'a pool) option" where
  "pool_insert element p =
     do {
       (found, fs) \<leftarrow> pop_free (pool_slots p) (free_slots p);
       let (idx, slots) =
         (case found of
            Some i \<Rightarrow> (i, pool_slots p)
          | None \<Rightarrow> (length (pool_slots p), pool_slots p @ [None]));
       let pos = length (active_indexes p);
       Some (idx, p\<lparr>pool_slots := slots[idx := Some \<lparr>entry_value = element, active_pos = pos\<rparr>],
                    active_indexes := active_indexes p @ [idx],
                    free_slots := fs\<rparr>)
     }"

text \<open>
  \<open>Pool::insert_at\<close>. With \<open>id = usize::MAX\<close> the new length \<open>idx + 1\<close> overflows and the
  indexing that follows panics.
\<close>

definition pool_insert_at :: "'a \<Rightarrow> nat \<Rightarrow> 'a pool \<Rightarrow> 'a pool option" where
  "pool_insert_at element idx p =
     (if idx \<ge> usize_MAX then None
      else
        let slots = pool_slots p @ replicate (idx + 1 - length (pool_slots p)) None in
        Some (case slots ! idx of
                Some e \<Rightarrow> p\<lparr>pool_slots := slots[idx := Some (e\<lparr>entry_value := element\<rparr>)]\<rparr>
              | None \<Rightarrow>
                  p\<lparr>pool_slots := slots[idx := Some \<lparr>entry_value = element,
                                                   active_pos = length (active_indexes p)\<rparr>],
                    active_indexes := active_indexes p @ [idx]\<rparr>))"

text \<open>\<open>self.pool.get(idx).and_then(|e| e.as_ref())\<close>.\<close>

definition pool_entry_at :: "'a pool \<Rightarrow> nat \<Rightarrow> 'a pool_entry option" where
  "pool_entry_at p idx = (if idx < length (pool_slots p) then pool_slots p ! idx else None)"

text \<open>
  The back-pointer update of \<open>Pool::remove\<close>; \<open>None\<close> is the panic of
  \<open>expect("active_indexes must point to live slots")\<close>.
\<close>

definition set_active_pos ::
  "nat \<Rightarrow> nat \<Rightarrow> 'a pool_entry option list \<Rightarrow> 'a pool_entry option list option" where
  "set_active_pos moved pos slots =
     (if moved < length slots
      then (case slots ! moved of
              Some e \<Rightarrow> Some (slots[moved := Some (e\<lparr>active_pos := pos\<rparr>)])
            | None \<Rightarrow> None)
      else None)"

definition pool_remove :: "nat \<Rightarrow> 'a pool \<Rightarrow> (bool \<times> 'a pool) option" where
  "pool_remove idx p =
     (case pool_entry_at p idx of
        None \<Rightarrow> Some (False, p)
      | Some entry \<Rightarrow>
          let pos = active_pos entry in
          if pos < length (active_indexes p) then
            let active = swap_remove pos (active_indexes p) in
            do {
              slots \<leftarrow> (if pos < length active
                        then set_active_pos (active ! pos) pos (pool_slots p)
                        else Some (pool_slots p));
              Some (True, p\<lparr>pool_slots := slots[idx := None],
                            active_indexes := active,
                            free_slots := idx # free_slots p\<rparr>)
            }
          else None)"

definition pool_get :: "'a pool \<Rightarrow> nat \<Rightarrow> 'a option" where
  "pool_get p idx = map_option entry_value (pool_entry_at p idx)"

text \<open>\<open>Pool::get_mut\<close> followed by a write through the reference.\<close>

definition pool_get_mut :: "nat \<Rightarrow> ('a \<Rightarrow> 'a) \<Rightarrow> 'a pool \<Rightarrow> 'a pool option" where
  "pool_get_mut idx f p =
     (case pool_entry_at p idx of
        None \<Rightarrow> None
      | Some e \<Rightarrow> Some (p\<lparr>pool_slots := (pool_slots p)[idx := Some (e\<lparr>entry_value := f (entry_value e)\<rparr>)]\<rparr>))"

text \<open>
  The iterators. The outer option is the \<open>expect\<close> panic on a dead slot.
\<close>

fun collect_live :: "'a pool \<Rightarrow> nat list \<Rightarrow> (nat \<times> 'a) list option" where
  "collect_live p [] = Some []"
| "collect_live p (i # is) =
     (case pool_entry_at p i of
        None \<Rightarrow> None
      | Some e \<Rightarrow> map_option (\<lambda>rest. (i, entry_value e) # rest) (collect_live p is))"

definition pool_iter_with_ids :: "'a pool \<Rightarrow> (nat \<times> 'a) list option" where
  "pool_iter_with_ids p = collect_live p (active_indexes p)"

definition pool_iter :: "'a pool \<Rightarrow> 'a list option" where
  "pool_iter p = map_option (map snd) (collect_live p (active_indexes p))"

definition pool_ids :: "'a pool \<Rightarrow> nat list" where
  "pool_ids p = active_indexes p"

definition pool_next_id :: "'a pool \<Rightarrow> nat option \<times> 'a pool" where
  "pool_next_id p =
     (let n = length (active_indexes p) in
      if n = 0 then (None, p)
      else (Some (active_indexes p ! (unat (pool_cursor p) mod n)),
            p\<lparr>pool_cursor := pool_cursor p + 1\<rparr>))"

text \<open>\<open>Pool::next_val\<close>: the outer option is the \<open>expect\<close> panic.\<close>

definition pool_next_val :: "'a pool \<Rightarrow> ('a option \<times> 'a pool) option" where
  "pool_next_val p =
     (let n = length (active_indexes p) in
      if n = 0 then Some (None, p)
      else
        let idx = active_indexes p ! (unat (pool_cursor p) mod n) in
        (case pool_entry_at p idx of
           None \<Rightarrow> None
         | Some e \<Rightarrow> Some (Some (entry_value e), p\<lparr>pool_cursor := pool_cursor p + 1\<rparr>)))"

definition pool_len :: "'a pool \<Rightarrow> nat" where
  "pool_len p = length (active_indexes p)"

definition pool_is_empty :: "'a pool \<Rightarrow> bool" where
  "pool_is_empty p = (active_indexes p = [])"

subsection \<open>The invariant\<close>

text \<open>
  \<open>active_indexes\<close> lists exactly the live slots, without repetition; each live entry's
  back-pointer is its position in that list; every recycled index is in range.
\<close>

definition pool_inv :: "'a pool \<Rightarrow> bool" where
  "pool_inv p \<longleftrightarrow>
     distinct (active_indexes p) \<and>
     (\<forall>i. i \<in> set (active_indexes p) \<longleftrightarrow> pool_entry_at p i \<noteq> None) \<and>
     (\<forall>i e. pool_entry_at p i = Some e \<longrightarrow>
        active_pos e < length (active_indexes p) \<and> active_indexes p ! active_pos e = i) \<and>
     (\<forall>i\<in>set (free_slots p). i < length (pool_slots p))"

lemma pool_invD:
  assumes "pool_inv p"
  shows "distinct (active_indexes p)"
    and "i \<in> set (active_indexes p) \<longleftrightarrow> pool_entry_at p i \<noteq> None"
    and "pool_entry_at p i = Some e \<Longrightarrow> active_pos e < length (active_indexes p)"
    and "pool_entry_at p i = Some e \<Longrightarrow> active_indexes p ! active_pos e = i"
    and "i \<in> set (free_slots p) \<Longrightarrow> i < length (pool_slots p)"
  using assms by (auto simp: pool_inv_def)

lemma pool_invI:
  assumes "distinct (active_indexes p)"
    and "\<And>i. i \<in> set (active_indexes p) \<longleftrightarrow> pool_entry_at p i \<noteq> None"
    and "\<And>i e. pool_entry_at p i = Some e \<Longrightarrow>
           active_pos e < length (active_indexes p) \<and> active_indexes p ! active_pos e = i"
    and "\<And>i. i \<in> set (free_slots p) \<Longrightarrow> i < length (pool_slots p)"
  shows "pool_inv p"
  using assms by (simp add: pool_inv_def)

lemma pool_inv_with_capacity: "pool_inv (pool_with_capacity n)"
  by (simp add: pool_inv_def pool_with_capacity_def pool_entry_at_def)

lemma pool_get_with_capacity: "pool_get (pool_with_capacity n) = Map.empty"
  by (simp add: pool_get_def pool_with_capacity_def pool_entry_at_def fun_eq_iff)

lemma pop_free_total:
  assumes "\<forall>i\<in>set fs. i < length slots"
  shows "\<exists>found fs'. pop_free slots fs = Some (found, fs') \<and> set fs' \<subseteq> set fs \<and>
           (\<forall>i. found = Some i \<longrightarrow> i < length slots \<and> slots ! i = None)"
  using assms
proof (induction fs)
  case Nil
  then show ?case by simp
next
  case (Cons i fs)
  show ?case
  proof (cases "slots ! i")
    case None
    with Cons.prems show ?thesis by auto
  next
    case (Some e)
    with Cons show ?thesis by fastforce
  qed
qed

text \<open>
  Both insertions put a fresh entry, whose back-pointer is the end of the dense list, into an
  empty slot.
\<close>

lemma pool_add_entry:
  assumes inv: "pool_inv p" and empty: "pool_entry_at p idx = None"
    and at: "\<And>j. pool_entry_at p' j =
      (if j = idx then Some \<lparr>entry_value = x, active_pos = length (active_indexes p)\<rparr>
       else pool_entry_at p j)"
    and act: "active_indexes p' = active_indexes p @ [idx]"
    and free: "set (free_slots p') \<subseteq> set (free_slots p)"
    and len: "length (pool_slots p) \<le> length (pool_slots p')"
  shows "pool_inv p' \<and> pool_get p' = (pool_get p)(idx \<mapsto> x)"
proof
  show "pool_inv p'"
  proof (rule pool_invI)
    show "distinct (active_indexes p')"
      using empty pool_invD(1,2) [OF inv] by (simp add: act)
    show "i \<in> set (active_indexes p') \<longleftrightarrow> pool_entry_at p' i \<noteq> None" for i
      using pool_invD(2) [OF inv] by (auto simp: at act)
    show "active_pos f < length (active_indexes p') \<and> active_indexes p' ! active_pos f = i"
      if "pool_entry_at p' i = Some f" for i f
      using that pool_invD(3,4) [OF inv, of i f]
      by (auto simp: at act nth_append split: if_splits)
    show "i < length (pool_slots p')" if "i \<in> set (free_slots p')" for i
      using that free len pool_invD(5) [OF inv, of i] by auto
  qed
  show "pool_get p' = (pool_get p)(idx \<mapsto> x)"
    by (auto simp: pool_get_def at fun_eq_iff)
qed

lemma pool_insert_correct:
  assumes inv: "pool_inv p"
  shows "\<exists>idx p'. pool_insert x p = Some (idx, p') \<and> pool_inv p' \<and>
           pool_get p idx = None \<and> pool_get p' = (pool_get p)(idx \<mapsto> x) \<and>
           pool_ids p' = pool_ids p @ [idx]"
proof -
  obtain found fs where pf: "pop_free (pool_slots p) (free_slots p) = Some (found, fs)"
    and sub: "set fs \<subseteq> set (free_slots p)"
    and found: "\<And>i. found = Some i \<Longrightarrow> i < length (pool_slots p) \<and> pool_slots p ! i = None"
    using pop_free_total [of "free_slots p" "pool_slots p"] pool_invD(5) [OF inv] by blast
  define idx where "idx = (case found of Some i \<Rightarrow> i | None \<Rightarrow> length (pool_slots p))"
  define slots where "slots = (case found of Some i \<Rightarrow> pool_slots p | None \<Rightarrow> pool_slots p @ [None])"
  define p' where "p' = p\<lparr>pool_slots := slots[idx := Some \<lparr>entry_value = x, active_pos = length (active_indexes p)\<rparr>],
                          active_indexes := active_indexes p @ [idx], free_slots := fs\<rparr>"
  have ins: "pool_insert x p = Some (idx, p')"
    by (auto simp: pool_insert_def pf p'_def idx_def slots_def split: option.splits)
  have free: "pool_entry_at p idx = None"
    using found by (auto simp: pool_entry_at_def idx_def split: option.splits)
  have "pool_inv p' \<and> pool_get p' = (pool_get p)(idx \<mapsto> x)"
  proof (rule pool_add_entry [OF inv free])
    show "pool_entry_at p' j = (if j = idx
        then Some \<lparr>entry_value = x, active_pos = length (active_indexes p)\<rparr> else pool_entry_at p j)" for j
      using found
      by (auto simp: pool_entry_at_def p'_def slots_def idx_def nth_append split: option.splits)
  qed (use sub in \<open>auto simp: p'_def slots_def split: option.splits\<close>)
  then show ?thesis
    using ins free by (auto simp: pool_get_def pool_ids_def p'_def)
qed

lemma pool_insert_at_correct:
  assumes inv: "pool_inv p" and id: "idx < usize_MAX"
  shows "\<exists>p'. pool_insert_at x idx p = Some p' \<and> pool_inv p' \<and>
           pool_get p' = (pool_get p)(idx \<mapsto> x) \<and>
           pool_ids p' = (if pool_get p idx = None then pool_ids p @ [idx] else pool_ids p)"
proof -
  define slots where "slots = pool_slots p @ replicate (idx + 1 - length (pool_slots p)) None"
  have idx: "idx < length slots" "length (pool_slots p) \<le> length slots"
    by (auto simp: slots_def)
  have nth: "(if j < length slots then slots ! j else None) = pool_entry_at p j" for j
    by (auto simp: slots_def pool_entry_at_def nth_append)
  show ?thesis
  proof (cases "pool_entry_at p idx")
    case (Some e)
    define p' where "p' = p\<lparr>pool_slots := slots[idx := Some (e\<lparr>entry_value := x\<rparr>)]\<rparr>"
    then have sl: "pool_slots p' = slots[idx := Some (e\<lparr>entry_value := x\<rparr>)]" by simp
    have ins: "pool_insert_at x idx p = Some p'"
      using id nth [of idx] idx Some by (simp add: pool_insert_at_def slots_def p'_def)
    have at: "pool_entry_at p' j = (if j = idx then Some (e\<lparr>entry_value := x\<rparr>) else pool_entry_at p j)" for j
      using idx nth [of j] sl by (auto simp: pool_entry_at_def [of p'] nth_list_update)
    have "pool_inv p'"
      using inv idx(2) Some by (auto simp: pool_inv_def at) (auto simp: p'_def)
    moreover have "pool_get p' = (pool_get p)(idx \<mapsto> x)"
      by (auto simp: pool_get_def at fun_eq_iff)
    ultimately show ?thesis
      using ins Some by (auto simp: pool_get_def pool_ids_def p'_def)
  next
    case None
    define p' where "p' = p\<lparr>pool_slots := slots[idx := Some \<lparr>entry_value = x, active_pos = length (active_indexes p)\<rparr>],
                            active_indexes := active_indexes p @ [idx]\<rparr>"
    then have sl: "pool_slots p' = slots[idx := Some \<lparr>entry_value = x, active_pos = length (active_indexes p)\<rparr>]" by simp
    have ins: "pool_insert_at x idx p = Some p'"
      using id nth [of idx] idx None by (simp add: pool_insert_at_def slots_def p'_def)
    have "pool_inv p' \<and> pool_get p' = (pool_get p)(idx \<mapsto> x)"
    proof (rule pool_add_entry [OF inv None])
      show "pool_entry_at p' j = (if j = idx
          then Some \<lparr>entry_value = x, active_pos = length (active_indexes p)\<rparr> else pool_entry_at p j)" for j
        using idx nth [of j] sl by (auto simp: pool_entry_at_def [of p'] nth_list_update)
    qed (use idx in \<open>auto simp: p'_def\<close>)
    then show ?thesis
      using ins None by (auto simp: pool_get_def pool_ids_def p'_def)
  qed
qed

lemma pool_remove_absent: "pool_get p idx = None \<Longrightarrow> pool_remove idx p = Some (False, p)"
  by (auto simp: pool_remove_def pool_get_def)

text \<open>
  What \<open>remove\<close> computes on a live slot: the entry that was last in the dense list is moved
  to the freed position and its back-pointer patched, the slot is emptied.
\<close>

lemma pool_remove_live:
  assumes inv: "pool_inv p" and e: "pool_entry_at p idx = Some e"
  defines "act \<equiv> swap_remove (active_pos e) (active_indexes p)"
  shows "\<exists>p'. pool_remove idx p = Some (True, p') \<and>
    active_indexes p' = act \<and> free_slots p' = idx # free_slots p \<and>
    length (pool_slots p') = length (pool_slots p) \<and>
    (\<forall>j. pool_entry_at p' j =
      (if j = idx then None
       else if active_pos e < length act \<and> j = act ! active_pos e
       then map_option (\<lambda>f. f\<lparr>active_pos := active_pos e\<rparr>) (pool_entry_at p j)
       else pool_entry_at p j))"
proof -
  define pos where "pos = active_pos e"
  note pos = pool_invD(3,4) [OF inv e, folded pos_def]
  define slots where "slots = (if pos < length act
      then (pool_slots p)[act ! pos := map_option (\<lambda>f. f\<lparr>active_pos := pos\<rparr>) (pool_slots p ! (act ! pos))]
      else pool_slots p)"
  have "pool_entry_at p (act ! pos) \<noteq> None" if "pos < length act"
    using set_swap_remove_subset [OF pos(1)] pool_invD(2) [OF inv, of "act ! pos"] nth_mem [OF that]
    by (auto simp: act_def pos_def)
  then have slots: "(if pos < length act then set_active_pos (act ! pos) pos (pool_slots p)
        else Some (pool_slots p)) = Some slots"
    by (auto simp: set_active_pos_def slots_def pool_entry_at_def split: option.splits if_splits)
  show ?thesis
    using e pos(1) slots
    by (auto simp: pool_remove_def pos_def [symmetric] act_def Let_def)
       (auto simp: pool_entry_at_def slots_def act_def pos_def nth_list_update)
qed

lemma pool_remove_present:
  assumes inv: "pool_inv p" and live: "pool_get p idx \<noteq> None"
  shows "\<exists>p'. pool_remove idx p = Some (True, p') \<and> pool_inv p' \<and>
           pool_get p' = (pool_get p)(idx := None) \<and> set (pool_ids p') = set (pool_ids p) - {idx}"
proof -
  obtain e where e: "pool_entry_at p idx = Some e"
    using live by (auto simp: pool_get_def)
  define pos where "pos = active_pos e"
  define act where "act = swap_remove pos (active_indexes p)"
  obtain p' where rem: "pool_remove idx p = Some (True, p')"
    and fields: "active_indexes p' = act" "free_slots p' = idx # free_slots p"
      "length (pool_slots p') = length (pool_slots p)"
    and at: "\<And>j. pool_entry_at p' j = (if j = idx then None
       else if pos < length act \<and> j = act ! pos
       then map_option (\<lambda>f. f\<lparr>active_pos := pos\<rparr>) (pool_entry_at p j) else pool_entry_at p j)"
    using pool_remove_live [OF inv e] by (auto simp: act_def pos_def)
  note pos = pool_invD(3,4) [OF inv e, folded pos_def]
  have act: "length act = length (active_indexes p) - 1" "distinct act"
    "set act = set (active_indexes p) - {idx}"
    using pos pool_invD(1) [OF inv] by (simp_all add: act_def vec_simps)
  have "pool_inv p'"
  proof (rule pool_invI)
    show "i \<in> set (active_indexes p') \<longleftrightarrow> pool_entry_at p' i \<noteq> None" for i
      using pool_invD(2) [OF inv] act(3) by (auto simp: at fields)
    show "active_pos f < length (active_indexes p') \<and> active_indexes p' ! active_pos f = i"
      if f: "pool_entry_at p' i = Some f" for i f
    proof (cases "pos < length act \<and> i = act ! pos")
      case True
      with f show ?thesis by (auto simp: at fields split: if_splits)
    next
      case False
      with f have fi: "pool_entry_at p i = Some f" "i \<noteq> idx" by (auto simp: at split: if_splits)
      note inv_f = pool_invD(3,4) [OF inv fi(1)]
      have ne: "active_pos f \<noteq> pos" using inv_f(2) pos(2) fi(2) by auto
      show ?thesis
        using swap_remove_other [OF pos(1) inv_f(1) ne] False inv_f(2)
        by (auto simp: fields act_def)
    qed
    show "i < length (pool_slots p')" if "i \<in> set (free_slots p')" for i
      using that e pool_invD(5) [OF inv] by (auto simp: fields pool_entry_at_def split: if_splits)
  qed (simp add: fields act(2))
  moreover have "pool_get p' = (pool_get p)(idx := None)"
    by (auto simp: pool_get_def at fun_eq_iff option.map_comp comp_def)
  ultimately show ?thesis
    using rem act(3) by (auto simp: pool_ids_def fields)
qed

lemma pool_get_mut_correct:
  assumes "pool_inv p"
  shows "case pool_get_mut idx f p of
      None \<Rightarrow> pool_get p idx = None
    | Some p' \<Rightarrow> pool_inv p' \<and> pool_ids p' = pool_ids p \<and>
        (\<exists>x. pool_get p idx = Some x \<and> pool_get p' = (pool_get p)(idx \<mapsto> f x))"
proof (cases "pool_entry_at p idx")
  case None
  then show ?thesis by (simp add: pool_get_mut_def pool_get_def)
next
  case (Some e)
  define p' where
    "p' = p\<lparr>pool_slots := (pool_slots p)[idx := Some (e\<lparr>entry_value := f (entry_value e)\<rparr>)]\<rparr>"
  have at: "pool_entry_at p' j =
      (if j = idx then Some (e\<lparr>entry_value := f (entry_value e)\<rparr>) else pool_entry_at p j)" for j
    using Some by (auto simp: p'_def pool_entry_at_def nth_list_update split: if_splits)
  have "pool_inv p'"
    using assms Some by (auto simp: pool_inv_def at) (auto simp: p'_def)
  moreover have "pool_get p' = (pool_get p)(idx \<mapsto> f (entry_value e))"
    by (auto simp: pool_get_def at fun_eq_iff)
  ultimately show ?thesis
    using Some by (simp add: pool_get_mut_def p'_def [symmetric]) (simp add: pool_get_def pool_ids_def p'_def)
qed

lemma pool_ids_correct: "pool_inv p \<Longrightarrow> distinct (pool_ids p) \<and> set (pool_ids p) = dom (pool_get p)"
  by (auto simp: pool_ids_def pool_inv_def pool_get_def)

lemma collect_live_total:
  "\<forall>i\<in>set is. pool_entry_at p i \<noteq> None \<Longrightarrow>
   collect_live p is = Some (map (\<lambda>i. (i, the (pool_get p i))) is)"
  by (induction "is") (auto simp: pool_get_def)

lemma pool_iter_with_ids_correct:
  "pool_inv p \<Longrightarrow> pool_iter_with_ids p = Some (map (\<lambda>i. (i, the (pool_get p i))) (pool_ids p))"
  unfolding pool_iter_with_ids_def pool_ids_def
  by (rule collect_live_total) (simp add: pool_inv_def)

subsection \<open>Round robin\<close>

text \<open>
  \<open>next_id\<close> visits the live elements in turn: the \<open>k\<close>-th call from cursor \<open>c\<close> returns
  the element at position \<open>(c + k) mod n\<close> of the dense list.
\<close>

fun pool_next_ids :: "nat \<Rightarrow> 'a pool \<Rightarrow> nat option list" where
  "pool_next_ids 0 p = []"
| "pool_next_ids (Suc k) p = (case pool_next_id p of (r, p') \<Rightarrow> r # pool_next_ids k p')"

lemma pool_next_ids_nth:
  assumes "active_indexes p \<noteq> []" "unat (pool_cursor p) + k \<le> 2 ^ 64"
  shows "pool_next_ids k p =
    map (\<lambda>j. Some (active_indexes p ! ((unat (pool_cursor p) + j) mod length (active_indexes p)))) [0..<k]"
  using assms
proof (induction k arbitrary: p)
  case 0
  then show ?case by simp
next
  case (Suc k)
  define p' where "p' = p\<lparr>pool_cursor := pool_cursor p + 1\<rparr>"
  show ?case
  proof (cases k)
    case 0
    with Suc.prems show ?thesis by (simp add: pool_next_id_def)
  next
    case (Suc k')
    with Suc.prems have "unat (pool_cursor p) + 1 < 2 ^ 64" by simp
    then have un: "unat (pool_cursor p') = unat (pool_cursor p) + 1"
      by (simp add: p'_def unat_word_ariths)
    have "pool_next_ids k p' = map (\<lambda>j. Some (active_indexes p ! ((unat (pool_cursor p) + Suc j)
             mod length (active_indexes p)))) [0..<k]"
      using Suc.IH [of p'] Suc.prems un by (simp add: p'_def)
    then show ?thesis
      using Suc.prems by (simp add: pool_next_id_def p'_def map_upt_Suc del: upt_Suc)
  qed
qed

section \<open>The interface of an id table\<close>

text \<open>
  What the clients of the table (the forwarder, the message processor) rely on: an
  insertion returns an id that was free, a lookup returns what was stored, a removal reports
  whether there was an element, \<open>ids\<close> enumerates the live ids once each. No operation panics.
\<close>

locale id_table =
  fixes inv :: "'t \<Rightarrow> bool"
    and lookup :: "'t \<Rightarrow> nat \<Rightarrow> 'a option"
    and ids :: "'t \<Rightarrow> nat list"
    and new :: "'t"
    and ins :: "'a \<Rightarrow> 't \<Rightarrow> (nat \<times> 't) option"
    and ins_at :: "'a \<Rightarrow> nat \<Rightarrow> 't \<Rightarrow> 't option"
    and rem :: "nat \<Rightarrow> 't \<Rightarrow> (bool \<times> 't) option"
  assumes inv_new: "inv new"
    and lookup_new: "lookup new = Map.empty"
    and ins_law: "inv t \<Longrightarrow> \<exists>i t'. ins x t = Some (i, t') \<and> inv t' \<and> lookup t i = None \<and>
          lookup t' = (lookup t)(i \<mapsto> x)"
    and ins_at_law: "inv t \<Longrightarrow> i < usize_MAX \<Longrightarrow>
          \<exists>t'. ins_at x i t = Some t' \<and> inv t' \<and> lookup t' = (lookup t)(i \<mapsto> x)"
    and rem_law: "inv t \<Longrightarrow> \<exists>t'. rem i t = Some (lookup t i \<noteq> None, t') \<and> inv t' \<and>
          lookup t' = (lookup t)(i := None)"
    and ids_law: "inv t \<Longrightarrow> distinct (ids t) \<and> set (ids t) = dom (lookup t)"

text \<open>Sequences of table operations, and the partial map they promise to implement.\<close>

datatype 'a table_op = OpInsert 'a | OpInsertAt 'a nat | OpRemove nat

datatype table_res = ResId nat | ResUnit | ResExisted bool

fun op_in_range :: "'a table_op \<Rightarrow> bool" where
  "op_in_range (OpInsertAt x i) = (i < usize_MAX)"
| "op_in_range _ = True"

fun op_spec :: "(nat \<rightharpoonup> 'a) \<Rightarrow> 'a table_op \<Rightarrow> table_res \<Rightarrow> (nat \<rightharpoonup> 'a) \<Rightarrow> bool" where
  "op_spec m (OpInsert x) r m' = (\<exists>i. r = ResId i \<and> m i = None \<and> m' = m(i \<mapsto> x))"
| "op_spec m (OpInsertAt x i) r m' = (r = ResUnit \<and> m' = m(i \<mapsto> x))"
| "op_spec m (OpRemove i) r m' = (r = ResExisted (m i \<noteq> None) \<and> m' = m(i := None))"

fun trace_spec :: "(nat \<rightharpoonup> 'a) \<Rightarrow> 'a table_op list \<Rightarrow> table_res list \<Rightarrow> (nat \<rightharpoonup> 'a) \<Rightarrow> bool" where
  "trace_spec m [] rs m' = (rs = [] \<and> m' = m)"
| "trace_spec m (op # ops) rs m' =
     (\<exists>r rs' m1. rs = r # rs' \<and> op_spec m op r m1 \<and> trace_spec m1 ops rs' m')"

fun run_op :: "('a \<Rightarrow> 't \<Rightarrow> (nat \<times> 't) option) \<Rightarrow> ('a \<Rightarrow> nat \<Rightarrow> 't \<Rightarrow> 't option) \<Rightarrow>
    (nat \<Rightarrow> 't \<Rightarrow> (bool \<times> 't) option) \<Rightarrow> 'a table_op \<Rightarrow> 't \<Rightarrow> (table_res \<times> 't) option" where
  "run_op ins ins_at rem (OpInsert x) t = map_option (\<lambda>(i, t'). (ResId i, t')) (ins x t)"
| "run_op ins ins_at rem (OpInsertAt x i) t = map_option (\<lambda>t'. (ResUnit, t')) (ins_at x i t)"
| "run_op ins ins_at rem (OpRemove i) t = map_option (\<lambda>(b, t'). (ResExisted b, t')) (rem i t)"

fun run_ops :: "('a \<Rightarrow> 't \<Rightarrow> (nat \<times> 't) option) \<Rightarrow> ('a \<Rightarrow> nat \<Rightarrow> 't \<Rightarrow> 't option) \<Rightarrow>
    (nat \<Rightarrow> 't \<Rightarrow> (bool \<times> 't) option) \<Rightarrow> 'a table_op list \<Rightarrow> 't \<Rightarrow> (table_res list \<times> 't) option" where
  "run_ops ins ins_at rem [] t = Some ([], t)"
| "run_ops ins ins_at rem (op # ops) t =
     do {
       (r, t1) \<leftarrow> run_op ins ins_at rem op t;
       (rs, t2) \<leftarrow> run_ops ins ins_at rem ops t1;
       Some (r # rs, t2)
     }"

context id_table
begin

lemma run_op_correct:
  assumes "inv t" "op_in_range op"
  shows "\<exists>r t'. run_op ins ins_at rem op t = Some (r, t') \<and> inv t' \<and>
           op_spec (lookup t) op r (lookup t')"
proof (cases op)
  case (OpInsert x)
  then show ?thesis using ins_law [OF assms(1), of x] by auto
next
  case (OpInsertAt x i)
  then show ?thesis using ins_at_law [OF assms(1), of i x] assms(2) by auto
next
  case (OpRemove i)
  then show ?thesis using rem_law [OF assms(1), of i] by auto
qed

lemma run_ops_correct:
  assumes "inv t" "list_all op_in_range ops"
  shows "\<exists>rs t'. run_ops ins ins_at rem ops t = Some (rs, t') \<and> inv t' \<and>
           trace_spec (lookup t) ops rs (lookup t')"
  using assms
proof (induction ops arbitrary: t)
  case Nil
  then show ?case by simp
next
  case (Cons op ops)
  from Cons.prems obtain r t1 where r: "run_op ins ins_at rem op t = Some (r, t1)" "inv t1"
      "op_spec (lookup t) op r (lookup t1)"
    using run_op_correct by fastforce
  with Cons obtain rs t2 where "run_ops ins ins_at rem ops t1 = Some (rs, t2)" "inv t2"
      "trace_spec (lookup t1) ops rs (lookup t2)"
    by fastforce
  with r show ?case by auto
qed

end

interpretation pt: id_table pool_inv pool_get pool_ids "pool_with_capacity n"
    pool_insert pool_insert_at pool_remove
  for n
proof
  show "\<exists>t'. pool_remove i t = Some (pool_get t i \<noteq> None, t') \<and> pool_inv t' \<and>
      pool_get t' = (pool_get t)(i := None)"
    if "pool_inv t" for t :: "'a pool" and i
  proof (cases "pool_get t i")
    case None
    then show ?thesis using that by (simp add: pool_remove_absent fun_upd_idem)
  next
    case (Some x)
    then show ?thesis using pool_remove_present [OF that, of i] by auto
  qed
qed (use pool_insert_correct pool_insert_at_correct pool_ids_correct in
    \<open>fastforce simp: pool_inv_with_capacity pool_get_with_capacity\<close>)+

section \<open>The connection table\<close>

text \<open>
  \<open>ConnectionTable\<close>: the pool behind an atomic pointer. A write takes the write lock, clones
  the current pool, changes the clone and stores it, so writes are serialised and a read sees
  one whole pool; the stored \<open>Arc\<close>s are the elements themselves.
\<close>

record 'a conn_table =
  ct_pool :: "'a pool"

definition connection_table_with_capacity :: "nat \<Rightarrow> 'a conn_table" where
  "connection_table_with_capacity capacity = \<lparr>ct_pool = pool_with_capacity capacity\<rparr>"

definition connection_table_insert :: "'a \<Rightarrow> 'a conn_table \<Rightarrow> (nat \<times> 'a conn_table) option" where
  "connection_table_insert c t =
     do { (i, pool) \<leftarrow> pool_insert c (ct_pool t); Some (i, t\<lparr>ct_pool := pool\<rparr>) }"

definition connection_table_insert_at :: "'a \<Rightarrow> nat \<Rightarrow> 'a conn_table \<Rightarrow> 'a conn_table option" where
  "connection_table_insert_at c i t =
     do { pool \<leftarrow> pool_insert_at c i (ct_pool t); Some (t\<lparr>ct_pool := pool\<rparr>) }"

definition connection_table_remove :: "nat \<Rightarrow> 'a conn_table \<Rightarrow> (bool \<times> 'a conn_table) option" where
  "connection_table_remove i t =
     do { (existed, pool) \<leftarrow> pool_remove i (ct_pool t); Some (existed, t\<lparr>ct_pool := pool\<rparr>) }"

definition connection_table_len :: "'a conn_table \<Rightarrow> nat" where
  "connection_table_len t = pool_len (ct_pool t)"

definition connection_table_is_empty :: "'a conn_table \<Rightarrow> bool" where
  "connection_table_is_empty t = pool_is_empty (ct_pool t)"

definition connection_table_get :: "'a conn_table \<Rightarrow> nat \<Rightarrow> 'a option" where
  "connection_table_get t i = pool_get (ct_pool t) i"

definition connection_table_contains :: "'a conn_table \<Rightarrow> nat \<Rightarrow> bool" where
  "connection_table_contains t i = (pool_get (ct_pool t) i \<noteq> None)"

text \<open>\<open>for_each\<close>: the sequence of calls of the callback.\<close>

definition connection_table_for_each :: "'a conn_table \<Rightarrow> (nat \<times> 'a) list option" where
  "connection_table_for_each t = pool_iter_with_ids (ct_pool t)"

definition connection_table_update :: "nat \<Rightarrow> ('a \<Rightarrow> 'a) \<Rightarrow> 'a conn_table \<Rightarrow> bool \<times> 'a conn_table" where
  "connection_table_update i f t =
     (case pool_get_mut i f (ct_pool t) of
        Some pool \<Rightarrow> (True, t\<lparr>ct_pool := pool\<rparr>)
      | None \<Rightarrow> (False, t))"

definition connection_table_inv :: "'a conn_table \<Rightarrow> bool" where
  "connection_table_inv t = pool_inv (ct_pool t)"

lemmas connection_table_defs =
  connection_table_with_capacity_def connection_table_insert_def connection_table_insert_at_def
  connection_table_remove_def connection_table_get_def connection_table_inv_def

interpretation ct: id_table connection_table_inv connection_table_get "\<lambda>t. pool_ids (ct_pool t)"
    "connection_table_with_capacity n" connection_table_insert connection_table_insert_at
    connection_table_remove
  for n
proof
  fix t :: "'a conn_table" and x i
  assume inv: "connection_table_inv t"
  then have inv': "pool_inv (ct_pool t)" by (simp add: connection_table_inv_def)
  show "\<exists>i t'. connection_table_insert x t = Some (i, t') \<and> connection_table_inv t' \<and>
      connection_table_get t i = None \<and>
      connection_table_get t' = (connection_table_get t)(i \<mapsto> x)"
    using pt.ins_law [OF inv', of x] by (auto simp: connection_table_defs fun_eq_iff)
  show "\<exists>t'. connection_table_remove i t = Some (connection_table_get t i \<noteq> None, t') \<and>
      connection_table_inv t' \<and> connection_table_get t' = (connection_table_get t)(i := None)"
    using pt.rem_law [OF inv', of i] by (auto simp: connection_table_defs fun_eq_iff)
  show "distinct (pool_ids (ct_pool t)) \<and> set (pool_ids (ct_pool t)) = dom (connection_table_get t)"
    using pt.ids_law [OF inv'] by (auto simp: connection_table_defs dom_def)
  show "\<exists>t'. connection_table_insert_at x i t = Some t' \<and> connection_table_inv t' \<and>
      connection_table_get t' = (connection_table_get t)(i \<mapsto> x)"
    if "i < usize_MAX"
    using pt.ins_at_law [OF inv' that, of x] by (auto simp: connection_table_defs fun_eq_iff)
qed (simp_all add: connection_table_defs pt.inv_new pt.lookup_new fun_eq_iff)

lemma connection_table_update_correct:
  assumes "connection_table_inv t"
  shows "case connection_table_update i f t of (b, t') \<Rightarrow>
    connection_table_inv t' \<and> b = (connection_table_get t i \<noteq> None) \<and>
    connection_table_get t' = (connection_table_get t)(i := map_option f (connection_table_get t i))"
  using pool_get_mut_correct [of "ct_pool t" i f] assms
  by (auto simp: connection_table_update_def connection_table_defs fun_eq_iff split: option.splits)

end
