(* ===== verification/Default_Gateway.thy ===== *)
theory Default_Gateway
  imports Names Pool
begin

text \<open>
  \<open>Connection\<close> (\<^verbatim>\<open>crates/datapath/src/connection.rs\<close>) with its link negotiation, and
  \<open>DefaultGateway\<close> (\<^verbatim>\<open>crates/datapath/src/tables/default_gateway.rs\<close>): the pinned or
  automatically found Edge connection, with its cache.
\<close>

section \<open>Connections\<close>

text \<open>
  The fields of foreign types: the SLIM version of the remote (\<open>semver\<close>), its header MAC
  session, and in \<open>conn_io\<close> the addresses, the channel, the configuration and the cancellation
  token.
\<close>

record ('ver, 'mac, 'io) connection =
  connection_type :: conn_type
  conn_link_id :: "string option"
  remote_slim_version :: "'ver option"
  header_hmac :: "'mac option"
  require_header_mac :: bool
  peer_node_id :: "string option"
  conn_io :: 'io

definition connection_new :: "conn_type \<Rightarrow> 'io \<Rightarrow> ('ver, 'mac, 'io) connection" where
  "connection_new ct io =
     \<lparr>connection_type = ct, conn_link_id = None, remote_slim_version = None, header_hmac = None,
      require_header_mac = False, peer_node_id = None, conn_io = io\<rparr>"

definition set_connection_type ::
  "conn_type \<Rightarrow> ('ver, 'mac, 'io) connection \<Rightarrow> ('ver, 'mac, 'io) connection" where
  "set_connection_type ct conn = conn\<lparr>connection_type := ct\<rparr>"

definition is_negotiated :: "('ver, 'mac, 'io) connection \<Rightarrow> bool" where
  "is_negotiated conn \<longleftrightarrow> remote_slim_version conn \<noteq> None"

definition complete_negotiation_as_server ::
  "string \<Rightarrow> 'ver \<Rightarrow> ('ver, 'mac, 'io) connection \<Rightarrow> bool \<times> ('ver, 'mac, 'io) connection" where
  "complete_negotiation_as_server link version conn =
     (if remote_slim_version conn \<noteq> None then (False, conn)
      else if link = '''' then (False, conn)
      else (True, conn\<lparr>conn_link_id := Some link, remote_slim_version := Some version\<rparr>))"

definition complete_negotiation_as_client ::
  "string \<Rightarrow> 'ver \<Rightarrow> ('ver, 'mac, 'io) connection \<Rightarrow> bool \<times> ('ver, 'mac, 'io) connection" where
  "complete_negotiation_as_client link version conn =
     (if remote_slim_version conn \<noteq> None then (False, conn)
      else if conn_link_id conn \<noteq> Some link then (False, conn)
      else (True, conn\<lparr>remote_slim_version := Some version\<rparr>))"

text \<open>
  A sequence of negotiation messages on one connection, from either side of the link. The first
  one accepted fixes version and link id for good; a replay changes nothing.
\<close>

datatype 'ver negotiation = As_Server string 'ver | As_Client string 'ver

fun negotiate :: "'ver negotiation \<Rightarrow> ('ver, 'mac, 'io) connection \<Rightarrow> bool \<times> ('ver, 'mac, 'io) connection" where
  "negotiate (As_Server link version) conn = complete_negotiation_as_server link version conn"
| "negotiate (As_Client link version) conn = complete_negotiation_as_client link version conn"

fun negotiate_all ::
  "'ver negotiation list \<Rightarrow> ('ver, 'mac, 'io) connection \<Rightarrow> bool list \<times> ('ver, 'mac, 'io) connection" where
  "negotiate_all [] conn = ([], conn)"
| "negotiate_all (n # ns) conn =
     (case negotiate n conn of (b, conn') \<Rightarrow>
        (case negotiate_all ns conn' of (bs, conn'') \<Rightarrow> (b # bs, conn'')))"

lemma negotiate_done: "is_negotiated conn \<Longrightarrow> negotiate n conn = (False, conn)"
  by (cases n) (simp_all add: is_negotiated_def complete_negotiation_as_server_def complete_negotiation_as_client_def)

lemma negotiate_True: "fst (negotiate n conn) \<Longrightarrow> is_negotiated (snd (negotiate n conn)) \<and> \<not> is_negotiated conn"
  by (cases n)
     (auto simp: is_negotiated_def complete_negotiation_as_server_def complete_negotiation_as_client_def split: if_splits)

lemma negotiate_False: "\<not> fst (negotiate n conn) \<Longrightarrow> snd (negotiate n conn) = conn"
  by (cases n) (auto simp: complete_negotiation_as_server_def complete_negotiation_as_client_def split: if_splits)

lemma negotiate_all_done:
  "is_negotiated conn \<Longrightarrow> negotiate_all ns conn = (replicate (length ns) False, conn)"
  by (induction ns) (simp_all add: negotiate_done)

lemma negotiate_all_once:
  "length (filter id (fst (negotiate_all ns conn))) \<le> 1 \<and>
   (is_negotiated (snd (negotiate_all ns conn)) \<longleftrightarrow>
      is_negotiated conn \<or> length (filter id (fst (negotiate_all ns conn))) = 1)"
proof (induction ns arbitrary: conn)
  case (Cons n ns)
  show ?case
  proof (cases "fst (negotiate n conn)")
    case True
    then show ?thesis
      using negotiate_True [OF True] negotiate_all_done [of "snd (negotiate n conn)" ns]
      by (simp add: split_beta)
  next
    case False
    then show ?thesis using Cons.IH [of conn] negotiate_False [OF False] by (simp add: split_beta)
  qed
qed simp

section \<open>The default gateway\<close>

datatype gateway_source = Explicit | Auto

datatype gateway = Dirty | Gateway conn_id gateway_source | Empty_Gateway | Ambiguous nat

record default_gateway =
  gw_enabled :: bool
  gw_explicit :: "conn_id option"
  gw_cache :: gateway

definition default_gateway_new :: default_gateway where
  "default_gateway_new = \<lparr>gw_enabled = True, gw_explicit = None, gw_cache = Dirty\<rparr>"

definition set_enabled :: "bool \<Rightarrow> default_gateway \<Rightarrow> default_gateway" where
  "set_enabled b g = g\<lparr>gw_enabled := b\<rparr>"

definition set_explicit :: "conn_id option \<Rightarrow> default_gateway \<Rightarrow> default_gateway" where
  "set_explicit c g = g\<lparr>gw_explicit := c\<rparr>"

definition invalidate :: "default_gateway \<Rightarrow> default_gateway" where
  "invalidate g = g\<lparr>gw_cache := Dirty\<rparr>"

text \<open>The \<open>match\<close> of \<open>resolve\<close> on the list of Edge connections.\<close>

fun auto_gateway :: "conn_id list \<Rightarrow> gateway" where
  "auto_gateway [] = Empty_Gateway"
| "auto_gateway [c] = Gateway c Auto"
| "auto_gateway edges = Ambiguous (length edges)"

text \<open>\<open>resolve\<close>; \<open>scan\<close> is the result of the closure, \<open>None\<close> if it panics.\<close>

definition resolve :: "conn_id list option \<Rightarrow> default_gateway \<Rightarrow> (gateway \<times> default_gateway) option" where
  "resolve scan g =
     (case gw_explicit g of
        Some c \<Rightarrow>
          do { edges \<leftarrow> scan; Some (if c \<in> set edges then Gateway c Explicit else Empty_Gateway, g) }
      | None \<Rightarrow>
          if \<not> gw_enabled g then Some (Empty_Gateway, g)
          else if gw_cache g \<noteq> Dirty then Some (gw_cache g, g)
          else do { edges \<leftarrow> scan; let r = auto_gateway edges; Some (r, g\<lparr>gw_cache := r\<rparr>) })"

text \<open>A cache is coherent with the Edge connections when it is dirty or what a scan gives.\<close>

definition cache_ok :: "conn_id list \<Rightarrow> default_gateway \<Rightarrow> bool" where
  "cache_ok edges g \<longleftrightarrow> gw_cache g = Dirty \<or> gw_cache g = auto_gateway edges"

text \<open>What \<open>resolve\<close> promises, as a function of the pin, the switch and the Edge connections.\<close>

definition resolve_spec :: "conn_id option \<Rightarrow> bool \<Rightarrow> conn_id list \<Rightarrow> gateway" where
  "resolve_spec pin enabled edges =
     (case pin of
        Some c \<Rightarrow> if c \<in> set edges then Gateway c Explicit else Empty_Gateway
      | None \<Rightarrow> if enabled then auto_gateway edges else Empty_Gateway)"

lemma auto_gateway_not_Dirty: "auto_gateway edges \<noteq> Dirty"
  by (cases edges rule: auto_gateway.cases) simp_all

lemma resolve_correct:
  assumes "cache_ok edges g"
  shows "\<exists>g'. resolve (Some edges) g = Some (resolve_spec (gw_explicit g) (gw_enabled g) edges, g') \<and>
    cache_ok edges g' \<and> gw_explicit g' = gw_explicit g \<and> gw_enabled g' = gw_enabled g"
  using assms auto_gateway_not_Dirty [of edges]
  by (auto simp: resolve_def resolve_spec_def cache_ok_def Let_def split: option.splits)

end
