(* ===== verification/Forwarder.thy ===== *)
theory Forwarder
  imports Subscription_Match Default_Gateway
begin

text \<open>
  \<open>Forwarder\<close> of \<^verbatim>\<open>crates/datapath/src/forwarder.rs\<close>: the subscription table, the connection
  table and the default gateway, and the operations the message processor calls on them.
\<close>

section \<open>Operations\<close>

record 'a forwarder =
  subscription_table :: sub_table
  fwd_connections :: "'a conn_table"
  fwd_gateway :: default_gateway

definition forwarder_new :: "'a forwarder" where
  "forwarder_new =
     \<lparr>subscription_table = sub_table_default, fwd_connections = connection_table_with_capacity 100,
      fwd_gateway = default_gateway_new\<rparr>"

text \<open>The outer \<open>option\<close> is \<open>None\<close> on a panic of the pool; the inner one is the one of the code.\<close>

definition on_connection_established ::
  "'a \<Rightarrow> nat option \<Rightarrow> 'a forwarder \<Rightarrow> (nat option \<times> 'a forwarder) option" where
  "on_connection_established conn existing_index w =
     do {
       (i, t) \<leftarrow> (case existing_index of
                   None \<Rightarrow> do { (i, t) \<leftarrow> connection_table_insert conn (fwd_connections w); Some (Some i, t) }
                 | Some j \<Rightarrow> do { t \<leftarrow> connection_table_insert_at conn j (fwd_connections w); Some (existing_index, t) });
       Some (i, w\<lparr>fwd_connections := t, fwd_gateway := invalidate (fwd_gateway w)\<rparr>)
     }"

definition on_connection_drop ::
  "externs \<Rightarrow> conn_id \<Rightarrow> conn_type \<Rightarrow> 'a forwarder \<Rightarrow> ((proto_name, sub_id list) hmap \<times> 'a forwarder) option" where
  "on_connection_drop x c category w =
     do {
       (_, t) \<leftarrow> connection_table_remove c (fwd_connections w);
       let (res, st) = remove_connection x c category (subscription_table w);
       Some (case res of Inr m \<Rightarrow> m | Inl _ \<Rightarrow> [],
             w\<lparr>fwd_connections := t, fwd_gateway := invalidate (fwd_gateway w), subscription_table := st\<rparr>)
     }"

definition get_connection :: "'a forwarder \<Rightarrow> conn_id \<Rightarrow> 'a option" where
  "get_connection w c = connection_table_get (fwd_connections w) c"

definition on_connection_type_changed :: "'a forwarder \<Rightarrow> 'a forwarder" where
  "on_connection_type_changed w = w\<lparr>fwd_gateway := invalidate (fwd_gateway w)\<rparr>"

definition set_default_gateway_enabled :: "bool \<Rightarrow> 'a forwarder \<Rightarrow> 'a forwarder" where
  "set_default_gateway_enabled b w = w\<lparr>fwd_gateway := set_enabled b (fwd_gateway w)\<rparr>"

definition clear_default_gateway :: "'a forwarder \<Rightarrow> 'a forwarder" where
  "clear_default_gateway w = w\<lparr>fwd_gateway := invalidate (set_explicit None (fwd_gateway w))\<rparr>"

definition default_gateway_state :: "'a forwarder \<Rightarrow> gateway" where
  "default_gateway_state w = gw_cache (fwd_gateway w)"

definition on_subscription_msg ::
  "externs \<Rightarrow> proto_name \<Rightarrow> conn_id \<Rightarrow> conn_type \<Rightarrow> bool \<Rightarrow> sub_id \<Rightarrow> 'a forwarder \<Rightarrow>
   ((datapath_error + bool) \<times> 'a forwarder) option" where
  "on_subscription_msg x n c category add sid w =
     (if add then
        do {
          (first, t) \<leftarrow> add_subscription n c category sid (subscription_table w);
          Some (Inr first, w\<lparr>subscription_table := t\<rparr>)
        }
      else
        do {
          (r, t) \<leftarrow> remove_subscription x n c category sid (subscription_table w);
          Some (r, w\<lparr>subscription_table := t\<rparr>)
        })"

text \<open>
  \<open>on_publish_msg_match\<close>. One turn of the loop looks the name up and keeps the connections
  that exist; the routes of the others are removed. The loop may in principle not end, so its
  result is an \<open>option\<close>.
\<close>

fun retain_existing :: "('t \<Rightarrow> conn_id \<Rightarrow> 't) \<Rightarrow> (conn_id \<Rightarrow> bool) \<Rightarrow> conn_id list \<Rightarrow> 't \<Rightarrow> conn_id list \<times> 't" where
  "retain_existing cut_off contains [] t = ([], t)"
| "retain_existing cut_off contains (c # cs) t =
     (if contains c
      then (case retain_existing cut_off contains cs t of (out, t') \<Rightarrow> (c # out, t'))
      else retain_existing cut_off contains cs (cut_off t c))"

partial_function (option) match_loop ::
  "('t \<Rightarrow> (datapath_error + conn_id list) \<times> 't) \<Rightarrow> ('t \<Rightarrow> conn_id \<Rightarrow> 't) \<Rightarrow> (conn_id \<Rightarrow> bool) \<Rightarrow> 't \<Rightarrow>
   ((datapath_error + conn_id list) \<times> 't) option" where
  "match_loop lookup cut_off contains t =
     (case lookup t of
        (Inl err, t1) \<Rightarrow> Some (Inl err, t1)
      | (Inr out, t1) \<Rightarrow>
          (case retain_existing cut_off contains out t1 of
             (out', t2) \<Rightarrow> if out' \<noteq> [] then Some (Inr out', t2) else match_loop lookup cut_off contains t2))"

declare match_loop.simps [code]

definition publish_lookup ::
  "externs \<Rightarrow> encoded_name \<Rightarrow> conn_id \<Rightarrow> nat \<Rightarrow> match_filter \<Rightarrow> sub_table \<Rightarrow>
   (datapath_error + conn_id list) \<times> sub_table" where
  "publish_lookup x e incoming fanout f t =
     (if fanout = 1
      then (case match_one x e incoming f t of (r, t') \<Rightarrow> (map_sum id (\<lambda>c. [c]) r, t'))
      else (match_all x e incoming f t, t))"

definition on_publish_msg_match ::
  "externs \<Rightarrow> encoded_name \<Rightarrow> conn_id \<Rightarrow> nat \<Rightarrow> match_filter \<Rightarrow> 'a forwarder \<Rightarrow>
   ((datapath_error + conn_id list) \<times> 'a forwarder) option" where
  "on_publish_msg_match x e incoming fanout f w =
     map_option (\<lambda>(r, t). (r, w\<lparr>subscription_table := t\<rparr>))
       (match_loop (publish_lookup x e incoming fanout f) (\<lambda>t c. remove_routes_to c t)
          (connection_table_contains (fwd_connections w)) (subscription_table w))"

text \<open>The part for \<open>Forwarder<Connection>\<close>: the default gateway over the Edge connections.\<close>

type_synonym ('ver, 'mac, 'io) conn_forwarder = "('ver, 'mac, 'io) connection forwarder"

definition edge_conn_ids :: "('ver, 'mac, 'io) conn_forwarder \<Rightarrow> conn_id list option" where
  "edge_conn_ids w =
     map_option (\<lambda>l. map fst (filter (\<lambda>(_, conn). connection_type conn = Edge) l))
       (connection_table_for_each (fwd_connections w))"

fun conn_type_debug :: "conn_type \<Rightarrow> string" where
  "conn_type_debug Local = ''Local''"
| "conn_type_debug Remote = ''Remote''"
| "conn_type_debug Peer = ''Peer''"
| "conn_type_debug Edge = ''Edge''"

definition set_default_gateway ::
  "conn_id \<Rightarrow> ('ver, 'mac, 'io) conn_forwarder \<Rightarrow> (datapath_error + unit) \<times> ('ver, 'mac, 'io) conn_forwarder" where
  "set_default_gateway c w =
     (case connection_table_get (fwd_connections w) c of
        None \<Rightarrow> (Inl (InvalidDefaultGateway c ''connection not found''), w)
      | Some conn \<Rightarrow>
          if connection_type conn \<noteq> Edge
          then (Inl (InvalidDefaultGateway c
                  (''connection type is '' @ conn_type_debug (connection_type conn) @ '', expected Edge'')), w)
          else (Inr (), w\<lparr>fwd_gateway := set_explicit (Some c) (fwd_gateway w)\<rparr>))"

definition resolve_default_gateway ::
  "('ver, 'mac, 'io) conn_forwarder \<Rightarrow> (gateway \<times> ('ver, 'mac, 'io) conn_forwarder) option" where
  "resolve_default_gateway w =
     do {
       (g, dg) \<leftarrow> resolve (edge_conn_ids w) (fwd_gateway w);
       Some (g, w\<lparr>fwd_gateway := dg\<rparr>)
     }"

section \<open>The publish loop over a route source\<close>

text \<open>
  What the loop relies on of the table: a lookup returns targets of the name, at least one
  unless there is none, and keeps the routes; cutting a connection takes it out of the targets
  and out of the finite set of routed connections.
\<close>

locale route_source =
  fixes inv :: "'t \<Rightarrow> bool"
    and targets_of :: "'t \<Rightarrow> conn_id set"
    and routed :: "'t \<Rightarrow> conn_id set"
    and lookup :: "'t \<Rightarrow> (datapath_error + conn_id list) \<times> 't"
    and cut_off :: "'t \<Rightarrow> conn_id \<Rightarrow> 't"
    and live :: "conn_id \<Rightarrow> bool"
  assumes lookup_keeps: "inv t \<Longrightarrow> inv (snd (lookup t)) \<and> targets_of (snd (lookup t)) = targets_of t \<and>
        routed (snd (lookup t)) = routed t"
    and lookup_found: "inv t \<Longrightarrow> fst (lookup t) = Inr out \<Longrightarrow> out \<noteq> [] \<and> set out \<subseteq> targets_of t"
    and lookup_none: "inv t \<Longrightarrow> fst (lookup t) = Inl err \<Longrightarrow> targets_of t = {}"
    and targets_routed: "inv t \<Longrightarrow> targets_of t \<subseteq> routed t"
    and finite_routed: "inv t \<Longrightarrow> finite (routed t)"
    and cut_off_law: "inv t \<Longrightarrow> \<not> live c \<Longrightarrow> inv (cut_off t c) \<and> targets_of (cut_off t c) = targets_of t - {c} \<and>
        routed (cut_off t c) = routed t - {c}"
begin

lemma retain_existing_correct:
  assumes "inv t"
  shows "fst (retain_existing cut_off live cs t) = filter live cs \<and>
    inv (snd (retain_existing cut_off live cs t)) \<and>
    targets_of (snd (retain_existing cut_off live cs t)) = targets_of t - {c \<in> set cs. \<not> live c} \<and>
    routed (snd (retain_existing cut_off live cs t)) = routed t - {c \<in> set cs. \<not> live c}"
  using assms
proof (induction cs arbitrary: t)
  case (Cons c cs)
  then show ?case using Cons.IH [of t] Cons.IH [of "cut_off t c"] cut_off_law [of t c] by (auto simp: split_beta)
qed simp

definition loop_result :: "'t \<Rightarrow> datapath_error + conn_id list \<Rightarrow> 't \<Rightarrow> bool" where
  "loop_result t r t' \<longleftrightarrow> inv t' \<and> routed t' \<subseteq> routed t \<and>
     {c \<in> routed t'. live c} = {c \<in> routed t. live c} \<and>
     (case r of
        Inl err \<Rightarrow> {c \<in> targets_of t. live c} = {} \<and> (\<exists>t1. inv t1 \<and> fst (lookup t1) = Inl err)
      | Inr out \<Rightarrow> out \<noteq> [] \<and> (\<exists>t1 out1. inv t1 \<and> fst (lookup t1) = Inr out1 \<and> out = filter live out1 \<and>
          targets_of t1 \<subseteq> targets_of t \<and> {c \<in> targets_of t1. live c} = {c \<in> targets_of t. live c}))"

lemma loop_result_step:
  assumes "loop_result t2 r t'" "targets_of t2 \<subseteq> targets_of t" "routed t2 \<subseteq> routed t"
    and "{c \<in> targets_of t2. live c} = {c \<in> targets_of t. live c}"
    and "{c \<in> routed t2. live c} = {c \<in> routed t. live c}"
  shows "loop_result t r t'"
proof -
  have sub: "routed t' \<subseteq> routed t" using assms(1,3) unfolding loop_result_def by blast
  show ?thesis
  proof (cases r)
    case (Inr out)
    with assms(1) obtain t1 out1 where "inv t1" "fst (lookup t1) = Inr out1" "out = filter live out1" "out \<noteq> []"
      "targets_of t1 \<subseteq> targets_of t2" "{c \<in> targets_of t1. live c} = {c \<in> targets_of t2. live c}"
      unfolding loop_result_def by auto
    then have "\<exists>t1 out1. inv t1 \<and> fst (lookup t1) = Inr out1 \<and> out = filter live out1 \<and>
        targets_of t1 \<subseteq> targets_of t \<and> {c \<in> targets_of t1. live c} = {c \<in> targets_of t. live c}"
      using assms(2,4) by blast
    then show ?thesis using assms Inr sub unfolding loop_result_def by simp
  qed (use assms sub in \<open>simp add: loop_result_def\<close>)
qed

lemma match_loop_correct:
  assumes "inv t"
  shows "\<exists>r t'. match_loop lookup cut_off live t = Some (r, t') \<and> loop_result t r t'"
  using assms
proof (induction "card (routed t)" arbitrary: t rule: less_induct)
  case less
  obtain r t1 where l: "lookup t = (r, t1)" by (cases "lookup t")
  note keeps = lookup_keeps [OF less.prems, unfolded l snd_conv]
  show ?case
  proof (cases r)
    case (Inl err)
    have "match_loop lookup cut_off live t = Some (Inl err, t1)" using l Inl by (simp add: match_loop.simps [of _ _ _ t])
    then show ?thesis
      using l Inl keeps lookup_none [OF less.prems, of err] less.prems
      by (auto simp: loop_result_def intro!: exI [of _ t])
  next
    case (Inr out)
    have out: "out \<noteq> []" "set out \<subseteq> targets_of t" using lookup_found [OF less.prems, of out] l Inr by auto
    obtain t2 where ret: "retain_existing cut_off live out t1 = (filter live out, t2)" and t2: "inv t2"
      "targets_of t2 = targets_of t - {c \<in> set out. \<not> live c}" "routed t2 = routed t - {c \<in> set out. \<not> live c}"
      using retain_existing_correct [of t1 out] keeps by (cases "retain_existing cut_off live out t1") auto
    have step: "match_loop lookup cut_off live t =
      (if filter live out \<noteq> [] then Some (Inr (filter live out), t2) else match_loop lookup cut_off live t2)"
      using l Inr ret by (simp only: match_loop.simps [of _ _ _ t] prod.case sum.case)
    show ?thesis
    proof (cases "filter live out = []")
      case False
      have "loop_result t (Inr (filter live out)) t2"
        using False t2 less.prems l Inr unfolding loop_result_def by (auto intro!: exI [of _ t] exI [of _ out])
      then show ?thesis using step False by simp
    next
      case True
      then have "set out \<subseteq> routed t - routed t2"
        using out targets_routed [OF less.prems] t2(3) by (auto simp: filter_empty_conv)
      then have "routed t2 \<subset> routed t" using out(1) t2(3) by (auto simp: neq_Nil_conv)
      then have less': "card (routed t2) < card (routed t)"
        using finite_routed [OF less.prems] by (rule psubset_card_mono [rotated])
      then obtain r' t' where "match_loop lookup cut_off live t2 = Some (r', t')" "loop_result t2 r' t'"
        using less.hyps [OF less' t2(1)] by blast
      moreover have "loop_result t2 r' t' \<Longrightarrow> loop_result t r' t'"
        by (erule loop_result_step) (auto simp: t2(2,3))
      ultimately show ?thesis using step True by simp
    qed
  qed
qed

end

text \<open>The laws for the subscription table, for any \<open>fanout\<close>.\<close>

lemma routed_conns_eq: "routed_conns rs = (\<lambda>r. snd (snd (snd r))) ` routes rs"
  by (force simp: routed_conns_def)

lemma route_targets_routed: "route_targets rs e skip f \<subseteq> routed_conns rs"
  unfolding route_targets_def routed_conns_def by blast

lemma route_targets_cong: "routes rs' = routes rs \<Longrightarrow> route_targets rs' e skip f = route_targets rs e skip f"
  by (simp add: route_targets_def)

lemma remove_routes_to_targets:
  assumes "routing_wf (routing t)"
  shows "route_targets (routing (remove_routes_to c t)) e skip f = route_targets (routing t) e skip f - {c}"
    and "routed_conns (routing (remove_routes_to c t)) = routed_conns (routing t) - {c}"
  unfolding route_targets_def routed_conns_def remove_routes_to_correct(2) [OF assms] mem_Collect_eq prod.case
  by blast+

lemma table_inv_mono:
  assumes "table_inv cat D t" "D \<subseteq> D'"
  shows "table_inv cat D' t"
  using assms unfolding table_inv_def by blast

definition publish_inv :: "(conn_id \<Rightarrow> conn_type) \<Rightarrow> (conn_id \<Rightarrow> bool) \<Rightarrow> conn_id set \<Rightarrow> sub_key set \<Rightarrow> sub_table \<Rightarrow> bool" where
  "publish_inv cat live D K t \<longleftrightarrow> table_inv cat (D \<union> {c. \<not> live c}) t \<and> table_keys t = K"

lemma publish_lookup_state:
  assumes "routing_wf (routing t)"
  shows "routes (routing (snd (publish_lookup x e incoming fanout f t))) = routes (routing t)"
  using match_one_state(2) [OF assms] by (simp add: publish_lookup_def split_beta)

lemma publish_lookup_cases:
  "fanout = 1 \<Longrightarrow> fst (publish_lookup x e incoming fanout f t) = map_sum id (\<lambda>c. [c]) (fst (match_one x e incoming f t))"
  "fanout \<noteq> 1 \<Longrightarrow> fst (publish_lookup x e incoming fanout f t) = match_all x e incoming f t"
  by (simp_all add: publish_lookup_def split_beta)

lemma publish_lookup_correct:
  assumes wf: "routing_wf (routing t)"
  shows "case fst (publish_lookup x e incoming fanout f t) of
      Inl err \<Rightarrow> route_targets (routing t) e incoming f = {} \<and> err = no_match x e
    | Inr out \<Rightarrow> out \<noteq> [] \<and> set out \<subseteq> route_targets (routing t) e incoming f \<and>
        (if fanout = 1 then length out = 1 else set out = route_targets (routing t) e incoming f)"
proof (cases "fanout = 1")
  case True
  show ?thesis
    unfolding publish_lookup_cases(1) [OF True]
    using True match_one_routes [OF wf, of x e incoming f] by (cases "fst (match_one x e incoming f t)") simp_all
next
  case False
  show ?thesis
    unfolding publish_lookup_cases(2) [OF False]
    using False match_all_routes [OF wf, of x e incoming f] by (cases "match_all x e incoming f t") simp_all
qed

interpretation ps: route_source "publish_inv cat live D K" "\<lambda>t. route_targets (routing t) e incoming f"
    "\<lambda>t. routed_conns (routing t)" "publish_lookup x e incoming fanout f" "\<lambda>t c. remove_routes_to c t" live
  for cat live D K e incoming f x fanout
proof
  fix t c out err
  assume inv: "publish_inv cat live D K t"
  then have wf: "routing_wf (routing t)" by (simp add: publish_inv_def table_inv_def)
  note same = publish_lookup_state [OF wf, of x e incoming fanout f]
  have "publish_inv cat live D K (snd (publish_lookup x e incoming fanout f t))"
    using inv match_one_inv [of cat "D \<union> {c. \<not> live c}" t x e incoming f]
    by (cases "fanout = 1") (simp_all add: publish_inv_def publish_lookup_def split_beta)
  then show "publish_inv cat live D K (snd (publish_lookup x e incoming fanout f t)) \<and>
    route_targets (routing (snd (publish_lookup x e incoming fanout f t))) e incoming f =
      route_targets (routing t) e incoming f \<and>
    routed_conns (routing (snd (publish_lookup x e incoming fanout f t))) = routed_conns (routing t)"
    using route_targets_cong [OF same] same by (simp add: routed_conns_eq)
  show "out \<noteq> [] \<and> set out \<subseteq> route_targets (routing t) e incoming f"
    if "fst (publish_lookup x e incoming fanout f t) = Inr out"
    using publish_lookup_correct [OF wf, where x = x and e = e and incoming = incoming and fanout = fanout and f = f] that by simp
  show "route_targets (routing t) e incoming f = {}" if "fst (publish_lookup x e incoming fanout f t) = Inl err"
    using publish_lookup_correct [OF wf, where x = x and e = e and incoming = incoming and fanout = fanout and f = f] that by simp
  show "publish_inv cat live D K (remove_routes_to c t) \<and>
      route_targets (routing (remove_routes_to c t)) e incoming f = route_targets (routing t) e incoming f - {c} \<and>
      routed_conns (routing (remove_routes_to c t)) = routed_conns (routing t) - {c}" if "\<not> live c"
  proof -
    have "insert c (D \<union> {c. \<not> live c}) = D \<union> {c. \<not> live c}" using that by auto
    then show ?thesis
      using inv remove_routes_to_inv [where cat = cat and D = "D \<union> {c. \<not> live c}" and t = t and c = c]
        remove_routes_to_targets [OF wf, of c]
      by (simp add: publish_inv_def)
  qed
qed (simp_all add: route_targets_routed finite_routed_conns)

lemma publish_lookup_distinct:
  assumes "table_inv cat D t" "fst (publish_lookup x e incoming fanout f t) = Inr out"
  shows "distinct out"
proof (cases "fanout = 1")
  case True
  then show ?thesis
    using assms(2) publish_lookup_correct [OF table_invD(1) [OF assms(1)],
      where x = x and e = e and incoming = incoming and fanout = fanout and f = f]
    by (cases out) auto
next
  case False
  then show ?thesis
    using assms match_all_distinct [OF assms(1), of x e incoming f out] by (simp add: publish_lookup_cases(2))
qed

text \<open>
  \<open>on_publish_msg_match\<close> always returns. It finds live subscribers only; one of them for
  \<open>fanout\<close> 1, and otherwise all of them but those without routes; it fails only when there is
  none. It changes nothing but cursors and the routes of connections that do not exist.
\<close>

lemma on_publish_msg_match_correct:
  assumes inv: "table_inv cat D (subscription_table w)"
  defines "live \<equiv> connection_table_contains (fwd_connections w)"
    and "subs \<equiv> \<lambda>e incoming f. subscribers cat (table_keys (subscription_table w)) e incoming f"
  shows "\<exists>r t'. on_publish_msg_match x e incoming fanout f w = Some (r, w\<lparr>subscription_table := t'\<rparr>) \<and>
    table_inv cat (D \<union> {c. \<not> live c}) t' \<and> table_keys t' = table_keys (subscription_table w) \<and>
    (case r of
       Inl err \<Rightarrow> err = no_match x e \<and> {c \<in> subs e incoming f. live c} \<subseteq> D
     | Inr out \<Rightarrow> out \<noteq> [] \<and> distinct out \<and> set out \<subseteq> {c \<in> subs e incoming f. live c} \<and>
         (if fanout = 1 then length out = 1 else {c \<in> subs e incoming f. live c} - D \<subseteq> set out))"
proof -
  let ?t = "subscription_table w" and ?D = "D \<union> {c. \<not> live c}"
  let ?K = "table_keys ?t"
  have pinv: "publish_inv cat live D ?K ?t" using table_inv_mono [OF inv] by (simp add: publish_inv_def)
  have sub: "{c \<in> route_targets (routing t) e incoming f. live c} \<subseteq> {c \<in> subs e incoming f. live c}"
      "{c \<in> subs e incoming f. live c} - D \<subseteq> {c \<in> route_targets (routing t) e incoming f. live c}"
    if "publish_inv cat live D ?K t" for t
    using that route_targets_subscribers [of cat ?D t e incoming f] by (auto simp: publish_inv_def subs_def)
  obtain r t' where run: "match_loop (publish_lookup x e incoming fanout f) (\<lambda>t c. remove_routes_to c t) live ?t = Some (r, t')"
    and res: "ps.loop_result cat live D ?K e incoming f x fanout ?t r t'"
    using ps.match_loop_correct [OF pinv, of x e incoming fanout f] by blast
  have inv': "publish_inv cat live D ?K t'" using res by (simp add: ps.loop_result_def)
  have "case r of
       Inl err \<Rightarrow> err = no_match x e \<and> {c \<in> subs e incoming f. live c} \<subseteq> D
     | Inr out \<Rightarrow> out \<noteq> [] \<and> distinct out \<and> set out \<subseteq> {c \<in> subs e incoming f. live c} \<and>
         (if fanout = 1 then length out = 1 else {c \<in> subs e incoming f. live c} - D \<subseteq> set out)"
  proof (cases r)
    case (Inl err)
    then obtain t1 where "publish_inv cat live D ?K t1" "fst (publish_lookup x e incoming fanout f t1) = Inl err"
      and none: "{c \<in> route_targets (routing ?t) e incoming f. live c} = {}"
      using res by (auto simp: ps.loop_result_def)
    then have "err = no_match x e"
      using publish_lookup_correct [of t1, where x = x and e = e and incoming = incoming and fanout = fanout and f = f] by (simp add: publish_inv_def table_inv_def)
    then show ?thesis using Inl none sub(2) [OF pinv] by auto
  next
    case (Inr out)
    then obtain t1 out1 where t1: "publish_inv cat live D ?K t1"
      "fst (publish_lookup x e incoming fanout f t1) = Inr out1" "out = filter live out1" "out \<noteq> []"
      using res by (auto simp: ps.loop_result_def)
    have inv1: "table_inv cat ?D t1" using t1(1) by (simp add: publish_inv_def)
    have "distinct out" using publish_lookup_distinct [OF inv1 t1(2)] t1(3) by simp
    moreover have "set out \<subseteq> {c \<in> route_targets (routing t1) e incoming f. live c} \<and>
      (if fanout = 1 then length out = 1 else {c \<in> route_targets (routing t1) e incoming f. live c} \<subseteq> set out)"
      using publish_lookup_correct [OF table_invD(1) [OF inv1],
        where x = x and e = e and incoming = incoming and fanout = fanout and f = f] t1(2,3,4)
      by (auto simp: length_Suc_conv split: if_splits)
    ultimately show ?thesis using Inr t1(4) sub [OF t1(1)] by (auto split: if_splits)
  qed
  then show ?thesis using run inv' unfolding on_publish_msg_match_def live_def publish_inv_def by auto
qed

end
