(* ===== verification/Forwarder_Run.thy ===== *)
theory Forwarder_Run
  imports Forwarder
begin

text \<open>
  Runs of the forwarder: the step relation of the calls the message processor makes, and the
  invariant every reachable state has.
\<close>

section \<open>Steps\<close>

text \<open>
  Every step is a call that returns. The message processor passes the type of a connection
  with each call for it; \<open>cat\<close> is that assignment. A subscription comes from a connection in
  the table and carries a complete name.
\<close>

definition subscribe_ok :: "proto_name \<Rightarrow> conn_id \<Rightarrow> 'a forwarder \<Rightarrow> bool" where
  "subscribe_ok n c w \<longleftrightarrow>
     connection_table_contains (fwd_connections w) c \<and> str_name n \<noteq> None \<and>
     (case enc_name n of Some e \<Rightarrow> canonical e | None \<Rightarrow> False)"

inductive fwd_step ::
  "externs \<Rightarrow> (conn_id \<Rightarrow> conn_type) \<Rightarrow> ('ver, 'mac, 'io) conn_forwarder \<Rightarrow> ('ver, 'mac, 'io) conn_forwarder \<Rightarrow> bool"
  for x :: externs and cat :: "conn_id \<Rightarrow> conn_type" where
  established: "(\<And>j. existing = Some j \<Longrightarrow> j < usize_MAX) \<Longrightarrow>
    on_connection_established conn existing w = Some (i, w') \<Longrightarrow> fwd_step x cat w w'"
| dropped: "on_connection_drop x c (cat c) w = Some (m, w') \<Longrightarrow> fwd_step x cat w w'"
| type_changed: "connection_table_update c (set_connection_type ct) (fwd_connections w) = (b, t) \<Longrightarrow>
    fwd_step x cat w (on_connection_type_changed (w\<lparr>fwd_connections := t\<rparr>))"
| subscription: "subscribe_ok n c w \<Longrightarrow> on_subscription_msg x n c (cat c) add sid w = Some (r, w') \<Longrightarrow>
    fwd_step x cat w w'"
| publish: "on_publish_msg_match x e incoming fanout f w = Some (r, w') \<Longrightarrow> fwd_step x cat w w'"
| gateway_enabled: "fwd_step x cat w (set_default_gateway_enabled b w)"
| gateway_pinned: "set_default_gateway c w = (r, w') \<Longrightarrow> fwd_step x cat w w'"
| gateway_cleared: "fwd_step x cat w (clear_default_gateway w)"
| gateway_resolved: "resolve_default_gateway w = Some (g, w') \<Longrightarrow> fwd_step x cat w w'"

inductive fwd_reachable ::
  "externs \<Rightarrow> (conn_id \<Rightarrow> conn_type) \<Rightarrow> ('ver, 'mac, 'io) conn_forwarder \<Rightarrow> bool"
  for x :: externs and cat :: "conn_id \<Rightarrow> conn_type" where
  start: "fwd_reachable x cat forwarder_new"
| step: "fwd_reachable x cat w \<Longrightarrow> fwd_step x cat w w' \<Longrightarrow> fwd_reachable x cat w'"

section \<open>The invariant\<close>

text \<open>
  Every subscription belongs to a connection of the table, no connection has lost routes it
  subscribed to, and a cached gateway is what a scan would find.
\<close>

definition fwd_inv :: "(conn_id \<Rightarrow> conn_type) \<Rightarrow> ('ver, 'mac, 'io) conn_forwarder \<Rightarrow> bool" where
  "fwd_inv cat w \<longleftrightarrow>
     connection_table_inv (fwd_connections w) \<and> table_inv cat {} (subscription_table w) \<and>
     key_conn ` table_keys (subscription_table w) \<subseteq> dom (connection_table_get (fwd_connections w)) \<and>
     (\<exists>edges. edge_conn_ids w = Some edges \<and> cache_ok edges (fwd_gateway w))"

lemma contains_iff: "connection_table_contains t c \<longleftrightarrow> c \<in> dom (connection_table_get t)"
  by (auto simp: connection_table_contains_def connection_table_get_def)

lemma edge_conn_ids_total:
  assumes "connection_table_inv (fwd_connections w)"
  shows "\<exists>edges. edge_conn_ids w = Some edges"
  using pool_iter_with_ids_correct [of "ct_pool (fwd_connections w)"] assms
  by (simp add: edge_conn_ids_def connection_table_for_each_def connection_table_inv_def)

lemma edge_conn_ids_cong: "fwd_connections w' = fwd_connections w \<Longrightarrow> edge_conn_ids w' = edge_conn_ids w"
  by (simp add: edge_conn_ids_def)

lemma fwd_invI:
  assumes "connection_table_inv (fwd_connections w)" "table_inv cat {} (subscription_table w)"
    and "key_conn ` table_keys (subscription_table w) \<subseteq> dom (connection_table_get (fwd_connections w))"
    and "gw_cache (fwd_gateway w) = Dirty"
  shows "fwd_inv cat w"
  using assms edge_conn_ids_total [OF assms(1)] by (simp add: fwd_inv_def cache_ok_def)

lemma fwd_inv_new: "fwd_inv cat forwarder_new"
  using table_inv_default
  by (intro fwd_invI) (simp_all add: forwarder_new_def default_gateway_new_def ct.inv_new)

text \<open>A step that leaves the connection table and the gateway alone keeps the gateway part.\<close>

lemma fwd_inv_table:
  assumes "fwd_inv cat w" "table_inv cat {} t"
    and "key_conn ` table_keys t \<subseteq> dom (connection_table_get (fwd_connections w))"
  shows "fwd_inv cat (w\<lparr>subscription_table := t\<rparr>)"
  using assms edge_conn_ids_cong [of "w\<lparr>subscription_table := t\<rparr>" w] by (simp add: fwd_inv_def)

lemma fwd_inv_gateway:
  assumes "fwd_inv cat w" "\<And>edges. cache_ok edges (fwd_gateway w) \<Longrightarrow> cache_ok edges g"
  shows "fwd_inv cat (w\<lparr>fwd_gateway := g\<rparr>)"
  using assms edge_conn_ids_cong [of "w\<lparr>fwd_gateway := g\<rparr>" w] by (auto simp: fwd_inv_def)

lemma established_inv:
  assumes inv: "fwd_inv cat w" and idx: "\<And>j. existing = Some j \<Longrightarrow> j < usize_MAX"
    and est: "on_connection_established conn existing w = Some (i, w')"
  shows "fwd_inv cat w'"
proof -
  have cinv: "connection_table_inv (fwd_connections w)" using inv by (simp add: fwd_inv_def)
  have w': "subscription_table w' = subscription_table w" "gw_cache (fwd_gateway w') = Dirty"
    using est by (auto simp: on_connection_established_def invalidate_def bind_eq_Some_conv)
  have grow: "connection_table_inv (fwd_connections w') \<and>
    dom (connection_table_get (fwd_connections w)) \<subseteq> dom (connection_table_get (fwd_connections w'))"
  proof (cases existing)
    case None
    then show ?thesis
      using est ct.ins_law [OF cinv, of conn] by (auto simp: on_connection_established_def bind_eq_Some_conv)
  next
    case (Some j)
    then show ?thesis
      using est ct.ins_at_law [OF cinv idx [OF Some], of conn]
      by (auto simp: on_connection_established_def bind_eq_Some_conv)
  qed
  with inv w' have "key_conn ` table_keys (subscription_table w') \<subseteq> dom (connection_table_get (fwd_connections w'))"
    unfolding fwd_inv_def by (metis subset_trans)
  with grow inv w' show ?thesis by (intro fwd_invI) (simp_all add: fwd_inv_def)
qed

lemma dropped_inv:
  assumes inv: "fwd_inv cat w" and drp: "on_connection_drop x c (cat c) w = Some (m, w')"
  shows "fwd_inv cat w'"
    and "table_keys (subscription_table w') = {k \<in> table_keys (subscription_table w). key_conn k \<noteq> c}"
proof -
  have cinv: "connection_table_inv (fwd_connections w)" and tinv: "table_inv cat {} (subscription_table w)"
    using inv by (simp_all add: fwd_inv_def)
  obtain res st where rc: "remove_connection x c (cat c) (subscription_table w) = (res, st)"
    by (cases "remove_connection x c (cat c) (subscription_table w)")
  note rcc = remove_connection_correct [OF tinv rc]
  obtain t where t: "connection_table_inv t"
      "connection_table_get t = (connection_table_get (fwd_connections w))(c := None)"
    and w': "w' = w\<lparr>fwd_connections := t, fwd_gateway := invalidate (fwd_gateway w), subscription_table := st\<rparr>"
    using drp rc ct.rem_law [OF cinv, of c] by (auto simp: on_connection_drop_def bind_eq_Some_conv)
  show keys: "table_keys (subscription_table w') = {k \<in> table_keys (subscription_table w). key_conn k \<noteq> c}"
    using rcc(2) by (simp add: w')
  show "fwd_inv cat w'"
    using t rcc(1) keys inv by (intro fwd_invI) (auto simp: w' invalidate_def fwd_inv_def)
qed

lemma subscription_inv:
  assumes inv: "fwd_inv cat w" and ok: "subscribe_ok n c w"
    and msg: "on_subscription_msg x n c (cat c) add sid w = Some (r, w')"
  shows "fwd_inv cat w'"
proof -
  obtain e where e: "enc_name n = Some e" "canonical e" and c: "c \<in> dom (connection_table_get (fwd_connections w))"
    using ok by (auto simp: subscribe_ok_def contains_iff split: option.splits)
  have tinv: "table_inv cat {} (subscription_table w)" using inv by (simp add: fwd_inv_def)
  show ?thesis
  proof (cases add)
    case True
    then obtain first t where t: "add_subscription n c (cat c) sid (subscription_table w) = Some (first, t)"
      "w' = w\<lparr>subscription_table := t\<rparr>" using msg by (auto simp: on_subscription_msg_def bind_eq_Some_conv)
    show ?thesis
      using add_subscription_correct(1,2) [OF tinv e t(1)] c inv unfolding t(2)
      by (intro fwd_inv_table) (auto simp: fwd_inv_def)
  next
    case False
    then obtain t where t: "remove_subscription x n c (cat c) sid (subscription_table w) = Some (r, t)"
      "w' = w\<lparr>subscription_table := t\<rparr>" using msg by (auto simp: on_subscription_msg_def bind_eq_Some_conv)
    have "table_keys t \<subseteq> table_keys (subscription_table w)"
      using remove_subscription_correct(2) [OF tinv e(1) t(1)] by (cases r) auto
    then show ?thesis
      using remove_subscription_correct(1) [OF tinv e(1) t(1)] inv unfolding t(2)
      by (intro fwd_inv_table) (auto simp: fwd_inv_def)
  qed
qed

lemma publish_fwd_inv:
  assumes inv: "fwd_inv cat w" and pub: "on_publish_msg_match x e incoming fanout f w = Some (r, w')"
  shows "fwd_inv cat w'"
proof -
  let ?live = "connection_table_contains (fwd_connections w)"
  have tinv: "table_inv cat {} (subscription_table w)" using inv by (simp add: fwd_inv_def)
  obtain t' where w': "w' = w\<lparr>subscription_table := t'\<rparr>" and t': "table_inv cat {c. \<not> ?live c} t'"
    "table_keys t' = table_keys (subscription_table w)"
    using on_publish_msg_match_correct [OF tinv, of x e incoming fanout f] pub by auto
  have "key_conn k \<notin> {c. \<not> ?live c}" if "k \<in> table_keys t'" for k
    using that inv t'(2) by (auto simp: fwd_inv_def contains_iff)
  then have "table_inv cat {} t'" using t'(1) unfolding table_inv_def by blast
  then show ?thesis using inv t'(2) unfolding w' by (intro fwd_inv_table) (auto simp: fwd_inv_def)
qed

lemma fwd_step_inv:
  assumes "fwd_step x cat w w'" "fwd_inv cat w"
  shows "fwd_inv cat w'"
  using assms(1)
proof (cases rule: fwd_step.cases)
  case (established existing conn i)
  show ?thesis by (rule established_inv [OF assms(2) established])
next
  case (type_changed c ct b t)
  then show ?thesis
    using assms(2) connection_table_update_correct [of "fwd_connections w" c "set_connection_type ct"]
    by (intro fwd_invI)
       (auto simp: fwd_inv_def on_connection_type_changed_def invalidate_def dom_def split: if_splits)
next
  case (gateway_pinned c r)
  then have "w' = w \<or> w' = w\<lparr>fwd_gateway := set_explicit (Some c) (fwd_gateway w)\<rparr>"
    by (auto simp: set_default_gateway_def split: option.splits if_splits)
  then show ?thesis
    using assms(2) fwd_inv_gateway [OF assms(2), of "set_explicit (Some c) (fwd_gateway w)"]
    by (auto simp: cache_ok_def set_explicit_def)
next
  case (gateway_resolved g)
  obtain edges where edges: "edge_conn_ids w = Some edges" "cache_ok edges (fwd_gateway w)"
    using assms(2) by (auto simp: fwd_inv_def)
  then obtain g' where "w' = w\<lparr>fwd_gateway := g'\<rparr>" "cache_ok edges g'"
    using gateway_resolved resolve_correct [OF edges(2)] by (auto simp: resolve_default_gateway_def)
  then show ?thesis
    using assms(2) edges edge_conn_ids_cong [of w' w] by (simp add: fwd_inv_def)
qed (use assms(2) dropped_inv(1) subscription_inv publish_fwd_inv in
      \<open>auto simp: cache_ok_def set_default_gateway_enabled_def clear_default_gateway_def set_enabled_def
        set_explicit_def invalidate_def intro!: fwd_inv_gateway\<close>)

lemma fwd_reachable_inv: "fwd_reachable x cat w \<Longrightarrow> fwd_inv cat w"
  by (induction rule: fwd_reachable.induct) (auto intro: fwd_inv_new fwd_step_inv)

text \<open>A publish lookup in a reachable state: it returns, and it changes the subscription table only.\<close>

lemma publish_reachable:
  assumes "fwd_reachable x cat w"
  shows "\<exists>r t'. on_publish_msg_match x e incoming fanout f w = Some (r, w\<lparr>subscription_table := t'\<rparr>) \<and>
    fwd_reachable x cat (w\<lparr>subscription_table := t'\<rparr>) \<and>
    (let S = subscribers cat (table_keys (subscription_table w)) e incoming f in
     case r of
       Inl err \<Rightarrow> err = no_match x e \<and> S = {}
     | Inr out \<Rightarrow> distinct out \<and> (if fanout = 1 then \<exists>c\<in>S. out = [c] else S \<noteq> {} \<and> set out = S))"
proof -
  let ?S = "subscribers cat (table_keys (subscription_table w)) e incoming f"
  from fwd_reachable_inv [OF assms] have inv: "table_inv cat {} (subscription_table w)"
    and live: "key_conn ` table_keys (subscription_table w) \<subseteq> dom (connection_table_get (fwd_connections w))"
    by (auto simp: fwd_inv_def)
  have all: "{c \<in> ?S. connection_table_contains (fwd_connections w) c} = ?S"
    using live by (auto simp: subscribers_def contains_iff)
  from on_publish_msg_match_correct [OF inv, where x = x and e = e and incoming = incoming and fanout = fanout and f = f,
      unfolded all] obtain r t' where
    run: "on_publish_msg_match x e incoming fanout f w = Some (r, w\<lparr>subscription_table := t'\<rparr>)"
    and res: "case r of Inl err \<Rightarrow> err = no_match x e \<and> ?S \<subseteq> {}
      | Inr out \<Rightarrow> out \<noteq> [] \<and> distinct out \<and> set out \<subseteq> ?S \<and> (if fanout = 1 then length out = 1 else ?S - {} \<subseteq> set out)"
    by (elim exE conjE)
  have "fwd_reachable x cat (w\<lparr>subscription_table := t'\<rparr>)"
    using assms fwd_step.publish [OF run] by (rule fwd_reachable.step)
  moreover have "case r of Inl err \<Rightarrow> err = no_match x e \<and> ?S = {}
     | Inr out \<Rightarrow> distinct out \<and> (if fanout = 1 then \<exists>c\<in>?S. out = [c] else ?S \<noteq> {} \<and> set out = ?S)"
  proof (cases r)
    case (Inr out)
    with res have out: "out \<noteq> []" "distinct out" "set out \<subseteq> ?S" by simp_all
    show ?thesis
    proof (cases "fanout = 1")
      case True
      with res Inr obtain c where "out = [c]" by (auto simp: length_Suc_conv)
      then show ?thesis using Inr True out(3) by simp
    next
      case False
      then show ?thesis using res Inr out by auto
    qed
  qed (use res in simp)
  ultimately show ?thesis unfolding Let_def using run by (intro exI conjI)
qed

end
