(* ===== verification/Datapath_Properties.thy ===== *)
theory Datapath_Properties
  imports Forwarder_Run Messages
begin

text \<open>
  The correctness properties of the forwarding side (names, tables, gateway, forwarder), each
  followed by a run of the model on a concrete input. The example run below registers one local
  and one peer connection and subscribes both to the same name.
\<close>

section \<open>An example run\<close>

definition demo_externs :: externs where
  "demo_externs =
     \<lparr>calculate_hash = (\<lambda>s. of_nat (length s)), uuid_to_string = (\<lambda>u. CHR ''x'' # replicate (unat u) (CHR ''a'')),
      uuid_parse = (\<lambda>s. Some (of_nat (length s - 1))), build_version = ''1.0''\<rparr>"

definition demo_name :: proto_name where
  "demo_name = from_strings demo_externs ''org'' ''ns'' ''app''"

definition demo_enc :: encoded_name where
  "demo_enc = \<lparr>component_0 = 3, component_1 = 2, component_2 = 3, enc_id = Some (name_id_from_u128 NULL_COMPONENT)\<rparr>"

definition demo_cat :: "conn_id \<Rightarrow> conn_type" where
  "demo_cat c = (if c = 1 then Peer else Local)"

type_synonym demo_forwarder = "(unit, unit, unit) conn_forwarder"

definition demo_connect :: "conn_type \<Rightarrow> demo_forwarder \<Rightarrow> demo_forwarder" where
  "demo_connect ct w = snd (the (on_connection_established (connection_new ct ()) None w))"

definition demo_subscribe :: "conn_id \<Rightarrow> sub_id \<Rightarrow> demo_forwarder \<Rightarrow> demo_forwarder" where
  "demo_subscribe c sid w = snd (the (on_subscription_msg demo_externs demo_name c (demo_cat c) True sid w))"

definition demo_connected :: demo_forwarder where
  "demo_connected = demo_connect Peer (demo_connect Local forwarder_new)"

definition demo_forwarder :: demo_forwarder where
  "demo_forwarder = demo_subscribe 1 8 (demo_subscribe 0 7 demo_connected)"

lemma demo_name_enc: "enc_name demo_name = Some demo_enc" "str_name demo_name \<noteq> None" "canonical demo_enc"
  by (simp_all add: demo_name_def from_strings_def demo_externs_def demo_enc_def canonical_def)

lemma demo_connect_reachable:
  assumes "fwd_reachable x cat w"
  shows "fwd_reachable x cat (demo_connect ct w)"
proof -
  have "connection_table_inv (fwd_connections w)" using fwd_reachable_inv [OF assms] by (simp add: fwd_inv_def)
  from ct.ins_law [OF this, of "connection_new ct ()"]
  obtain i t where "connection_table_insert (connection_new ct ()) (fwd_connections w) = Some (i, t)"
    by (elim exE conjE)
  then have "on_connection_established (connection_new ct ()) None w = Some (Some i, demo_connect ct w)"
    by (simp add: demo_connect_def on_connection_established_def)
  then have "fwd_step x cat w (demo_connect ct w)" by (rule fwd_step.established [rotated]) simp
  then show ?thesis by (rule fwd_reachable.step [OF assms])
qed

lemma demo_subscribe_reachable:
  assumes "fwd_reachable demo_externs demo_cat w" "connection_table_contains (fwd_connections w) c"
  shows "fwd_reachable demo_externs demo_cat (demo_subscribe c sid w)"
proof -
  have ok: "subscribe_ok demo_name c w" using assms(2) demo_name_enc by (simp add: subscribe_ok_def)
  obtain first t where "add_subscription demo_name c (demo_cat c) sid (subscription_table w) = Some (first, t)"
    using add_subscription_total [OF demo_name_enc(1,2)] by fastforce
  then have "on_subscription_msg demo_externs demo_name c (demo_cat c) True sid w =
    Some (Inr first, demo_subscribe c sid w)"
    by (simp add: demo_subscribe_def on_subscription_msg_def)
  with ok have "fwd_step demo_externs demo_cat w (demo_subscribe c sid w)" by (rule fwd_step.subscription)
  then show ?thesis by (rule fwd_reachable.step [OF assms(1)])
qed

lemma demo_connected_reachable: "fwd_reachable demo_externs demo_cat demo_connected"
  unfolding demo_connected_def by (intro demo_connect_reachable fwd_reachable.start)

lemma demo_contains: "connection_table_contains (fwd_connections demo_connected) 0"
  "connection_table_contains (fwd_connections (demo_subscribe 0 7 demo_connected)) 1"
  by code_simp+

lemma demo_reachable: "fwd_reachable demo_externs demo_cat demo_forwarder"
  unfolding demo_forwarder_def
  by (intro demo_subscribe_reachable demo_connected_reachable demo_contains)

lemma demo_key_list:
  "hkeys (subscriptions (sub_state (subscription_table demo_forwarder))) =
     [\<lparr>key_conn = 0, key_sub = 7, key_encoded = demo_enc\<rparr>, \<lparr>key_conn = 1, key_sub = 8, key_encoded = demo_enc\<rparr>]"
  by code_simp

lemma demo_keys:
  "table_keys (subscription_table demo_forwarder) =
     {\<lparr>key_conn = 0, key_sub = 7, key_encoded = demo_enc\<rparr>, \<lparr>key_conn = 1, key_sub = 8, key_encoded = demo_enc\<rparr>}"
  unfolding table_keys_def sub_keys_def demo_key_list by simp


section \<open>The forwarder\<close>








text \<open>
  C21. A message from a peer is looked up with the filter that excludes peers, unless the node relays
  peer publishes; it is then never handed to a peer again nor back to the connection it came from.
\<close>

theorem peer_split_horizon:
  assumes "fwd_reachable x cat w"
    and "on_publish_msg_match x e incoming fanout match_filter_EXCLUDE_PEER w = Some (Inr out, w')"
    and "c \<in> set out"
  shows "cat c \<noteq> Peer \<and> c \<noteq> incoming"
proof -
  from fwd_reachable_inv [OF assms(1)] have tab: "table_inv cat {} (subscription_table w)" by (simp add: fwd_inv_def)
  from on_publish_msg_match_correct [OF tab, where x = x and e = e and incoming = incoming and fanout = fanout
      and f = match_filter_EXCLUDE_PEER]
  have "set out \<subseteq> subscribers cat (table_keys (subscription_table w)) e incoming match_filter_EXCLUDE_PEER"
    using assms(2) by fastforce
  with assms(3) show ?thesis
    by (auto simp: subscribers_def filter_includes_def match_filter_EXCLUDE_PEER_def split: if_splits)
qed

lemma demo_publish_no_peer:
  "map_option fst (on_publish_msg_match demo_externs demo_enc 9 2 match_filter_EXCLUDE_PEER demo_forwarder) = Some (Inr [0])"
  by code_simp

theorem peer_split_horizon_witness:
  "\<exists>out w'. on_publish_msg_match demo_externs demo_enc 9 2 match_filter_EXCLUDE_PEER demo_forwarder = Some (Inr out, w') \<and>
     0 \<in> set out \<and> demo_cat 0 \<noteq> Peer \<and> (0::nat) \<noteq> 9"
proof -
  obtain w' where run: "on_publish_msg_match demo_externs demo_enc 9 2 match_filter_EXCLUDE_PEER demo_forwarder =
      Some (Inr [0], w')"
    using demo_publish_no_peer by (auto simp: map_option_case split: option.splits)
  from peer_split_horizon [OF demo_reachable this, of 0] run show ?thesis by simp
qed


text \<open>
  C20. The default gateway of a reachable state never comes from a stale cache: the answer is the
  pinned connection if it is a live Edge connection, nothing if it is not, and without a pin the
  only live Edge connection (or ambiguous, or empty), as a fresh scan of the table gives it.
\<close>

theorem gateway_fresh:
  assumes "fwd_reachable x cat w"
  shows "\<exists>edges w'. distinct edges \<and>
    set edges = {c. \<exists>conn. get_connection w c = Some conn \<and> connection_type conn = Edge} \<and>
    resolve_default_gateway w =
      Some (resolve_spec (gw_explicit (fwd_gateway w)) (gw_enabled (fwd_gateway w)) edges, w') \<and>
    fwd_reachable x cat w'"
proof -
  from fwd_reachable_inv [OF assms] obtain edges where inv: "connection_table_inv (fwd_connections w)"
    and edges: "edge_conn_ids w = Some edges" "cache_ok edges (fwd_gateway w)"
    by (auto simp: fwd_inv_def)
  from inv have pool: "pool_inv (ct_pool (fwd_connections w))" by (simp add: connection_table_inv_def)
  have eq: "edges = filter (\<lambda>i. connection_type (the (get_connection w i)) = Edge) (pool_ids (ct_pool (fwd_connections w)))"
    using edges(1) by (simp add: edge_conn_ids_def connection_table_for_each_def pool_iter_with_ids_correct [OF pool]
        filter_map comp_def get_connection_def connection_table_get_def)
  have "set (pool_ids (ct_pool (fwd_connections w))) = dom (get_connection w)"
    using pool_ids_correct [OF pool] by (simp add: get_connection_def connection_table_get_def dom_def)
  then have set: "set edges = {c. \<exists>conn. get_connection w c = Some conn \<and> connection_type conn = Edge}"
    unfolding eq by auto
  have dist: "distinct edges" using pool_ids_correct [OF pool] unfolding eq by simp
  obtain w' where res: "resolve_default_gateway w =
      Some (resolve_spec (gw_explicit (fwd_gateway w)) (gw_enabled (fwd_gateway w)) edges, w')"
    using resolve_correct [OF edges(2)] edges(1) by (auto simp: resolve_default_gateway_def)
  have "fwd_step x cat w w'" using res by (rule fwd_step.gateway_resolved)
  with assms have "fwd_reachable x cat w'" by (rule fwd_reachable.step)
  with dist set res show ?thesis by (intro exI conjI)
qed

theorem gateway_fresh_witness:
  "fwd_reachable demo_externs demo_cat (demo_connect Edge demo_forwarder) \<and>
   (\<exists>edges w'. distinct edges \<and> resolve_default_gateway (demo_connect Edge demo_forwarder) =
      Some (resolve_spec None True edges, w'))"
proof -
  have reach: "fwd_reachable demo_externs demo_cat (demo_connect Edge demo_forwarder)"
    by (intro demo_connect_reachable demo_reachable)
  have "gw_explicit (fwd_gateway (demo_connect Edge demo_forwarder)) = None"
    "gw_enabled (fwd_gateway (demo_connect Edge demo_forwarder))"
    by code_simp+
  with gateway_fresh [OF reach] reach show ?thesis by (elim exE conjE) auto
qed

section \<open>The subscription table\<close>

text \<open>
  C12. On a consistent table the lookups are exact: \<open>match_all\<close> returns every subscribed connection
  the filter admits once and nothing else, \<open>match_one\<close> returns one of them, and both fail with
  \<open>NoMatchEncoded\<close> exactly when there is none.
\<close>

theorem match_exact:
  assumes "table_inv cat {} t"
  shows "(case match_all x e skip f t of
      Inl err \<Rightarrow> err = no_match x e \<and> subscribers cat (table_keys t) e skip f = {}
    | Inr out \<Rightarrow> out \<noteq> [] \<and> distinct out \<and> set out = subscribers cat (table_keys t) e skip f) \<and>
    (case fst (match_one x e skip f t) of
      Inl err \<Rightarrow> err = no_match x e \<and> subscribers cat (table_keys t) e skip f = {}
    | Inr c \<Rightarrow> c \<in> subscribers cat (table_keys t) e skip f)" (is "?all \<and> ?one")
proof
  have wf: "routing_wf (routing t)" using assms by (simp add: table_inv_def)
  have targets: "route_targets (routing t) e skip f = subscribers cat (table_keys t) e skip f"
    using route_targets_subscribers [OF assms, of e skip f] by auto
  show ?all
    using match_all_routes [OF wf, where x = x and e = e and skip = skip and f = f]
      match_all_distinct [OF assms, where x = x and e = e and skip = skip and f = f]
    unfolding targets by (cases "match_all x e skip f t") simp_all
  show ?one
    using match_one_routes [OF wf, where x = x and e = e and skip = skip and f = f] unfolding targets .
qed

lemma demo_table_inv: "table_inv demo_cat {} (subscription_table demo_forwarder)"
  using fwd_reachable_inv [OF demo_reachable] by (simp add: fwd_inv_def)

theorem match_exact_witness:
  "match_all demo_externs demo_enc 0 match_filter_ALL (subscription_table demo_forwarder) = Inr [1] \<and>
   table_inv demo_cat {} (subscription_table demo_forwarder) \<and>
   subscribers demo_cat (table_keys (subscription_table demo_forwarder)) demo_enc 0 match_filter_ALL = {1}"
proof -
  have run: "match_all demo_externs demo_enc 0 match_filter_ALL (subscription_table demo_forwarder) = Inr [1]"
    by code_simp
  then show ?thesis
    using match_exact [OF demo_table_inv, where x = demo_externs and e = demo_enc and skip = 0 and f = match_filter_ALL]
      demo_table_inv by simp
qed





text \<open>
  C18. Removing a connection from a consistent table removes all its subscriptions and routes and
  nothing else, and reports for every name exactly the subscription ids the connection had there;
  it is an error exactly when the connection had none.
\<close>

theorem remove_connection_exact:
  assumes inv: "table_inv cat D t"
  shows "case remove_connection x c (cat c) t of (res, t') \<Rightarrow>
    table_inv cat (D - {c}) t' \<and> table_keys t' = {k \<in> table_keys t. key_conn k \<noteq> c} \<and>
    routes (routing t') = {r \<in> routes (routing t). snd (snd (snd r)) \<noteq> c} \<and>
    (case res of
       Inl err \<Rightarrow> (\<forall>k\<in>table_keys t. key_conn k \<noteq> c)
     | Inr m \<Rightarrow> (\<exists>k\<in>table_keys t. key_conn k = c) \<and>
         (\<forall>n. ids_at m n =
            {key_sub k | k. k \<in> table_keys t \<and> key_conn k = c \<and> record_name x (routing t) (key_encoded k) = n}))"
proof -
  obtain res t' where run: "remove_connection x c (cat c) t = (res, t')" by fastforce
  note r = remove_connection_correct [OF inv run]
  have "routes (routing t') = {r \<in> routes (routing t). snd (snd (snd r)) \<noteq> c}"
    unfolding r(3) by auto
  moreover have "case res of
       Inl err \<Rightarrow> (\<forall>k\<in>table_keys t. key_conn k \<noteq> c)
     | Inr m \<Rightarrow> (\<exists>k\<in>table_keys t. key_conn k = c) \<and>
         (\<forall>n. ids_at m n =
            {key_sub k | k. k \<in> table_keys t \<and> key_conn k = c \<and> record_name x (routing t) (key_encoded k) = n})"
    using r(4) run remove_connection_report [OF inv, where x = x and c = c and ct = "cat c" and t' = t']
    by (cases res) simp_all
  ultimately show ?thesis using run r(1,2) by simp
qed

theorem remove_connection_exact_witness:
  "case remove_connection demo_externs 1 (demo_cat 1) (subscription_table demo_forwarder) of (res, t') \<Rightarrow>
    table_inv demo_cat {} t' \<and> table_keys t' = {\<lparr>key_conn = 0, key_sub = 7, key_encoded = demo_enc\<rparr>}"
  using remove_connection_exact [OF demo_table_inv, where x = demo_externs and c = 1]
  unfolding demo_keys by (auto split: prod.splits)





section \<open>Connections\<close>



text \<open>
  C24. The pool's round robin is fair: as long as the 64-bit cursor does not wrap, as many
  consecutive picks as there are live elements pick every one of them exactly once.
\<close>

theorem round_robin_fair:
  assumes inv: "pool_inv p" and room: "unat (pool_cursor p) + length (pool_ids p) \<le> 2 ^ 64"
  shows "mset (pool_next_ids (length (pool_ids p)) p) = mset (map Some (pool_ids p))"
proof (cases "pool_ids p = []")
  case False
  let ?c = "unat (pool_cursor p)"
  have "pool_next_ids (length (pool_ids p)) p = map Some (rotate ?c (pool_ids p))"
    using pool_next_ids_nth [of p "length (pool_ids p)"] False room
    by (intro nth_equalityI) (simp_all add: pool_ids_def nth_rotate)
  moreover have "mset (rotate ?c (pool_ids p)) = mset (pool_ids p)"
    by (metis append_take_drop_id mset_append rotate_drop_take union_commute)
  ultimately show ?thesis by simp
qed simp

theorem round_robin_fair_witness:
  "mset (pool_next_ids (length (pool_ids (ct_pool (fwd_connections demo_forwarder)))) (ct_pool (fwd_connections demo_forwarder))) =
   {#Some 0, Some 1#}"
proof -
  have "pool_inv (ct_pool (fwd_connections demo_forwarder))"
    using fwd_reachable_inv [OF demo_reachable] by (simp add: fwd_inv_def connection_table_inv_def)
  moreover have "pool_ids (ct_pool (fwd_connections demo_forwarder)) = [0, 1]"
    "pool_cursor (ct_pool (fwd_connections demo_forwarder)) = 0" by code_simp+
  ultimately show ?thesis using round_robin_fair [of "ct_pool (fwd_connections demo_forwarder)"] by simp
qed

lemma connection_new_unnegotiated: "\<not> is_negotiated (connection_new ct io)"
  by (simp add: is_negotiated_def connection_new_def)

text \<open>
  Link negotiation completes at most once per connection: whatever sequence of server-side and
  client-side completions is attempted, at most one reports success, and the connection counts as
  negotiated exactly when one did.
\<close>

lemma negotiated_once:
  "case negotiate_all ns (connection_new ct io) of (results, conn) \<Rightarrow>
     length (filter id results) \<le> 1 \<and> (is_negotiated conn \<longleftrightarrow> length (filter id results) = 1)"
  by (simp add: split_beta negotiate_all_once connection_new_unnegotiated del: One_nat_def)

section \<open>Names and messages\<close>

text \<open>
  A name id survives the split into two 64-bit halves in both directions, and its textual
  form parses back to it, given that the UUID crate parses what it prints and never prints the
  reserved word.
\<close>

lemma name_id_roundtrip:
  assumes "\<And>u. uuid_parse x (uuid_to_string x u) = Some u" "\<And>u. uuid_to_string x u \<noteq> ''NULL_COMPONENT''"
  shows "u128_from_name_id (name_id_from_u128 i) = i \<and> name_id_from_u128 (u128_from_name_id n) = n \<and>
    name_id_try_from x (name_id_to_string x n) = Inr n"
  using assms u128_from_name_id_from_u128 name_id_from_u128_from_name_id
  by (auto simp: name_id_try_from_def name_id_to_string_def Let_def) metis




text \<open>
  C32. \<open>validate\<close> does not look at the string form of a name, but adding a subscription to a
  prefix the table does not hold yet needs it: a Subscribe message whose destination has only an
  encoded name passes validation and makes \<open>add_subscription\<close> panic.
\<close>

theorem validated_subscribe_panics:
  assumes "enc_name n = Some e" "str_name n = None" "hget (routing t) (enc_prefix e) = None"
    and "build_subscribe x (builder_new\<lparr>b_source := Some n, b_destination := Some n\<rparr>) = Inr m"
  shows "validate m = Inr () \<and> get_dst m = Some n \<and> add_subscription n c ct sid t = None"
  using assms
  by (auto simp: build_subscribe_def build_subscription_def validate_def validate_subscribe_def
      validate_routed_header_def slim_header_new_def builder_new_def accessor_defs add_subscription_def
      str_components_def)

theorem validated_subscribe_panics_witness:
  "\<exists>m. build_subscribe demo_externs (builder_new\<lparr>b_source := Some (demo_name\<lparr>str_name := None\<rparr>),
       b_destination := Some (demo_name\<lparr>str_name := None\<rparr>)\<rparr>) = Inr m \<and> validate m = Inr () \<and>
     add_subscription (demo_name\<lparr>str_name := None\<rparr>) 0 Local 1 sub_table_default = None"
proof -
  let ?n = "demo_name\<lparr>str_name := None\<rparr>"
  obtain m where m: "build_subscribe demo_externs (builder_new\<lparr>b_source := Some ?n, b_destination := Some ?n\<rparr>) = Inr m"
    by (simp add: build_subscribe_def build_subscription_def builder_new_def)
  have "enc_name ?n = Some demo_enc" using demo_name_enc(1) by simp
  from validated_subscribe_panics [OF this _ _ m, of sub_table_default 0 Local 1] m
  show ?thesis by (simp add: sub_table_default_def)
qed

end
