(* ===== verification/Timer.thy ===== *)
theory Timer
  imports Messages
begin

text \<open>
  Timers of the session layer: \<open>Timer\<close> (\<^verbatim>\<open>crates/session/src/timer.rs\<close>) and
  \<open>TimerFactory\<close> (\<^verbatim>\<open>crates/session/src/timer_factory.rs\<close>). The task a timer spawns is a
  state machine: one step per expiry, until the failure or the cancellation. A duration is a
  number of nanoseconds; multiplying one beyond the largest panics, which stops the task.
\<close>

section \<open>Settings, timers and the factory\<close>

datatype timer_type = Constant | Exponential

type_synonym duration = nat

definition duration_MAX :: duration where
  "duration_MAX = 2 ^ 64 * 10 ^ 9 - 1"

record timer_settings =
  ts_duration :: duration
  ts_max_duration :: "duration option"
  ts_max_retries :: "nat option"
  ts_timer_type :: timer_type

definition settings_constant :: "duration \<Rightarrow> timer_settings" where
  "settings_constant d =
     \<lparr>ts_duration = d, ts_max_duration = None, ts_max_retries = None, ts_timer_type = Constant\<rparr>"

definition settings_exponential :: "duration \<Rightarrow> duration option \<Rightarrow> timer_settings" where
  "settings_exponential d m =
     \<lparr>ts_duration = d, ts_max_duration = m, ts_max_retries = None, ts_timer_type = Exponential\<rparr>"

definition with_max_retries :: "nat \<Rightarrow> timer_settings \<Rightarrow> timer_settings" where
  "with_max_retries n s = s\<lparr>ts_max_retries := Some n\<rparr>"

text \<open>
  A timer, with the observer it was started with: the message type and the name its
  notifications carry. \<open>tm_running\<close> says that the task of its current token is not cancelled;
  dropping the timer cancels it too, so a timer runs only while its owner keeps it.
\<close>

record timer =
  tm_id :: nat
  tm_settings :: timer_settings
  tm_message_type :: session_message_type
  tm_name :: "encoded_name option"
  tm_running :: bool

definition create_and_start_timer ::
  "timer_settings \<Rightarrow> nat \<Rightarrow> session_message_type \<Rightarrow> encoded_name option \<Rightarrow> timer" where
  "create_and_start_timer s i mt name =
     \<lparr>tm_id = i, tm_settings = s, tm_message_type = mt, tm_name = name, tm_running = True\<rparr>"

definition timer_stop :: "timer \<Rightarrow> timer" where
  "timer_stop t = t\<lparr>tm_running := False\<rparr>"

definition timer_reset :: "timer \<Rightarrow> timer" where
  "timer_reset t = (timer_stop t)\<lparr>tm_running := True\<rparr>"

section \<open>The task\<close>

text \<open>The local variables of the spawned task; \<open>retry\<close> and \<open>timeouts\<close> are \<open>u32\<close>.\<close>

record timer_task =
  tk_retry :: nat
  tk_timeouts :: nat
  tk_last_duration :: duration

definition task_start :: "timer_settings \<Rightarrow> timer_task" where
  "task_start s = \<lparr>tk_retry = 0, tk_timeouts = 0, tk_last_duration = ts_duration s\<rparr>"

text \<open>The next sleep of the task, \<open>None\<close> on an overflow of \<open>last_duration * 2\<close>.\<close>

definition next_duration :: "timer_settings \<Rightarrow> timer_task \<Rightarrow> (duration \<times> timer_task) option" where
  "next_duration s k =
     (case ts_timer_type s of
        Constant \<Rightarrow> Some (ts_duration s, k)
      | Exponential \<Rightarrow>
          (let d = (if tk_timeouts k \<noteq> 0 then tk_last_duration k * 2 else ts_duration s) in
           if tk_timeouts k \<noteq> 0 \<and> d > duration_MAX then None
           else
             (case ts_max_duration s of
                None \<Rightarrow> Some (d, k\<lparr>tk_last_duration := d\<rparr>)
              | Some m \<Rightarrow>
                  if d > m then Some (m, k\<lparr>tk_last_duration := m\<rparr>)
                  else Some (d, k\<lparr>tk_last_duration := d\<rparr>))))"

datatype timer_event = TimerTimeout nat | TimerFailure nat

text \<open>
  One expiry: what the observer is told, and the task afterwards, \<open>None\<close> when it broke out of
  the loop.
\<close>

definition task_expired :: "timer_settings \<Rightarrow> timer_task \<Rightarrow> timer_event \<times> timer_task option" where
  "task_expired s k =
     (let n = (tk_timeouts k + 1) mod 2 ^ 32;
          k' = k\<lparr>tk_timeouts := n, tk_retry := (tk_retry k + 1) mod 2 ^ 32\<rparr>
      in case ts_max_retries s of
           Some m \<Rightarrow> if tk_retry k < m then (TimerTimeout n, Some k') else (TimerFailure n, None)
         | None \<Rightarrow> (TimerTimeout n, Some k'))"

text \<open>
  The run of the task over \<open>fuel\<close> expiries with no cancellation: each sleep with its event.
\<close>

fun task_run :: "nat \<Rightarrow> timer_settings \<Rightarrow> timer_task \<Rightarrow> (duration \<times> timer_event) list" where
  "task_run 0 s k = []"
| "task_run (Suc fuel) s k =
     (case next_duration s k of
        None \<Rightarrow> []
      | Some (d, k1) \<Rightarrow>
          (case task_expired s k1 of
             (ev, None) \<Rightarrow> [(d, ev)]
           | (ev, Some k2) \<Rightarrow> (d, ev) # task_run fuel s k2))"

section \<open>What a run does\<close>

text \<open>The sleep before the \<open>n\<close>-th expiry of a backoff that does not overflow.\<close>

definition backoff :: "timer_settings \<Rightarrow> nat \<Rightarrow> duration" where
  "backoff s n =
     (case ts_timer_type s of
        Constant \<Rightarrow> ts_duration s
      | Exponential \<Rightarrow>
          (case ts_max_duration s of
             None \<Rightarrow> ts_duration s * 2 ^ n
           | Some m \<Rightarrow> min m (ts_duration s * 2 ^ n)))"

text \<open>The task after \<open>n\<close> timeouts, with the last sleep it made.\<close>

definition task_at :: "timer_settings \<Rightarrow> nat \<Rightarrow> timer_task \<Rightarrow> bool" where
  "task_at s n k \<longleftrightarrow> tk_timeouts k = n \<and> tk_retry k = n \<and>
     (n > 0 \<longrightarrow> ts_timer_type s = Exponential \<longrightarrow> tk_last_duration k = backoff s (n - 1))"

lemma next_duration_backoff:
  assumes "task_at s n k" "ts_timer_type s = Exponential \<Longrightarrow> n > 0 \<Longrightarrow> backoff s (n - 1) * 2 \<le> duration_MAX"
  shows "\<exists>k'. next_duration s k = Some (backoff s n, k') \<and> tk_timeouts k' = n \<and> tk_retry k' = n \<and>
    (ts_timer_type s = Exponential \<longrightarrow> tk_last_duration k' = backoff s n)"
proof (cases "ts_timer_type s = Exponential \<and> n > 0")
  case True
  then have pow: "(2::nat) ^ n = 2 * 2 ^ (n - 1)" by (cases n) simp_all
  have "tk_last_duration k * 2 = backoff s (n - 1) * 2" "tk_last_duration k * 2 \<le> duration_MAX" "tk_timeouts k = n"
    using assms True by (simp_all add: task_at_def)
  then show ?thesis
    using True assms(1) pow
    by (auto simp: next_duration_def task_at_def backoff_def Let_def min_def split: option.splits if_splits)
next
  case False
  then show ?thesis
    using assms(1)
    by (cases "ts_timer_type s") (auto simp: next_duration_def task_at_def backoff_def Let_def split: option.splits)
qed

lemma task_run_prefix:
  assumes "task_at s n k" "ts_max_retries s = Some m" "n \<le> m" "m < 2 ^ 32 - 1" "fuel = Suc (m - n)"
    and "ts_timer_type s = Exponential \<Longrightarrow> (\<And>i. i < m \<Longrightarrow> backoff s i * 2 \<le> duration_MAX)"
  shows "task_run fuel s k =
    map (\<lambda>i. (backoff s i, TimerTimeout (i + 1))) [n..<m] @ [(backoff s m, TimerFailure (m + 1))]"
  using assms
proof (induction "m - n" arbitrary: n k fuel)
  case 0
  then obtain k' where k': "next_duration s k = Some (backoff s n, k')" "tk_timeouts k' = n" "tk_retry k' = n"
    using next_duration_backoff [OF "0.prems"(1)] by fastforce
  have "n = m" using 0 by simp
  then show ?case using "0.prems" k' by (simp add: task_expired_def Let_def)
next
  case (Suc j)
  have nm: "n < m" using Suc.hyps(2) by simp
  have dur: "ts_timer_type s = Exponential \<Longrightarrow> n > 0 \<Longrightarrow> backoff s (n - 1) * 2 \<le> duration_MAX"
    using Suc.prems(6) nm by simp
  obtain k' where k': "next_duration s k = Some (backoff s n, k')" "tk_timeouts k' = n" "tk_retry k' = n"
      "ts_timer_type s = Exponential \<longrightarrow> tk_last_duration k' = backoff s n"
    using next_duration_backoff [OF Suc.prems(1) dur] by blast
  let ?k2 = "k'\<lparr>tk_timeouts := Suc n, tk_retry := Suc n\<rparr>"
  have ex: "task_expired s k' = (TimerTimeout (Suc n), Some ?k2)"
    using k' nm Suc.prems(2,4) by (simp add: task_expired_def Let_def)
  have at: "task_at s (Suc n) ?k2" using k' by (simp add: task_at_def)
  have "task_run (m - n) s ?k2 =
    map (\<lambda>i. (backoff s i, TimerTimeout (i + 1))) [Suc n..<m] @ [(backoff s m, TimerFailure (m + 1))]"
  proof (rule Suc.hyps(1) [OF _ at Suc.prems(2) _ Suc.prems(4)])
    show "j = m - Suc n" "Suc n \<le> m" "m - n = Suc (m - Suc n)" using Suc.hyps(2) by simp_all
  qed (use Suc.prems(6) in blast)
  then show ?case
    using Suc.prems(5) k'(1) ex nm by (simp add: upt_conv_Cons del: upt_Suc)
qed

lemma task_at_start: "task_at s 0 (task_start s)"
  by (simp add: task_at_def task_start_def)

text \<open>More fuel changes nothing once the failure is reported: the run is over.\<close>

lemma task_run_fuel:
  assumes "task_run n s k = xs @ [(d, TimerFailure f)]" "n \<le> n'"
  shows "task_run n' s k = task_run n s k"
  using assms
proof (induction n arbitrary: k n' xs)
  case (Suc n)
  obtain n1 where n': "n' = Suc n1" "n \<le> n1" using Suc.prems(2) by (cases n') auto
  show ?case
  proof (cases "next_duration s k")
    case None
    then show ?thesis using Suc.prems(1) by simp
  next
    case (Some dk)
    obtain d1 k1 where dk: "dk = (d1, k1)" by (cases dk)
    show ?thesis
    proof (cases "snd (task_expired s k1)")
      case None
      then show ?thesis using Some dk n' by (cases "task_expired s k1") simp
    next
      case (Some k2)
      then obtain ev where ev: "task_expired s k1 = (ev, Some k2)" by (cases "task_expired s k1") simp
      have run: "(d1, ev) # task_run n s k2 = xs @ [(d, TimerFailure f)]"
        using Suc.prems(1) \<open>next_duration s k = Some dk\<close> dk ev by simp
      have "xs \<noteq> []"
      proof
        assume "xs = []"
        then have "ev = TimerFailure f" using run by simp
        then show False using ev by (auto simp: task_expired_def Let_def split: option.splits if_splits)
      qed
      then obtain xs' where "task_run n s k2 = xs' @ [(d, TimerFailure f)]" using run by (cases xs) auto
      then show ?thesis
        using Suc.IH [of k2 xs' n1] n' \<open>next_duration s k = Some dk\<close> dk ev by simp
    qed
  qed
qed simp

end
