(* ===== verification/Producer_Buffer.thy ===== *)
theory Producer_Buffer
  imports Messages
begin

text \<open>
  \<open>ProducerBuffer\<close> of \<^verbatim>\<open>crates/session/src/producer_buffer.rs\<close>: the last messages sent, kept
  for retransmission in a map from ids, with a ring of ids for the order of eviction. A panic
  (a message without headers, a buffer of capacity 0) is \<open>None\<close>.
\<close>

section \<open>Operations\<close>

record producer_buffer =
  pb_capacity :: nat
  pb_next :: nat
  pb_messages :: "(nat, proto_message) hmap"
  pb_ring :: "nat list"
  pb_destination_name :: proto_name
  pb_destination_id :: "nat option"

definition pb_with_capacity :: "externs \<Rightarrow> nat \<Rightarrow> producer_buffer" where
  "pb_with_capacity x capacity =
     \<lparr>pb_capacity = capacity, pb_next = 0, pb_messages = [], pb_ring = replicate capacity usize_MAX,
      pb_destination_name = from_strings x ''unknown'' ''unknown'' ''unknown'', pb_destination_id = None\<rparr>"

definition pb_push :: "proto_message \<Rightarrow> producer_buffer \<Rightarrow> producer_buffer option" where
  "pb_push msg b =
     do {
       b1 \<leftarrow> (if pb_messages b = []
              then map_option (\<lambda>dst. b\<lparr>pb_destination_name := dst\<rparr>) (get_dst msg) else Some b);
       i \<leftarrow> get_id msg;
       if hget (pb_messages b1) i \<noteq> None then Some b1
       else if pb_next b1 < length (pb_ring b1) then
         Some (b1\<lparr>pb_messages := hput i msg (hdel (pb_ring b1 ! pb_next b1) (pb_messages b1)),
                  pb_ring := (pb_ring b1)[pb_next b1 := i],
                  pb_next := (pb_next b1 + 1) mod pb_capacity b1\<rparr>)
       else None
     }"

definition pb_clear :: "producer_buffer \<Rightarrow> producer_buffer" where
  "pb_clear b =
     b\<lparr>pb_messages := [], pb_next := 0, pb_ring := replicate (length (pb_ring b)) usize_MAX\<rparr>"

definition pb_get :: "producer_buffer \<Rightarrow> nat \<Rightarrow> proto_message option" where
  "pb_get b i = hget (pb_messages b) i"

definition pb_iter :: "producer_buffer \<Rightarrow> proto_message list" where
  "pb_iter b =
     List.map_filter (\<lambda>i. hget (pb_messages b) (pb_ring b ! ((pb_next b + i) mod pb_capacity b)))
       [0..<pb_capacity b]"

section \<open>The log it implements\<close>

text \<open>
  The abstract state: the ids stored, oldest first. The ring, read from \<open>next\<close> on, is the
  empty slots followed by those ids.
\<close>

definition pb_rot :: "producer_buffer \<Rightarrow> nat list" where
  "pb_rot b = drop (pb_next b) (pb_ring b) @ take (pb_next b) (pb_ring b)"

definition pb_ids :: "producer_buffer \<Rightarrow> nat list" where
  "pb_ids b = filter (\<lambda>i. i \<noteq> usize_MAX) (pb_rot b)"

definition pb_inv :: "producer_buffer \<Rightarrow> bool" where
  "pb_inv b \<longleftrightarrow>
     pb_capacity b > 0 \<and> length (pb_ring b) = pb_capacity b \<and> pb_next b < pb_capacity b \<and>
     hmap_wf (pb_messages b) \<and> distinct (pb_ids b) \<and> set (hkeys (pb_messages b)) = set (pb_ids b) \<and>
     pb_rot b = replicate (pb_capacity b - length (pb_ids b)) usize_MAX @ pb_ids b \<and>
     (\<forall>i m. hget (pb_messages b) i = Some m \<longrightarrow> get_id m = Some i)"

lemma pb_invD:
  assumes "pb_inv b"
  shows "pb_capacity b > 0" "length (pb_ring b) = pb_capacity b" "pb_next b < pb_capacity b"
    "hmap_wf (pb_messages b)" "distinct (pb_ids b)" "set (hkeys (pb_messages b)) = set (pb_ids b)"
    "pb_rot b = replicate (pb_capacity b - length (pb_ids b)) usize_MAX @ pb_ids b"
    "hget (pb_messages b) i = Some m \<Longrightarrow> get_id m = Some i"
  using assms unfolding pb_inv_def by blast+

lemma pb_get_ids: "pb_inv b \<Longrightarrow> pb_get b i \<noteq> None \<longleftrightarrow> i \<in> set (pb_ids b)"
  using hget_None_iff [of "pb_messages b" i] pb_invD(6) [of b] by (auto simp: pb_get_def)

lemma length_pb_rot: "pb_inv b \<Longrightarrow> length (pb_rot b) = pb_capacity b"
  using pb_invD(2,3) [of b] by (simp add: pb_rot_def)

lemma length_pb_ids: "pb_inv b \<Longrightarrow> length (pb_ids b) \<le> pb_capacity b"
  using length_pb_rot [of b] length_filter_le [of _ "pb_rot b"] by (metis pb_ids_def)

lemma nth_pb_rot:
  assumes "pb_inv b" "i < pb_capacity b"
  shows "pb_rot b ! i = pb_ring b ! ((pb_next b + i) mod pb_capacity b)"
  using assms pb_invD(2,3) [OF assms(1)]
  by (auto simp: pb_rot_def nth_append mod_if intro!: arg_cong [where f = "(!) (pb_ring b)"])

text \<open>Iteration yields the stored messages, oldest first.\<close>

lemma map_filter_None_prefix:
  "(\<And>x. x \<in> set xs \<Longrightarrow> f x = None) \<Longrightarrow> List.map_filter f (xs @ ys) = List.map_filter f ys"
  by (induction xs) (auto simp: List.map_filter_def)

lemma map_filter_Some:
  "(\<And>x. x \<in> set xs \<Longrightarrow> f x \<noteq> None) \<Longrightarrow> List.map_filter f xs = map (\<lambda>x. the (f x)) xs"
  by (induction xs) (auto simp: List.map_filter_def)

lemma pb_iter_correct:
  assumes inv: "pb_inv b"
  shows "pb_iter b = map (\<lambda>i. the (pb_get b i)) (pb_ids b)"
proof -
  let ?f = "hget (pb_messages b)"
  have "pb_iter b = List.map_filter ?f (map (\<lambda>i. pb_ring b ! ((pb_next b + i) mod pb_capacity b)) [0..<pb_capacity b])"
    by (simp add: pb_iter_def List.map_filter_def filter_map comp_def)
  also have "map (\<lambda>i. pb_ring b ! ((pb_next b + i) mod pb_capacity b)) [0..<pb_capacity b] = pb_rot b"
    using nth_pb_rot [OF inv] length_pb_rot [OF inv] by (intro nth_equalityI) simp_all
  also have "List.map_filter ?f (pb_rot b) = List.map_filter ?f (pb_ids b)"
  proof -
    have "usize_MAX \<notin> set (pb_ids b)" by (simp add: pb_ids_def)
    then have "?f usize_MAX = None" using pb_get_ids [OF inv, of usize_MAX] by (simp add: pb_get_def)
    then have "List.map_filter ?f (replicate k usize_MAX @ pb_ids b) = List.map_filter ?f (pb_ids b)" for k
      by (intro map_filter_None_prefix) simp
    then show ?thesis by (subst pb_invD(7) [OF inv])
  qed
  also have "\<dots> = map (\<lambda>i. the (pb_get b i)) (pb_ids b)"
    using pb_get_ids [OF inv] by (simp add: map_filter_Some pb_get_def)
  finally show ?thesis .
qed

section \<open>Pushing a message\<close>

lemma set_tl_subset: "set (tl xs) \<subseteq> set xs"
  by (cases xs) auto

lemma pb_rot_push:
  assumes "length ring = n" "k < n"
  shows "drop ((k + 1) mod n) (ring[k := i]) @ take ((k + 1) mod n) (ring[k := i]) =
    tl (drop k ring @ take k ring) @ [i]"
proof -
  obtain a ys zs where ring: "ring = ys @ a # zs" "length ys = k"
    using assms id_take_nth_drop [of k ring] by auto
  show ?thesis
  proof (cases zs)
    case Nil
    then show ?thesis using ring assms by auto
  next
    case (Cons z zs')
    then have "(k + 1) mod n = Suc k" using ring assms by simp
    moreover have "(ys @ a # zs)[k := i] = ys @ i # zs" using ring(2) by (simp add: list_update_append)
    ultimately show ?thesis using ring by simp
  qed
qed

text \<open>What a push does to the stored ids: nothing for an id that is there; else the new id comes
  last, and the oldest goes if the buffer is full.\<close>

definition log_push :: "nat \<Rightarrow> nat \<Rightarrow> nat list \<Rightarrow> nat list" where
  "log_push cap i l = (if i \<in> set l then l else (if length l = cap then tl l else l) @ [i])"

lemma pb_push_old:
  assumes "pb_inv b" "get_dst msg \<noteq> None" "get_id msg = Some i" "pb_get b i \<noteq> None"
  shows "pb_push msg b = Some b"
  using assms by (auto simp: pb_push_def pb_get_def)

lemma pb_push_fields:
  assumes "get_dst msg \<noteq> None" "get_id msg = Some i" "pb_get b i = None" "pb_next b < length (pb_ring b)"
  shows "\<exists>b'. pb_push msg b = Some b' \<and> pb_capacity b' = pb_capacity b \<and>
    pb_messages b' = hput i msg (hdel (pb_ring b ! pb_next b) (pb_messages b)) \<and>
    pb_ring b' = (pb_ring b)[pb_next b := i] \<and> pb_next b' = (pb_next b + 1) mod pb_capacity b"
  using assms by (cases "pb_messages b = []") (auto simp: pb_push_def pb_get_def)

lemma pb_rot_cases:
  assumes inv: "pb_inv b"
  obtains (full) F where "pb_ids b = pb_ring b ! pb_next b # F" "tl (pb_rot b) = F" "length (pb_ids b) = pb_capacity b"
  | (room) "pb_ring b ! pb_next b = usize_MAX" "length (pb_ids b) < pb_capacity b"
      "tl (pb_rot b) = replicate (pb_capacity b - Suc (length (pb_ids b))) usize_MAX @ pb_ids b"
proof -
  note d = pb_invD [OF inv]
  have rot: "pb_rot b = pb_ring b ! pb_next b # tl (pb_rot b)"
    using d(2,3) by (simp add: pb_rot_def Cons_nth_drop_Suc [symmetric])
  show ?thesis
  proof (cases "pb_capacity b - length (pb_ids b)")
    case 0
    then have eq: "pb_rot b = pb_ids b" and len: "length (pb_ids b) = pb_capacity b"
      using d(7) length_pb_ids [OF inv] by simp_all
    show ?thesis by (rule full [OF rot [unfolded eq] _ len]) (simp only: eq)
  next
    case (Suc k)
    then have eq: "pb_rot b = usize_MAX # replicate k usize_MAX @ pb_ids b"
      and k: "k = pb_capacity b - Suc (length (pb_ids b))" "length (pb_ids b) < pb_capacity b"
      using d(7) by simp_all
    have "pb_ring b ! pb_next b = usize_MAX" using rot [unfolded eq] by simp
    then show ?thesis using room k eq by simp
  qed
qed

lemma pb_push_new:
  assumes inv: "pb_inv b" and dst: "get_dst msg \<noteq> None" and id: "get_id msg = Some i" "i < usize_MAX"
    and new: "pb_get b i = None"
  shows "\<exists>b'. pb_push msg b = Some b' \<and> pb_inv b' \<and> pb_capacity b' = pb_capacity b \<and>
    pb_ids b' = log_push (pb_capacity b) i (pb_ids b) \<and>
    pb_get b' = (\<lambda>j. if j = i then Some msg else if j \<in> set (pb_ids b') then pb_get b j else None)"
proof -
  note d = pb_invD [OF inv]
  define e where "e = pb_ring b ! pb_next b"
  obtain b' where b': "pb_push msg b = Some b'" and cap: "pb_capacity b' = pb_capacity b"
    and msgs: "pb_messages b' = hput i msg (hdel e (pb_messages b))"
    and ring: "pb_ring b' = (pb_ring b)[pb_next b := i]" "pb_next b' = (pb_next b + 1) mod pb_capacity b"
    using pb_push_fields [OF dst id(1) new] d(2,3) unfolding e_def by auto
  have rot: "pb_rot b' = tl (pb_rot b) @ [i]"
    using pb_rot_push [OF d(2,3), of i] by (simp add: pb_rot_def ring)
  have fresh: "i \<notin> set (pb_ids b)" and nomax: "usize_MAX \<notin> set (pb_ids b)"
    using pb_get_ids [OF inv, of i] new by (simp_all add: pb_ids_def)
  have ids: "pb_ids b' = log_push (pb_capacity b) i (pb_ids b) \<and> set (pb_ids b') = insert i (set (pb_ids b) - {e}) \<and>
    pb_rot b' = replicate (pb_capacity b - length (pb_ids b')) usize_MAX @ pb_ids b'"
    using inv
  proof (cases rule: pb_rot_cases)
    case (full F)
    have "usize_MAX \<notin> set F" using nomax unfolding full(1) by simp
    then have "filter (\<lambda>j. j \<noteq> usize_MAX) F = F" by (auto intro!: filter_True)
    then have F: "pb_ids b' = F @ [i]" using rot full(2) id(2) by (simp add: pb_ids_def)
    have "set F = set (pb_ids b) - {e}" "length F + 1 = pb_capacity b" "tl (pb_ids b) = F"
      using d(5) full(3) unfolding full(1) e_def by auto
    then show ?thesis using F full(2,3) fresh rot by (simp add: log_push_def)
  next
    case room
    have "filter (\<lambda>j. j \<noteq> usize_MAX) (pb_ids b) = pb_ids b" by (simp add: pb_ids_def)
    then have F: "pb_ids b' = pb_ids b @ [i]" using rot room(3) id(2) by (simp add: pb_ids_def [of b'])
    then show ?thesis using room fresh rot nomax by (simp add: log_push_def e_def)
  qed
  note log = conjunct1 [OF ids] and set_ids = conjunct1 [OF conjunct2 [OF ids]]
    and rot_ids = conjunct2 [OF conjunct2 [OF ids]]
  have get: "pb_get b' j = (if j = i then Some msg else if j \<in> set (pb_ids b') then pb_get b j else None)" for j
    unfolding set_ids using pb_get_ids [OF inv, of j] by (auto simp: pb_get_def msgs)
  have "pb_inv b'"
    unfolding pb_inv_def cap
  proof (intro conjI allI impI)
    show "length (pb_ring b') = pb_capacity b" "pb_next b' < pb_capacity b" using d(1-3) ring by simp_all
    show "hmap_wf (pb_messages b')" using d(4) by (simp add: msgs)
    show "distinct (pb_ids b')" unfolding log using d(5) fresh set_tl_subset [of "pb_ids b"]
      by (auto simp: log_push_def distinct_tl)
    show "set (hkeys (pb_messages b')) = set (pb_ids b')"
      unfolding msgs hkeys_hput hkeys_hdel set_ids d(6) ..
    show "pb_rot b' = replicate (pb_capacity b - length (pb_ids b')) usize_MAX @ pb_ids b'" by (rule rot_ids)
    show "get_id m = Some j" if "hget (pb_messages b') j = Some m" for j m
      using that id(1) d(8) by (auto simp: msgs split: if_splits)
  qed (rule d(1))
  then show ?thesis using b' cap log get by blast
qed

lemma pb_with_capacity_inv:
  assumes "capacity > 0"
  shows "pb_inv (pb_with_capacity x capacity)" "pb_ids (pb_with_capacity x capacity) = []"
proof -
  have "pb_rot (pb_with_capacity x capacity) = replicate capacity usize_MAX"
    by (simp add: pb_rot_def pb_with_capacity_def)
  then show "pb_ids (pb_with_capacity x capacity) = []" "pb_inv (pb_with_capacity x capacity)"
    using assms by (simp_all add: pb_ids_def pb_inv_def pb_with_capacity_def)
qed

lemma pb_clear_inv:
  assumes "pb_inv b"
  shows "pb_inv (pb_clear b)" "pb_ids (pb_clear b) = []"
proof -
  have "pb_rot (pb_clear b) = replicate (pb_capacity b) usize_MAX"
    using pb_invD(2) [OF assms] by (simp add: pb_rot_def pb_clear_def)
  then show "pb_ids (pb_clear b) = []" "pb_inv (pb_clear b)"
    using pb_invD(1,2) [OF assms] by (simp_all add: pb_ids_def pb_inv_def pb_clear_def)
qed

section \<open>The interface of the log\<close>

text \<open>A series of pushes, and the newest entries of a list.\<close>

fun push_all :: "('m \<Rightarrow> 'b \<Rightarrow> 'b option) \<Rightarrow> 'm list \<Rightarrow> 'b \<Rightarrow> 'b option" where
  "push_all push [] b = Some b"
| "push_all push (m # ms) b = Option.bind (push m b) (push_all push ms)"

definition newest :: "nat \<Rightarrow> 'a list \<Rightarrow> 'a list" where
  "newest n l = drop (length l - n) l"

lemma newest_push:
  assumes "length l \<le> n" "n > 0" "i \<notin> set l"
  shows "newest n (log_push n i l @ r) = newest n (l @ i # r)"
proof (cases "length l = n")
  case True
  then show ?thesis
    using assms by (cases l) (auto simp: newest_def log_push_def drop_Cons')
qed (use assms in \<open>simp add: newest_def log_push_def\<close>)

text \<open>
  What the sender relies on: a bounded log of messages by id. A push of a new id adds it as
  the newest and drops the oldest only when the log is full; a lookup returns the message
  stored; an id that is in the log is not stored again.
\<close>

locale bounded_log =
  fixes inv :: "'b \<Rightarrow> bool"
    and ids :: "'b \<Rightarrow> nat list"
    and lookup :: "'b \<Rightarrow> nat \<Rightarrow> 'm option"
    and cap :: "'b \<Rightarrow> nat"
    and ident :: "'m \<Rightarrow> nat option"
    and push :: "'m \<Rightarrow> 'b \<Rightarrow> 'b option"
  assumes push_old: "inv b \<Longrightarrow> ident m = Some i \<Longrightarrow> i \<in> set (ids b) \<Longrightarrow> push m b = Some b"
    and push_new: "inv b \<Longrightarrow> ident m = Some i \<Longrightarrow> i \<notin> set (ids b) \<Longrightarrow>
      \<exists>b'. push m b = Some b' \<and> inv b' \<and> cap b' = cap b \<and> ids b' = log_push (cap b) i (ids b) \<and>
        lookup b' = (\<lambda>j. if j = i then Some m else if j \<in> set (ids b') then lookup b j else None)"
    and ids_bound: "inv b \<Longrightarrow> length (ids b) \<le> cap b \<and> distinct (ids b) \<and> cap b > 0"
begin

text \<open>
  After a series of messages with new ids the log holds the newest ones, up to its capacity,
  in the order they were pushed.
\<close>

lemma push_all_correct:
  assumes "inv b" "map ident ms = map Some is" "distinct is" "set is \<inter> set (ids b) = {}"
  shows "\<exists>b'. push_all push ms b = Some b' \<and> inv b' \<and> cap b' = cap b \<and> ids b' = newest (cap b) (ids b @ is)"
  using assms
proof (induction ms arbitrary: b "is")
  case Nil
  then show ?case using ids_bound [of b] by (simp add: newest_def)
next
  case (Cons m ms)
  then obtain i is' where i: "is = i # is'" "ident m = Some i" "map ident ms = map Some is'" by (cases "is") auto
  have fresh: "i \<notin> set (ids b)" using Cons.prems(4) i(1) by auto
  obtain b1 where b1: "push m b = Some b1" "inv b1" "cap b1 = cap b" "ids b1 = log_push (cap b) i (ids b)"
    using push_new [OF Cons.prems(1) i(2) fresh] by blast
  have "set (ids b1) \<subseteq> insert i (set (ids b))" using b1(4) set_tl_subset [of "ids b"] by (auto simp: log_push_def)
  then have "set is' \<inter> set (ids b1) = {}" using Cons.prems(3,4) i(1) by auto
  then obtain b' where "push_all push ms b1 = Some b'" "inv b'" "cap b' = cap b1" "ids b' = newest (cap b) (ids b1 @ is')"
    using Cons.IH [of b1 is'] b1(2,3) i Cons.prems(3) by auto
  then show ?case
    using b1 i(1) newest_push [of "ids b" "cap b" i is'] ids_bound [OF Cons.prems(1)] fresh by auto
qed

end

text \<open>A message fit to be stored: its headers are present and its id is a \<open>u32\<close>.\<close>

definition stored_id :: "proto_message \<Rightarrow> nat option" where
  "stored_id m = (case get_id m of Some i \<Rightarrow> if i < 2 ^ 32 \<and> get_dst m \<noteq> None then Some i else None | None \<Rightarrow> None)"

lemma stored_idD: "stored_id m = Some i \<Longrightarrow> get_id m = Some i \<and> i < usize_MAX \<and> get_dst m \<noteq> None"
  by (auto simp: stored_id_def usize_MAX_def split: option.splits if_splits)

interpretation pb: bounded_log pb_inv pb_ids pb_get pb_capacity stored_id pb_push
proof
  fix b m i
  assume b: "pb_inv b" "stored_id m = Some i"
  show "pb_push m b = Some b" if "i \<in> set (pb_ids b)"
    using pb_push_old [OF b(1)] stored_idD [OF b(2)] pb_get_ids [OF b(1)] that by blast
  show "\<exists>b'. pb_push m b = Some b' \<and> pb_inv b' \<and> pb_capacity b' = pb_capacity b \<and>
      pb_ids b' = log_push (pb_capacity b) i (pb_ids b) \<and>
      pb_get b' = (\<lambda>j. if j = i then Some m else if j \<in> set (pb_ids b') then pb_get b j else None)"
    if "i \<notin> set (pb_ids b)"
    using pb_push_new [OF b(1)] stored_idD [OF b(2)] pb_get_ids [OF b(1), of i] that by blast
qed (simp add: length_pb_ids pb_invD(1,5))

end
