(* ===== verification/Receiver_Buffer.thy ===== *)
theory Receiver_Buffer
  imports Messages
begin

text \<open>
  \<open>ReceiverBuffer\<close> of \<^verbatim>\<open>crates/session/src/receiver_buffer.rs\<close>: the reorder buffer of one
  stream. Ids are 31-bit sequence numbers that wrap around. \<open>usize\<close> arithmetic wraps as in a
  release build; an index out of range panics (\<open>None\<close>).
\<close>

section \<open>Operations\<close>

record 'm receiver_buffer =
  rb_last_sent :: nat
  rb_first_entry :: nat
  rb_lost_msgs :: "nat list"
  rb_buffer :: "'m option list"

definition rb_default :: "'m receiver_buffer" where
  "rb_default = \<lparr>rb_last_sent = usize_MAX, rb_first_entry = 0, rb_lost_msgs = [], rb_buffer = []\<rparr>"

definition MAX_ID :: nat where
  "MAX_ID = MAX_PUBLISH_ID"

definition rb_starting_at :: "nat \<Rightarrow> 'm receiver_buffer" where
  "rb_starting_at first_id = rb_default\<lparr>rb_last_sent := usize_add first_id MAX_ID mod (MAX_ID + 1)\<rparr>"

definition id_distance :: "nat \<Rightarrow> nat \<Rightarrow> nat" where
  "id_distance from to = (if to \<ge> from then to - from else usize_add (usize_sub (MAX_ID + 1) from) to)"

definition is_after :: "nat \<Rightarrow> nat \<Rightarrow> bool" where
  "is_after a b \<longleftrightarrow> (let d = id_distance b a in d > 0 \<and> d \<le> (MAX_ID + 1) div 2)"

definition add_with_wraparound :: "nat \<Rightarrow> nat \<Rightarrow> nat" where
  "add_with_wraparound base offset = usize_add base offset mod (MAX_ID + 1)"

text \<open>The ids \<open>current\<close>, \<open>current + 1\<close>, \dots{} of a run of holes, each cast to \<open>u32\<close>.\<close>

fun rtx_ids :: "nat \<Rightarrow> nat \<Rightarrow> nat list" where
  "rtx_ids 0 current = []"
| "rtx_ids (Suc n) current = as_u32 current # rtx_ids n (add_with_wraparound current 1)"

text \<open>\<open>release_msgs\<close>: first the entries at the front, then lost ids right after the buffer.\<close>

function release_entries :: "nat \<Rightarrow> 'm option list \<Rightarrow> 'm receiver_buffer \<Rightarrow> 'm option list \<times> 'm receiver_buffer" where
  "release_entries i ret b =
     (if i < length (rb_buffer b) then
        (case rb_buffer b ! i of
           Some m \<Rightarrow>
             release_entries (i + 1) (ret @ [Some m])
               (b\<lparr>rb_buffer := (rb_buffer b)[i := None],
                  rb_last_sent := add_with_wraparound (rb_last_sent b) 1,
                  rb_first_entry := rb_first_entry b + 1\<rparr>)
         | None \<Rightarrow>
             let next = add_with_wraparound (rb_last_sent b) 1 in
             if next \<in> set (rb_lost_msgs b) then
               release_entries (i + 1) (ret @ [None])
                 (b\<lparr>rb_lost_msgs := removeAll next (rb_lost_msgs b),
                    rb_last_sent := next,
                    rb_first_entry := rb_first_entry b + 1\<rparr>)
             else (ret, b))
      else (ret, b))"
  by pat_completeness auto

termination by (relation "measure (\<lambda>(i, ret, b). length (rb_buffer b) - i)") auto

lemma length_removeAll_less: "x \<in> set xs \<Longrightarrow> length (removeAll x xs) < length xs"
  by (induction xs) (auto simp: less_Suc_eq_le length_removeAll_less_eq)

function release_lost :: "'m option list \<Rightarrow> 'm receiver_buffer \<Rightarrow> 'm option list \<times> 'm receiver_buffer" where
  "release_lost ret b =
     (let next = add_with_wraparound (rb_last_sent b) 1 in
      if next \<in> set (rb_lost_msgs b) then
        release_lost (ret @ [None])
          (b\<lparr>rb_last_sent := next, rb_lost_msgs := removeAll next (rb_lost_msgs b)\<rparr>)
      else (ret, b))"
  by pat_completeness auto

termination
  by (relation "measure (\<lambda>(ret, b). length (rb_lost_msgs b))") (auto simp: length_removeAll_less)

declare release_entries.simps [simp del] release_lost.simps [simp del]

definition release_msgs :: "'m receiver_buffer \<Rightarrow> 'm option list \<times> 'm receiver_buffer" where
  "release_msgs b =
     (case release_entries (rb_first_entry b) [] b of
        (ret, b1) \<Rightarrow>
          let b2 = (if rb_first_entry b1 = length (rb_buffer b1)
                    then b1\<lparr>rb_first_entry := 0, rb_buffer := []\<rparr> else b1)
          in release_lost ret b2)"

definition internal_on_received_message ::
  "nat \<Rightarrow> 'm option \<Rightarrow> 'm receiver_buffer \<Rightarrow> (('m option list \<times> nat list) \<times> 'm receiver_buffer) option" where
  "internal_on_received_message msg_id msg b =
     (let next_expected = (if rb_last_sent b = usize_MAX then usize_MAX
                           else add_with_wraparound (rb_last_sent b) 1)
      in
      if rb_last_sent b = usize_MAX \<or> msg_id = next_expected \<and> rb_buffer b = [] then
        (case msg of
           Some m \<Rightarrow> Some (([Some m], []), b\<lparr>rb_last_sent := msg_id\<rparr>)
         | None \<Rightarrow> Some (([], [as_u32 msg_id]), b))
      else if \<not> is_after msg_id (rb_last_sent b) then Some (([], []), b)
      else if rb_buffer b = [] then
        (let next_expected = add_with_wraparound (rb_last_sent b) 1;
             num_missing = id_distance next_expected msg_id
         in case msg of
              Some m \<Rightarrow>
                Some (([], rtx_ids num_missing next_expected),
                      b\<lparr>rb_first_entry := 0, rb_buffer := replicate num_missing None @ [Some m]\<rparr>)
            | None \<Rightarrow>
                Some (([], rtx_ids (num_missing + 1) next_expected),
                      b\<lparr>rb_first_entry := 0, rb_buffer := replicate (num_missing + 1) None\<rparr>))
      else
        (let next_expected = add_with_wraparound (rb_last_sent b) 1;
             buffer_end = add_with_wraparound (rb_last_sent b)
               (usize_sub (length (rb_buffer b)) (rb_first_entry b))
         in
         if is_after msg_id (rb_last_sent b) \<and> \<not> is_after msg_id buffer_end then
           (case msg of
              None \<Rightarrow> Some (([], []), b)
            | Some m \<Rightarrow>
                let pos = id_distance next_expected msg_id + rb_first_entry b in
                if pos < length (rb_buffer b) then
                  if rb_buffer b ! pos \<noteq> None then Some (([], []), b)
                  else
                    (case release_msgs (b\<lparr>rb_buffer := (rb_buffer b)[pos := Some m]\<rparr>) of
                       (ret, b') \<Rightarrow> Some ((ret, []), b'))
                else None)
         else
           (let buffer_next = add_with_wraparound buffer_end 1;
                num_new = id_distance buffer_next msg_id;
                grown = rb_buffer b @ replicate num_new None
            in case msg of
                 Some m \<Rightarrow> Some (([], rtx_ids num_new buffer_next), b\<lparr>rb_buffer := grown @ [Some m]\<rparr>)
               | None \<Rightarrow> Some (([], rtx_ids num_new buffer_next @ [as_u32 msg_id]), b\<lparr>rb_buffer := grown\<rparr>))))"

definition on_received_message ::
  "proto_message \<Rightarrow> proto_message receiver_buffer \<Rightarrow>
   ((proto_message option list \<times> nat list) \<times> proto_message receiver_buffer) option" where
  "on_received_message m b = do { i \<leftarrow> get_id m; internal_on_received_message i (Some m) b }"

definition on_lost_message :: "nat \<Rightarrow> 'm receiver_buffer \<Rightarrow> 'm option list \<times> 'm receiver_buffer" where
  "on_lost_message msg_id b = release_msgs (b\<lparr>rb_lost_msgs := List.insert msg_id (rb_lost_msgs b)\<rparr>)"

definition on_beacon_message :: "nat \<Rightarrow> 'm receiver_buffer \<Rightarrow> (nat list \<times> 'm receiver_buffer) option" where
  "on_beacon_message msg_id b =
     do { ((_, rtx), b') \<leftarrow> internal_on_received_message msg_id None b; Some (rtx, b') }"

definition message_already_received :: "nat \<Rightarrow> 'm receiver_buffer \<Rightarrow> bool option" where
  "message_already_received msg_id b =
     (if rb_last_sent b = usize_MAX then Some False
      else if \<not> is_after msg_id (rb_last_sent b) then Some True
      else
        (let next_expected = add_with_wraparound (rb_last_sent b) 1;
             buffer_end = add_with_wraparound (rb_last_sent b)
               (usize_sub (length (rb_buffer b)) (rb_first_entry b))
         in
         if rb_buffer b = [] \<or> \<not> is_after msg_id (rb_last_sent b) \<or> is_after msg_id buffer_end then Some False
         else
           let pos = id_distance next_expected msg_id + rb_first_entry b in
           if pos < length (rb_buffer b) then Some (rb_buffer b ! pos \<noteq> None) else None))"

section \<open>Arithmetic on ids\<close>

text \<open>The stream is numbered without wrap-around by \<open>n\<close>; on the wire \<open>n\<close> is \<open>wire n\<close>.\<close>

definition wire :: "nat \<Rightarrow> nat" where
  "wire n = n mod 2 ^ 31"

lemma MAX_ID_Suc: "MAX_ID + 1 = 2 ^ 31" "Suc MAX_ID = 2 ^ 31"
  by (simp_all add: MAX_ID_def MAX_PUBLISH_ID_def)

lemma wire_less: "wire n < 2 ^ 31" "wire n \<le> 2 ^ 31"
  by (simp_all add: wire_def less_imp_le)

lemma wire_neq [simp]: "wire n \<noteq> usize_MAX"
  using wire_less(1) [of n] by (simp add: usize_MAX_def)

lemma add_wire:
  assumes "k < 2 ^ 63"
  shows "add_with_wraparound (wire n) k = wire (n + k)"
proof -
  have "wire n + k < 2 ^ 64" using assms wire_less(1) [of n] by simp
  then have "add_with_wraparound (wire n) k = (wire n + k) mod 2 ^ 31"
    by (simp add: add_with_wraparound_def usize_add_exact MAX_ID_Suc)
  then show ?thesis by (simp add: wire_def mod_add_left_eq)
qed

lemma id_distance_wire:
  "id_distance (wire a) (wire b) = (wire b + (2 ^ 31 - wire a)) mod 2 ^ 31"
proof (cases "wire a \<le> wire b")
  case True
  then have "wire b + (2 ^ 31 - wire a) = (wire b - wire a) + 2 ^ 31" using wire_less(1) [of a] by linarith
  moreover have "wire b - wire a < 2 ^ 31" using wire_less(1) [of b] by linarith
  ultimately show ?thesis using True by (simp only: id_distance_def if_True mod_add_self2 mod_less)
next
  case False
  have "wire a < 2 ^ 31" "wire b < 2 ^ 31" by (rule wire_less)+
  moreover have "usize_sub (2 ^ 31) (wire a) = 2 ^ 31 - wire a" by (intro usize_sub_exact wire_less) simp
  ultimately show ?thesis using False by (simp add: id_distance_def MAX_ID_Suc usize_add_exact)
qed

lemma id_distance_forward: "a \<le> b \<Longrightarrow> b < a + 2 ^ 31 \<Longrightarrow> id_distance (wire a) (wire b) = b - a"
proof -
  assume ab: "a \<le> b" "b < a + 2 ^ 31"
  have "(wire b + (2 ^ 31 - wire a)) mod 2 ^ 31 = (b + (2 ^ 31 - wire a)) mod 2 ^ 31"
    unfolding wire_def by (rule mod_add_left_eq)
  also have "b + (2 ^ 31 - wire a) = (b - a) + (a div 2 ^ 31 + 1) * 2 ^ 31"
  proof -
    have "a = wire a + a div 2 ^ 31 * 2 ^ 31" by (simp add: wire_def)
    then show ?thesis using ab(1) wire_less(1) [of a] by (simp add: algebra_simps)
  qed
  also have "\<dots> mod 2 ^ 31 = (b - a) mod 2 ^ 31" by (rule mod_mult_self1)
  finally show ?thesis using ab by (simp add: id_distance_wire)
qed

lemma id_distance_backward:
  assumes "b < a" "a < b + 2 ^ 31"
  shows "id_distance (wire a) (wire b) = 2 ^ 31 - (a - b)"
proof -
  have "wire b = wire (b + 2 ^ 31)" by (simp add: wire_def)
  then show ?thesis using id_distance_forward [of a "b + 2 ^ 31"] assms by simp
qed

lemma is_after_wire:
  "a \<le> b \<Longrightarrow> b < a + 2 ^ 31 \<Longrightarrow> is_after (wire b) (wire a) \<longleftrightarrow> a < b \<and> b \<le> a + 2 ^ 30"
  "b < a \<Longrightarrow> a < b + 2 ^ 30 \<Longrightarrow> \<not> is_after (wire b) (wire a)"
  by (auto simp: is_after_def Let_def id_distance_forward id_distance_backward MAX_ID_Suc)

lemma wire_inject: "wire a = wire b \<Longrightarrow> a \<le> b \<Longrightarrow> b < a + 2 ^ 31 \<Longrightarrow> a = b"
  using id_distance_forward [of a b] id_distance_forward [of a a] by (cases "a = b") auto

lemma as_u32_wire [simp]: "as_u32 (wire n) = wire n"
  using wire_less(1) [of n] by (intro as_u32_exact) simp

lemma rtx_ids_wire: "rtx_ids k (wire n) = map wire [n..<n + k]"
proof (induction k arbitrary: n)
  case (Suc k)
  have "add_with_wraparound (wire n) 1 = wire (Suc n)" using add_wire [of 1 n] by simp
  then show ?case using Suc.IH [of "Suc n"] by (simp add: upt_conv_Cons del: upt_Suc)
qed simp

section \<open>The stream it delivers\<close>

text \<open>
  The abstract receiver of a stream: \<open>st_next\<close> is the number of the next message to deliver,
  everything from it up to \<open>st_high\<close> is awaited or held, \<open>st_held\<close> are the messages that
  arrived early and \<open>st_gone\<close> the numbers given up.
\<close>

record 'm stream =
  st_next :: nat
  st_high :: nat
  st_held :: "nat \<rightharpoonup> 'm"
  st_gone :: "nat set"

text \<open>Delivery goes on while the next number is held, or given up (a \<open>None\<close> for the application).\<close>

function deliver :: "'m stream \<Rightarrow> 'm option list \<times> 'm stream" where
  "deliver s =
     (if st_next s < st_high s \<and> (st_held s (st_next s) \<noteq> None \<or> st_next s \<in> st_gone s)
      then (case deliver (s\<lparr>st_next := st_next s + 1,
                            st_gone := (if st_held s (st_next s) = None then st_gone s - {st_next s} else st_gone s)\<rparr>) of
              (out, s') \<Rightarrow> (st_held s (st_next s) # out, s'))
      else ([], s))"
  by pat_completeness auto

termination by (relation "measure (\<lambda>s. st_high s - st_next s)") auto

declare deliver.simps [simp del]

text \<open>
  The arrival of number \<open>n\<close>: dropped when it was delivered or given up or is held already;
  otherwise held, with a retransmission asked for each number skipped for the first time.
\<close>

definition arrive :: "nat \<Rightarrow> 'm \<Rightarrow> 'm stream \<Rightarrow> ('m option list \<times> nat list) \<times> 'm stream" where
  "arrive n m s =
     (if n < st_next s \<or> st_held s n \<noteq> None then (([], []), s)
      else if n < st_high s \<or> n = st_next s then
        (case deliver (s\<lparr>st_held := (st_held s)(n \<mapsto> m), st_high := max (st_high s) (n + 1)\<rparr>) of
           (out, s') \<Rightarrow> ((out, []), s'))
      else (([], [st_high s..<n]), s\<lparr>st_held := (st_held s)(n \<mapsto> m), st_high := n + 1\<rparr>))"

definition give_up :: "nat \<Rightarrow> 'm stream \<Rightarrow> 'm option list \<times> 'm stream" where
  "give_up n s = deliver (s\<lparr>st_gone := insert n (st_gone s)\<rparr>)"

text \<open>The buffer represents the stream, with the numbers reduced to ids.\<close>

definition rep_core :: "'m receiver_buffer \<Rightarrow> 'm stream \<Rightarrow> bool" where
  "rep_core b s \<longleftrightarrow>
     0 < st_next s \<and> st_next s \<le> st_high s \<and> st_high s \<le> st_next s + 2 ^ 30 \<and>
     rb_last_sent b = wire (st_next s - 1) \<and>
     rb_first_entry b \<le> length (rb_buffer b) \<and> length (rb_buffer b) \<le> st_high s \<and>
     drop (rb_first_entry b) (rb_buffer b) = map (st_held s) [st_next s..<st_high s] \<and>
     st_gone s \<subseteq> {st_next s..<st_high s} \<and> set (rb_lost_msgs b) = wire ` st_gone s \<and>
     (\<forall>n\<in>st_gone s. st_held s n = None) \<and> (\<forall>n\<ge>st_high s. st_held s n = None)"

definition represents :: "'m receiver_buffer \<Rightarrow> 'm stream \<Rightarrow> bool" where
  "represents b s \<longleftrightarrow>
     rep_core b s \<and> (st_next s = st_high s \<longrightarrow> rb_buffer b = [] \<and> rb_first_entry b = 0)"

lemma rep_coreD:
  assumes "rep_core b s"
  shows "0 < st_next s" "st_next s \<le> st_high s" "st_high s \<le> st_next s + 2 ^ 30"
    "rb_last_sent b = wire (st_next s - 1)"
    "rb_first_entry b \<le> length (rb_buffer b)" "length (rb_buffer b) \<le> st_high s"
    "drop (rb_first_entry b) (rb_buffer b) = map (st_held s) [st_next s..<st_high s]"
    "st_gone s \<subseteq> {st_next s..<st_high s}" "set (rb_lost_msgs b) = wire ` st_gone s"
    "n \<in> st_gone s \<Longrightarrow> st_held s n = None" "n \<ge> st_high s \<Longrightarrow> st_held s n = None"
  using assms unfolding rep_core_def by blast+

lemma rep_core_nth:
  assumes rep: "rep_core b s"
  shows "length (rb_buffer b) - rb_first_entry b = st_high s - st_next s"
    and "st_next s \<le> n \<Longrightarrow> n < st_high s \<Longrightarrow> n - st_next s + rb_first_entry b < length (rb_buffer b)"
    and "st_next s \<le> n \<Longrightarrow> n < st_high s \<Longrightarrow> rb_buffer b ! (n - st_next s + rb_first_entry b) = st_held s n"
proof -
  note d = rep_coreD [OF rep]
  have "length (drop (rb_first_entry b) (rb_buffer b)) = st_high s - st_next s" unfolding d(7) by simp
  then show len: "length (rb_buffer b) - rb_first_entry b = st_high s - st_next s" by simp
  assume n: "st_next s \<le> n" "n < st_high s"
  then show "n - st_next s + rb_first_entry b < length (rb_buffer b)" using len by linarith
  have "drop (rb_first_entry b) (rb_buffer b) ! (n - st_next s) = st_held s n" unfolding d(7) using n by simp
  then show "rb_buffer b ! (n - st_next s + rb_first_entry b) = st_held s n"
    using d(5) by (simp add: add.commute)
qed

text \<open>In the window of \<open>2 ^ 30\<close> numbers ids are unambiguous.\<close>

lemma lost_wire_iff:
  assumes rep: "rep_core b s" and n: "st_next s \<le> n" "n \<le> st_next s + 2 ^ 30"
  shows "wire n \<in> set (rb_lost_msgs b) \<longleftrightarrow> n \<in> st_gone s"
proof
  assume "wire n \<in> set (rb_lost_msgs b)"
  then obtain k where k: "k \<in> st_gone s" "wire n = wire k" using rep_coreD(9) [OF rep] by auto
  then have "st_next s \<le> k" "k < st_next s + 2 ^ 30" using rep_coreD(3,8) [OF rep] by auto
  then have "n = k" using wire_inject [of n k] wire_inject [of k n] k(2) n by (cases "n \<le> k") auto
  then show "n \<in> st_gone s" using k(1) by simp
qed (use rep_coreD(9) [OF rep] in simp)

text \<open>Delivered numbers stop at the first that is neither held nor given up.\<close>

definition settled :: "'m stream \<Rightarrow> bool" where
  "settled s \<longleftrightarrow> (st_next s < st_high s \<longrightarrow> st_held s (st_next s) = None \<and> st_next s \<notin> st_gone s)"

lemma deliver_settled: "settled s \<Longrightarrow> deliver s = ([], s)"
  by (auto simp: settled_def deliver.simps [of s])

lemma deliver_settles: "settled (snd (deliver s))"
proof (induction s rule: deliver.induct)
  case (1 s)
  then show ?case by (subst deliver.simps) (auto simp: split_beta settled_def)
qed

section \<open>Releasing messages is delivery\<close>

lemma next_id_wire:
  assumes "rep_core b s"
  shows "add_with_wraparound (rb_last_sent b) 1 = wire (st_next s)"
  using rep_coreD(1,4) [OF assms] add_wire [of 1 "st_next s - 1"] by simp

text \<open>
  One delivery, on both sides: the front entry leaves the window, whether it was held or given up.
\<close>

lemma rep_core_step:
  assumes rep: "rep_core b s" and n: "st_next s < st_high s"
    and buf: "length buf = length (rb_buffer b)"
      "drop (Suc (rb_first_entry b)) buf = drop (Suc (rb_first_entry b)) (rb_buffer b)"
    and lost: "set lost = wire ` (st_gone s - {st_next s})"
  shows "rep_core \<lparr>rb_last_sent = wire (st_next s), rb_first_entry = rb_first_entry b + 1,
      rb_lost_msgs = lost, rb_buffer = buf\<rparr>
    (s\<lparr>st_next := st_next s + 1, st_gone := st_gone s - {st_next s}\<rparr>)"
proof -
  note d = rep_coreD [OF rep]
  have lt: "rb_first_entry b < length (rb_buffer b)" using rep_core_nth(2) [OF rep, of "st_next s"] n by simp
  have drp: "drop (Suc (rb_first_entry b)) (rb_buffer b) = map (st_held s) [Suc (st_next s)..<st_high s]"
    using d(7) n by (simp add: upt_conv_Cons drop_Suc tl_drop [symmetric] del: upt_Suc)
  have gone: "st_gone s - {st_next s} \<subseteq> {Suc (st_next s)..<st_high s}" using d(8) by fastforce
  have "st_high s \<le> st_next s + 1 + 2 ^ 30" "st_next s + 1 \<le> st_high s" "rb_first_entry b + 1 \<le> length buf"
    "length buf \<le> st_high s"
    using n lt buf(1) d(3,6) by simp_all
  then show ?thesis
    using buf(2) drp gone lost d(10,11) by (simp add: rep_core_def)
qed

lemma wire_gone:
  assumes rep: "rep_core b s" and n: "st_next s \<le> st_high s"
  shows "wire ` (st_gone s - {st_next s}) = wire ` st_gone s - {wire (st_next s)}"
proof -
  have inj: "k = st_next s" if "k \<in> st_gone s" "wire k = wire (st_next s)" for k
    using that rep_coreD(3,8) [OF rep] wire_inject [of "st_next s" k] by fastforce
  show ?thesis by (auto dest: inj)
qed

lemma rep_core_held:
  assumes rep: "rep_core b s" and n: "st_next s < st_high s" and m: "st_held s (st_next s) = Some m"
  shows "rep_core (b\<lparr>rb_buffer := (rb_buffer b)[rb_first_entry b := None],
      rb_last_sent := wire (st_next s), rb_first_entry := rb_first_entry b + 1\<rparr>) (s\<lparr>st_next := st_next s + 1\<rparr>)"
proof -
  have "st_next s \<notin> st_gone s" using rep_coreD(10) [OF rep] m by fastforce
  then have "s\<lparr>st_next := st_next s + 1\<rparr> = s\<lparr>st_next := st_next s + 1, st_gone := st_gone s - {st_next s}\<rparr>"
    and "set (rb_lost_msgs b) = wire ` (st_gone s - {st_next s})"
    using rep_coreD(9) [OF rep] by simp_all
  with rep_core_step [OF rep n, of "(rb_buffer b)[rb_first_entry b := None]" "rb_lost_msgs b"]
  show ?thesis by (cases b) (simp del: One_nat_def)
qed

lemma rep_core_gone:
  assumes rep: "rep_core b s" and n: "st_next s \<in> st_gone s"
  shows "rep_core (b\<lparr>rb_lost_msgs := removeAll (wire (st_next s)) (rb_lost_msgs b),
      rb_last_sent := wire (st_next s), rb_first_entry := rb_first_entry b + 1\<rparr>)
    (s\<lparr>st_next := st_next s + 1, st_gone := st_gone s - {st_next s}\<rparr>)"
proof -
  have lt: "st_next s < st_high s" using rep_coreD(8) [OF rep] n by auto
  have "set (removeAll (wire (st_next s)) (rb_lost_msgs b)) = wire ` (st_gone s - {st_next s})"
    using wire_gone [OF rep rep_coreD(2) [OF rep]] rep_coreD(9) [OF rep] by simp
  with rep_core_step [OF rep lt, of "rb_buffer b"] show ?thesis by (cases b) (simp del: One_nat_def)
qed

lemma release_entries_deliver:
  assumes "rep_core b s"
  shows "\<exists>b'. release_entries (rb_first_entry b) ret b = (ret @ fst (deliver s), b') \<and>
    rep_core b' (snd (deliver s))"
  using assms
proof (induction s arbitrary: b ret rule: deliver.induct)
  case (1 s)
  note d = rep_coreD [OF "1.prems"] and next_id = next_id_wire [OF "1.prems"]
  show ?case
  proof (cases "st_next s < st_high s \<and> (st_held s (st_next s) \<noteq> None \<or> st_next s \<in> st_gone s)")
    case True
    then have nh: "st_next s < st_high s" by simp
    have i: "rb_first_entry b < length (rb_buffer b)" "rb_buffer b ! rb_first_entry b = st_held s (st_next s)"
      using rep_core_nth(2,3) [OF "1.prems", of "st_next s"] nh by simp_all
    show ?thesis
    proof (cases "st_held s (st_next s)")
      case (Some m)
      let ?b = "b\<lparr>rb_buffer := (rb_buffer b)[rb_first_entry b := None],
        rb_last_sent := wire (st_next s), rb_first_entry := rb_first_entry b + 1\<rparr>"
      have "release_entries (rb_first_entry b) ret b = release_entries (rb_first_entry ?b) (ret @ [Some m]) ?b"
        using i Some by (subst release_entries.simps) (simp add: next_id [simplified])
      moreover have "deliver s = (Some m # fst (deliver (s\<lparr>st_next := st_next s + 1\<rparr>)), snd (deliver (s\<lparr>st_next := st_next s + 1\<rparr>)))"
        using True Some by (subst deliver.simps) (simp add: split_beta)
      ultimately show ?thesis
        using "1.IH" [OF True, of ?b "ret @ [Some m]"] rep_core_held [OF "1.prems" nh Some] Some by auto
    next
      case None
      then have gone: "st_next s \<in> st_gone s" using True by simp
      let ?b = "b\<lparr>rb_lost_msgs := removeAll (wire (st_next s)) (rb_lost_msgs b),
        rb_last_sent := wire (st_next s), rb_first_entry := rb_first_entry b + 1\<rparr>"
      let ?s = "s\<lparr>st_next := st_next s + 1, st_gone := st_gone s - {st_next s}\<rparr>"
      have "release_entries (rb_first_entry b) ret b = release_entries (rb_first_entry ?b) (ret @ [None]) ?b"
        using i None gone d(9) by (subst release_entries.simps) (simp add: next_id [simplified] Let_def)
      moreover have "deliver s = (None # fst (deliver ?s), snd (deliver ?s))"
        using True None by (subst deliver.simps) (simp add: split_beta)
      ultimately show ?thesis
        using "1.IH" [OF True, of ?b "ret @ [None]"] rep_core_gone [OF "1.prems" gone] None by auto
    qed
  next
    case False
    then have del: "deliver s = ([], s)" by (subst deliver.simps) auto
    have "release_entries (rb_first_entry b) ret b = (ret, b)"
    proof (cases "st_next s < st_high s")
      case True
      then have "rb_buffer b ! rb_first_entry b = None" "wire (st_next s) \<notin> set (rb_lost_msgs b)"
        using False rep_core_nth(3) [OF "1.prems", of "st_next s"] lost_wire_iff [OF "1.prems", of "st_next s"]
        by simp_all
      then show ?thesis by (subst release_entries.simps) (simp add: next_id [simplified] Let_def)
    next
      case False
      then have "rb_first_entry b = length (rb_buffer b)" using rep_core_nth(1) [OF "1.prems"] d(5) by simp
      then show ?thesis by (subst release_entries.simps) simp
    qed
    then show ?thesis using del "1.prems" by simp
  qed
qed

lemma release_msgs_deliver:
  assumes rep: "rep_core b s"
  shows "\<exists>b'. release_msgs b = (fst (deliver s), b') \<and> represents b' (snd (deliver s))"
proof -
  let ?s = "snd (deliver s)"
  obtain b1 where b1: "release_entries (rb_first_entry b) [] b = (fst (deliver s), b1)" and rep1: "rep_core b1 ?s"
    using release_entries_deliver [OF rep, of "[]"] by auto
  define b2 where "b2 = (if rb_first_entry b1 = length (rb_buffer b1)
    then b1\<lparr>rb_first_entry := 0, rb_buffer := []\<rparr> else b1)"
  have iff: "rb_first_entry b1 = length (rb_buffer b1) \<longleftrightarrow> st_next ?s = st_high ?s"
    using rep_core_nth(1) [OF rep1] rep_coreD(2,5) [OF rep1] by linarith
  then have rep2: "represents b2 ?s"
    using rep1 unfolding represents_def b2_def by (auto simp: rep_core_def)
  then have core2: "rep_core b2 ?s" by (simp add: represents_def)
  have "st_next ?s \<notin> st_gone ?s"
    using deliver_settles [of s] rep_coreD(8) [OF rep1] by (auto simp: settled_def)
  then have "wire (st_next ?s) \<notin> set (rb_lost_msgs b2)"
    using lost_wire_iff [OF core2, of "st_next ?s"] by simp
  then have "release_lost (fst (deliver s)) b2 = (fst (deliver s), b2)"
    using next_id_wire [OF core2] by (subst release_lost.simps) (simp add: Let_def)
  then show ?thesis using b1 rep2 by (simp add: release_msgs_def Let_def b2_def)
qed

section \<open>Arrivals and losses\<close>

lemma representsD:
  assumes "represents b s"
  shows "rep_core b s" "st_next s = st_high s \<Longrightarrow> rb_buffer b = []" "st_next s = st_high s \<Longrightarrow> rb_first_entry b = 0"
    "rb_buffer b = [] \<longleftrightarrow> st_next s = st_high s"
proof -
  show rep: "rep_core b s" "st_next s = st_high s \<Longrightarrow> rb_buffer b = []" "st_next s = st_high s \<Longrightarrow> rb_first_entry b = 0"
    using assms by (simp_all add: represents_def)
  show "rb_buffer b = [] \<longleftrightarrow> st_next s = st_high s"
    using rep(2) rep_core_nth(1) [OF rep(1)] rep_coreD(2) [OF rep(1)] by auto
qed

lemma not_after_old:
  assumes "rep_core b s" "n < st_next s" "st_next s \<le> n + 2 ^ 30"
  shows "\<not> is_after (wire n) (rb_last_sent b)" and "wire n \<noteq> wire (st_next s)"
proof -
  show "\<not> is_after (wire n) (rb_last_sent b)"
    unfolding rep_coreD(4) [OF assms(1)]
    using is_after_wire(1) [of n n] is_after_wire(2) [of n "st_next s - 1"] assms(2,3)
    by (cases "n = st_next s - 1") auto
  show "wire n \<noteq> wire (st_next s)" using wire_inject [of n "st_next s"] assms(2,3) by auto
qed

lemma after_new:
  assumes "rep_core b s" "st_next s \<le> n" "n < st_next s + 2 ^ 30"
  shows "is_after (wire n) (rb_last_sent b)"
  unfolding rep_coreD(4) [OF assms(1)] using is_after_wire(1) [of "st_next s - 1" n] assms rep_coreD(1) [OF assms(1)]
  by auto

lemma buffer_end_wire:
  assumes rep: "rep_core b s" and high: "st_next s < st_high s" "st_high s < 2 ^ 63"
  shows "add_with_wraparound (rb_last_sent b) (usize_sub (length (rb_buffer b)) (rb_first_entry b)) = wire (st_high s - 1)"
proof -
  note d = rep_coreD [OF rep]
  have "usize_sub (length (rb_buffer b)) (rb_first_entry b) = st_high s - st_next s"
    using usize_sub_exact [OF d(5)] d(6) high(2) rep_core_nth(1) [OF rep] by simp
  moreover have "add_with_wraparound (wire (st_next s - 1)) (st_high s - st_next s) = wire (st_high s - 1)"
    using add_wire [of "st_high s - st_next s" "st_next s - 1"] high d(1) by simp
  ultimately show ?thesis by (simp add: d(4))
qed

lemma in_range_wire:
  assumes rep: "rep_core b s" and n: "st_next s \<le> n" "n < st_next s + 2 ^ 30" and high: "st_next s < st_high s"
  shows "is_after (wire n) (wire (st_high s - 1)) \<longleftrightarrow> st_high s \<le> n"
proof (cases "st_high s \<le> n")
  case True
  then show ?thesis using is_after_wire(1) [of "st_high s - 1" n] n high by auto
next
  case False
  then show ?thesis
    using is_after_wire(1) [of n n] is_after_wire(2) [of n "st_high s - 1"] n rep_coreD(3) [OF rep] high
    by (cases "n = st_high s - 1") auto
qed

text \<open>A message that extends the window: the numbers skipped become holes.\<close>

lemma rep_core_extend:
  assumes rep: "represents b s" and n: "st_high s \<le> n" "n < st_next s + 2 ^ 30"
    and b': "rb_last_sent b' = rb_last_sent b" "rb_lost_msgs b' = rb_lost_msgs b" "rb_first_entry b' = rb_first_entry b"
      "rb_buffer b' = rb_buffer b @ replicate (n - st_high s) None @ [Some m]"
  shows "represents b' (s\<lparr>st_held := (st_held s)(n \<mapsto> m), st_high := n + 1\<rparr>)"
proof -
  note core = representsD(1) [OF rep] and d = rep_coreD [OF representsD(1) [OF rep]]
  have len: "length (rb_buffer b) = rb_first_entry b + (st_high s - st_next s)"
    using rep_core_nth(1) [OF core] d(5) by linarith
  have "map ((st_held s)(n \<mapsto> m)) [st_next s..<n + 1] =
      map (st_held s) [st_next s..<st_high s] @ replicate (n - st_high s) None @ [Some m]"
  proof -
    have "[st_next s..<n + 1] = [st_next s..<st_high s] @ [st_high s..<n] @ [n]"
      using d(2) n(1) upt_add_eq_append [of "st_next s" "st_high s" "n - st_high s"] by simp
    moreover have "map ((st_held s)(n \<mapsto> m)) [st_high s..<n] = replicate (n - st_high s) None"
      using d(11) by (intro nth_equalityI) simp_all
    ultimately show ?thesis using n(1) by simp
  qed
  then have "drop (rb_first_entry b') (rb_buffer b') = map ((st_held s)(n \<mapsto> m)) [st_next s..<n + 1]"
    using d(5,7) by (simp add: b')
  moreover have "length (rb_buffer b') \<le> n + 1" "rb_first_entry b' \<le> length (rb_buffer b')"
    using d(5,6) n(1) by (simp_all add: b')
  moreover have "n \<notin> st_gone s" using d(8) n(1) by auto
  moreover have "st_gone s \<subseteq> {st_next s..<n + 1}" using d(8) n(1) by fastforce
  ultimately show ?thesis
    using d(1-4,9-11) n unfolding represents_def rep_core_def by (auto simp: b' simp del: upt_Suc)
qed

lemma rep_core_hold:
  assumes rep: "rep_core b s" and n: "st_next s \<le> n" "n < st_high s" "n \<notin> st_gone s"
  shows "rep_core (b\<lparr>rb_buffer := (rb_buffer b)[n - st_next s + rb_first_entry b := Some m]\<rparr>)
    (s\<lparr>st_held := (st_held s)(n \<mapsto> m)\<rparr>)"
proof -
  note d = rep_coreD [OF rep]
  have "drop (rb_first_entry b) ((rb_buffer b)[n - st_next s + rb_first_entry b := Some m]) =
    (map (st_held s) [st_next s..<st_high s])[n - st_next s := Some m]"
    by (simp add: drop_update_swap d(7))
  also have "\<dots> = map ((st_held s)(n \<mapsto> m)) [st_next s..<st_high s]"
    using n by (intro nth_equalityI) (auto simp: nth_list_update)
  finally show ?thesis
    using d n unfolding rep_core_def by auto
qed

text \<open>
  An arrival within \<open>2 ^ 30\<close> numbers of the next one, in either direction, is what the abstract
  receiver does with it. The number must not have been given up while still awaited.
\<close>

definition arrival_refines :: "nat \<Rightarrow> 'm \<Rightarrow> 'm receiver_buffer \<Rightarrow> 'm stream \<Rightarrow> bool" where
  "arrival_refines n m b s \<longleftrightarrow>
     (\<exists>b'. internal_on_received_message (wire n) (Some m) b =
         Some ((fst (fst (arrive n m s)), map wire (snd (fst (arrive n m s)))), b') \<and>
       represents b' (snd (arrive n m s)))"

definition in_window :: "nat \<Rightarrow> 'm stream \<Rightarrow> bool" where
  "in_window n s \<longleftrightarrow> n < st_next s + 2 ^ 30 \<and> st_next s \<le> n + 2 ^ 30 \<and> n < 2 ^ 62 \<and> n \<notin> st_gone s"

lemma in_windowD:
  assumes "in_window n s"
  shows "n < st_next s + 2 ^ 30" "st_next s \<le> n + 2 ^ 30" "n < 2 ^ 62" "n \<notin> st_gone s"
  using assms by (simp_all add: in_window_def)

lemma last_sent_started: "represents b s \<Longrightarrow> rb_last_sent b \<noteq> usize_MAX"
  by (simp add: represents_def rep_core_def)

lemma received_old:
  assumes rep: "represents b s" and win: "in_window n s" and old: "n < st_next s"
  shows "arrival_refines n m b s"
proof -
  note core = representsD(1) [OF rep] and d = rep_coreD [OF representsD(1) [OF rep]]
    and n = in_windowD [OF win] and start = last_sent_started [OF rep] and next_id = next_id_wire [OF representsD(1) [OF rep]]
  have "arrive n m s = (([], []), s)" using old by (simp add: arrive_def)
  moreover have "internal_on_received_message (wire n) (Some m) b = Some (([], []), b)"
    using not_after_old [OF core old n(2)] start next_id by (simp add: internal_on_received_message_def)
  ultimately show ?thesis using rep by (simp add: arrival_refines_def)
qed

lemma received_head:
  assumes rep: "represents b s" and win: "in_window n s" and head: "n = st_next s" "st_next s = st_high s"
  shows "arrival_refines n m b s"
proof -
  note core = representsD(1) [OF rep] and d = rep_coreD [OF representsD(1) [OF rep]]
    and n = in_windowD [OF win] and start = last_sent_started [OF rep] and next_id = next_id_wire [OF representsD(1) [OF rep]]
  from head have empty: "rb_buffer b = []" "st_gone s = {}" and none: "st_held s n = None"
    using representsD(2) [OF rep] d(8,11) by auto
  let ?s = "s\<lparr>st_held := (st_held s)(n \<mapsto> m), st_high := n + 1\<rparr>"
  have "deliver ?s = ([Some m], ?s\<lparr>st_next := n + 1\<rparr>)"
    using head(1) by (subst deliver.simps, subst deliver.simps) simp
  then have arr: "arrive n m s = (([Some m], []), ?s\<lparr>st_next := n + 1\<rparr>)"
    using head none by (simp add: arrive_def)
  have "internal_on_received_message (wire n) (Some m) b = Some (([Some m], []), b\<lparr>rb_last_sent := wire n\<rparr>)"
    using head(1) empty(1) start next_id by (simp add: internal_on_received_message_def)
  moreover have "represents (b\<lparr>rb_last_sent := wire n\<rparr>) (?s\<lparr>st_next := n + 1\<rparr>)"
    using d(9,11) empty representsD(3) [OF rep] head by (simp add: represents_def rep_core_def)
  ultimately show ?thesis using arr by (simp add: arrival_refines_def)
qed

lemma received_first:
  assumes rep: "represents b s" and win: "in_window n s" and first: "st_next s < n" "st_next s = st_high s"
  shows "arrival_refines n m b s"
proof -
  note core = representsD(1) [OF rep] and d = rep_coreD [OF representsD(1) [OF rep]]
    and n = in_windowD [OF win] and start = last_sent_started [OF rep] and next_id = next_id_wire [OF representsD(1) [OF rep]]
  from first have empty: "rb_buffer b = []" "rb_first_entry b = 0" and none: "st_held s n = None"
    using representsD(2,3) [OF rep] d(11) by auto
  have "id_distance (wire (st_next s)) (wire n) = n - st_next s"
    using first(1) n(1) by (intro id_distance_forward) simp_all
  moreover have "wire n \<noteq> wire (st_next s)" using wire_inject [of "st_next s" n] first(1) n(1) by auto
  ultimately have "internal_on_received_message (wire n) (Some m) b =
    Some (([], map wire [st_next s..<n]), b\<lparr>rb_first_entry := 0, rb_buffer := replicate (n - st_next s) None @ [Some m]\<rparr>)"
    using empty start next_id after_new [OF core _ n(1)] first(1) rtx_ids_wire [of "n - st_next s" "st_next s"]
    by (simp add: internal_on_received_message_def Let_def)
  moreover have "represents (b\<lparr>rb_first_entry := 0, rb_buffer := replicate (n - st_next s) None @ [Some m]\<rparr>)
    (s\<lparr>st_held := (st_held s)(n \<mapsto> m), st_high := n + 1\<rparr>)"
    using first n(1) empty by (intro rep_core_extend [OF rep]) simp_all
  ultimately show ?thesis using first none by (simp add: arrival_refines_def arrive_def)
qed

lemma received_inside:
  assumes rep: "represents b s" and win: "in_window n s" and inside: "st_next s \<le> n" "n < st_high s"
  shows "arrival_refines n m b s"
proof -
  note core = representsD(1) [OF rep] and d = rep_coreD [OF representsD(1) [OF rep]]
    and n = in_windowD [OF win] and start = last_sent_started [OF rep] and next_id = next_id_wire [OF representsD(1) [OF rep]]
  from inside have ne: "rb_buffer b \<noteq> []" "st_next s < st_high s" using representsD(4) [OF rep] by auto
  note be = buffer_end_wire [OF core ne(2)]
  have high: "st_high s < 2 ^ 63" using d(3) inside n by simp
  have dist: "id_distance (wire (st_next s)) (wire n) = n - st_next s"
    using inside(1) n(1) by (intro id_distance_forward) simp_all
  let ?b = "b\<lparr>rb_buffer := (rb_buffer b)[n - st_next s + rb_first_entry b := Some m]\<rparr>"
  have run: "internal_on_received_message (wire n) (Some m) b =
    (if st_held s n \<noteq> None then Some (([], []), b)
     else case release_msgs ?b of (ret, b') \<Rightarrow> Some ((ret, []), b'))"
    using ne start next_id after_new [OF core inside(1) n(1)] in_range_wire [OF core inside(1) n(1) ne(2)] inside(2)
      be [OF high] dist rep_core_nth(2,3) [OF core inside]
    by (simp add: internal_on_received_message_def Let_def)
  show ?thesis
  proof (cases "st_held s n")
    case (Some m')
    then show ?thesis using run rep inside by (simp add: arrival_refines_def arrive_def)
  next
    case None
    let ?s = "s\<lparr>st_held := (st_held s)(n \<mapsto> m)\<rparr>"
    have same: "s\<lparr>st_held := (st_held s)(n \<mapsto> m), st_high := max (st_high s) (n + 1)\<rparr> = ?s"
      using inside(2) by simp
    obtain b' where "release_msgs ?b = (fst (deliver ?s), b')" "represents b' (snd (deliver ?s))"
      using release_msgs_deliver [OF rep_core_hold [OF core inside n(4)]] by blast
    then show ?thesis using run None inside same by (simp add: arrival_refines_def arrive_def split_beta)
  qed
qed

lemma received_beyond:
  assumes rep: "represents b s" and win: "in_window n s" and beyond: "st_next s < st_high s" "st_high s \<le> n"
  shows "arrival_refines n m b s"
proof -
  note core = representsD(1) [OF rep] and d = rep_coreD [OF representsD(1) [OF rep]]
    and n = in_windowD [OF win] and start = last_sent_started [OF rep] and next_id = next_id_wire [OF representsD(1) [OF rep]]
  from beyond have ne: "rb_buffer b \<noteq> []" and none: "st_held s n = None" using representsD(4) [OF rep] d(11) by auto
  have high: "st_high s < 2 ^ 63" using beyond n(3) by simp
  have nx: "st_next s \<le> n" using beyond by simp
  have "add_with_wraparound (wire (st_high s - 1)) 1 = wire (st_high s)"
    using add_wire [of 1 "st_high s - 1"] beyond(1) by simp
  moreover have "id_distance (wire (st_high s)) (wire n) = n - st_high s"
    using beyond n(1) by (intro id_distance_forward) simp_all
  ultimately have "internal_on_received_message (wire n) (Some m) b =
    Some (([], map wire [st_high s..<n]), b\<lparr>rb_buffer := rb_buffer b @ replicate (n - st_high s) None @ [Some m]\<rparr>)"
    using ne start next_id after_new [OF core nx n(1)] in_range_wire [OF core nx n(1) beyond(1)] beyond(2)
      buffer_end_wire [OF core beyond(1) high] rtx_ids_wire [of "n - st_high s" "st_high s"]
    by (simp add: internal_on_received_message_def Let_def)
  moreover have "represents (b\<lparr>rb_buffer := rb_buffer b @ replicate (n - st_high s) None @ [Some m]\<rparr>)
    (s\<lparr>st_held := (st_held s)(n \<mapsto> m), st_high := n + 1\<rparr>)"
    using beyond n(1) by (intro rep_core_extend [OF rep]) simp_all
  ultimately show ?thesis using beyond none nx by (simp add: arrival_refines_def arrive_def)
qed

lemma received_refines:
  assumes "represents b s" "in_window n s"
  shows "arrival_refines n m b s"
proof -
  consider "n < st_next s" | "n = st_next s" "st_next s = st_high s" | "st_next s < n" "st_next s = st_high s"
    | "st_next s \<le> n" "n < st_high s" | "st_next s < st_high s" "st_high s \<le> n"
    using rep_coreD(2) [OF representsD(1) [OF assms(1)]] by linarith
  then show ?thesis
  proof cases
    case 1 then show ?thesis by (rule received_old [OF assms])
  next
    case 2 then show ?thesis by (rule received_head [OF assms])
  next
    case 3 then show ?thesis by (rule received_first [OF assms])
  next
    case 4 then show ?thesis by (rule received_inside [OF assms])
  next
    case 5 then show ?thesis by (rule received_beyond [OF assms])
  qed
qed

lemma lost_refines:
  assumes rep: "represents b s" and n: "st_next s \<le> n" "n < st_high s" "st_held s n = None"
  shows "\<exists>b'. on_lost_message (wire n) b = (fst (give_up n s), b') \<and> represents b' (snd (give_up n s))"
proof -
  note core = representsD(1) [OF rep] and d = rep_coreD [OF representsD(1) [OF rep]]
  have "rep_core (b\<lparr>rb_lost_msgs := List.insert (wire n) (rb_lost_msgs b)\<rparr>) (s\<lparr>st_gone := insert n (st_gone s)\<rparr>)"
    using d n unfolding rep_core_def by auto
  then show ?thesis
    using release_msgs_deliver unfolding on_lost_message_def give_up_def by blast
qed

section \<open>In-order delivery of a stream\<close>

text \<open>
  A run of the buffer over a stream \<open>src\<close>: messages arrive in any order, possibly more than
  once, and missing numbers are given up when their retransmission fails.
\<close>

datatype stream_event = Arrives nat | Given_Up nat

fun buffer_run ::
  "(nat \<Rightarrow> 'm) \<Rightarrow> stream_event list \<Rightarrow> 'm receiver_buffer \<Rightarrow> ('m option list \<times> 'm receiver_buffer) option" where
  "buffer_run src [] b = Some ([], b)"
| "buffer_run src (Arrives n # es) b =
     do {
       ((out, _), b1) \<leftarrow> internal_on_received_message (wire n) (Some (src n)) b;
       (outs, b2) \<leftarrow> buffer_run src es b1;
       Some (out @ outs, b2)
     }"
| "buffer_run src (Given_Up n # es) b =
     (case on_lost_message (wire n) b of
        (out, b1) \<Rightarrow> do { (outs, b2) \<leftarrow> buffer_run src es b1; Some (out @ outs, b2) })"

text \<open>The same run of the abstract receiver, and which events it admits.\<close>

fun stream_step :: "(nat \<Rightarrow> 'm) \<Rightarrow> stream_event \<Rightarrow> 'm stream \<Rightarrow> 'm option list \<times> 'm stream" where
  "stream_step src (Arrives n) s = (case arrive n (src n) s of ((out, _), s') \<Rightarrow> (out, s'))"
| "stream_step src (Given_Up n) s = give_up n s"

fun event_ok :: "stream_event \<Rightarrow> 'm stream \<Rightarrow> bool" where
  "event_ok (Arrives n) s = in_window n s"
| "event_ok (Given_Up n) s = (st_next s \<le> n \<and> n < st_high s \<and> st_held s n = None)"

fun events_ok :: "(nat \<Rightarrow> 'm) \<Rightarrow> stream_event list \<Rightarrow> 'm stream \<Rightarrow> bool" where
  "events_ok src [] s = True"
| "events_ok src (e # es) s = (event_ok e s \<and> events_ok src es (snd (stream_step src e s)))"

fun stream_run :: "(nat \<Rightarrow> 'm) \<Rightarrow> stream_event list \<Rightarrow> 'm stream \<Rightarrow> 'm option list \<times> 'm stream" where
  "stream_run src [] s = ([], s)"
| "stream_run src (e # es) s =
     (case stream_step src e s of (out, s1) \<Rightarrow> (case stream_run src es s1 of (outs, s2) \<Rightarrow> (out @ outs, s2)))"

lemma buffer_run_refines:
  assumes "represents b s" "events_ok src es s"
  shows "\<exists>b'. buffer_run src es b = Some (fst (stream_run src es s), b') \<and> represents b' (snd (stream_run src es s))"
  using assms
proof (induction es arbitrary: b s)
  case (Cons e es)
  have "\<exists>b1. represents b1 (snd (stream_step src e s)) \<and>
    buffer_run src (e # es) b = map_option (\<lambda>(outs, b2). (fst (stream_step src e s) @ outs, b2)) (buffer_run src es b1)"
  proof (cases e)
    case (Arrives n)
    then obtain b1 where "internal_on_received_message (wire n) (Some (src n)) b =
        Some ((fst (fst (arrive n (src n) s)), map wire (snd (fst (arrive n (src n) s)))), b1)"
      "represents b1 (snd (arrive n (src n) s))"
      using received_refines [OF Cons.prems(1), of n "src n"] Cons.prems(2) by (auto simp: arrival_refines_def)
    then show ?thesis
      using Arrives by (intro exI [of _ b1]) (cases "buffer_run src es b1"; auto simp: split_beta)
  next
    case (Given_Up n)
    then obtain b1 where "on_lost_message (wire n) b = (fst (give_up n s), b1)" "represents b1 (snd (give_up n s))"
      using lost_refines [OF Cons.prems(1), of n] Cons.prems(2) by auto
    then show ?thesis
      using Given_Up by (intro exI [of _ b1]) (cases "buffer_run src es b1"; auto simp: split_beta)
  qed
  then obtain b1 where "represents b1 (snd (stream_step src e s))"
    "buffer_run src (e # es) b = map_option (\<lambda>(outs, b2). (fst (stream_step src e s) @ outs, b2)) (buffer_run src es b1)"
    by blast
  then show ?case
    using Cons.IH [of b1 "snd (stream_step src e s)"] Cons.prems(2) by (auto simp: split_beta)
qed simp


text \<open>
  What the abstract receiver knows after the events \<open>es\<close> of a stream that starts at \<open>k\<close>: it
  holds only messages that arrived, it skipped only numbers given up, and an event never gets lost.
\<close>

definition tracked :: "(nat \<Rightarrow> 'm) \<Rightarrow> nat \<Rightarrow> stream_event list \<Rightarrow> 'm stream \<Rightarrow> bool" where
  "tracked src k es s \<longleftrightarrow>
     k \<le> st_next s \<and> st_next s \<le> st_high s \<and>
     (\<forall>n m. st_held s n = Some m \<longrightarrow> n < st_high s \<and> m = src n \<and> Arrives n \<in> set es) \<and>
     (\<forall>n. k \<le> n \<and> n < st_next s \<and> st_held s n = None \<longrightarrow> Given_Up n \<in> set es) \<and>
     (\<forall>n\<in>st_gone s. n < st_high s \<and> Given_Up n \<in> set es) \<and>
     (\<forall>n. Arrives n \<in> set es \<longrightarrow> n < st_next s \<or> st_held s n \<noteq> None) \<and>
     (\<forall>n. Given_Up n \<in> set es \<longrightarrow> n < st_next s \<or> n \<in> st_gone s)"

lemma deliver_step_tracked:
  assumes "tracked src k es s" "st_next s < st_high s" "st_held s (st_next s) \<noteq> None \<or> st_next s \<in> st_gone s"
  shows "tracked src k es (s\<lparr>st_next := st_next s + 1,
    st_gone := (if st_held s (st_next s) = None then st_gone s - {st_next s} else st_gone s)\<rparr>)"
  using assms unfolding tracked_def by (auto simp: less_Suc_eq)

lemma deliver_tracked:
  assumes "tracked src k es s"
  shows "tracked src k es (snd (deliver s)) \<and> st_held (snd (deliver s)) = st_held s \<and>
    st_next s \<le> st_next (snd (deliver s)) \<and>
    fst (deliver s) = map (st_held s) [st_next s..<st_next (snd (deliver s))]"
  using assms
proof (induction s rule: deliver.induct)
  case (1 s)
  let ?s = "s\<lparr>st_next := st_next s + 1,
    st_gone := (if st_held s (st_next s) = None then st_gone s - {st_next s} else st_gone s)\<rparr>"
  show ?case
  proof (cases "st_next s < st_high s \<and> (st_held s (st_next s) \<noteq> None \<or> st_next s \<in> st_gone s)")
    case True
    then have del: "deliver s = (st_held s (st_next s) # fst (deliver ?s), snd (deliver ?s))"
      by (subst deliver.simps) (simp add: split_beta)
    have "tracked src k es ?s" using True by (intro deliver_step_tracked 1(2)) auto
    note ih = 1(1) [OF True this]
    then have "st_next s < st_next (snd (deliver ?s))" by simp
    then show ?thesis using ih by (simp add: del upt_conv_Cons)
  next
    case False
    then have "deliver s = ([], s)" by (intro deliver_settled) (auto simp: settled_def)
    then show ?thesis using 1(2) by simp
  qed
qed

text \<open>One event: what it delivers follows on from what was delivered before.\<close>

definition extends :: "(nat \<Rightarrow> 'm) \<Rightarrow> nat \<Rightarrow> stream_event list \<Rightarrow> 'm stream \<Rightarrow> 'm option list \<times> 'm stream \<Rightarrow> bool" where
  "extends src k es s r \<longleftrightarrow>
     tracked src k es (snd r) \<and> settled (snd r) \<and> st_next s \<le> st_next (snd r) \<and>
     (\<forall>n < st_next s. st_held (snd r) n = st_held s n) \<and>
     fst r = map (st_held (snd r)) [st_next s..<st_next (snd r)]"

lemma deliver_extends:
  assumes "tracked src k es s1" "st_next s1 = st_next s" "\<forall>n < st_next s. st_held s1 n = st_held s n"
  shows "extends src k es s (deliver s1)"
  using deliver_tracked [OF assms(1)] deliver_settles [of s1] assms(2,3) by (simp add: extends_def)

lemma hold_tracked:
  assumes "tracked src k es s" "st_next s \<le> n" "st_held s n = None" "st_high s \<le> h" "n < h"
  shows "tracked src k (es @ [Arrives n]) (s\<lparr>st_held := (st_held s)(n \<mapsto> src n), st_high := h\<rparr>)"
proof -
  have "x < h" if "x < st_high s" for x using that assms(4) by simp
  then show ?thesis using assms(1-3,5) unfolding tracked_def by auto
qed

lemma settled_tracked:
  assumes "tracked src k es s" "settled s"
  shows "st_held s (st_next s) = None" "st_next s \<notin> st_gone s"
proof -
  have "st_held s (st_next s) = None \<and> st_next s \<notin> st_gone s" if "\<not> st_next s < st_high s"
    using that assms(1) unfolding tracked_def by (metis not_None_eq)
  then show "st_held s (st_next s) = None" "st_next s \<notin> st_gone s" using assms(2) by (auto simp: settled_def)
qed

lemma stream_step_extends:
  assumes tr: "tracked src k es s" and st: "settled s" and ok: "event_ok e s"
  shows "extends src k (es @ [e]) s (stream_step src e s)"
proof (cases e)
  case (Given_Up n)
  have "tracked src k (es @ [e]) (s\<lparr>st_gone := insert n (st_gone s)\<rparr>)"
    using tr ok Given_Up unfolding tracked_def by auto
  then have "extends src k (es @ [e]) s (deliver (s\<lparr>st_gone := insert n (st_gone s)\<rparr>))"
    by (intro deliver_extends) simp_all
  then show ?thesis using Given_Up by (simp add: give_up_def)
next
  case (Arrives n)
  let ?s = "s\<lparr>st_held := (st_held s)(n \<mapsto> src n), st_high := max (st_high s) (n + 1)\<rparr>"
  consider "n < st_next s \<or> st_held s n \<noteq> None" | "st_next s \<le> n" "st_held s n = None" "n < st_high s \<or> n = st_next s"
    | "st_next s < n" "st_held s n = None" "st_high s \<le> n"
    by linarith
  then show ?thesis
  proof cases
    case 1
    have "tracked src k (es @ [e]) s" using tr 1 Arrives unfolding tracked_def by auto
    then show ?thesis using 1 st Arrives by (auto simp: arrive_def extends_def)
  next
    case 2
    have "tracked src k (es @ [e]) ?s" unfolding Arrives using 2(1,2) by (rule hold_tracked [OF tr]) auto
    then have "extends src k (es @ [e]) s (deliver ?s)" using 2(1) by (intro deliver_extends) auto
    then show ?thesis using 2 Arrives by (simp add: arrive_def split_beta)
  next
    case 3
    have "tracked src k (es @ [e]) ?s" unfolding Arrives using 3(1,2) by (intro hold_tracked [OF tr less_imp_le]) simp_all
    moreover have "settled ?s" using settled_tracked [OF tr st] 3(1) by (simp add: settled_def)
    ultimately show ?thesis using 3 Arrives by (simp add: arrive_def extends_def)
  qed
qed


lemma stream_run_extends:
  assumes "tracked src k ds s" "settled s" "events_ok src es s"
  shows "extends src k (ds @ es) s (stream_run src es s)"
  using assms
proof (induction es arbitrary: ds s)
  case (Cons e es)
  obtain out s1 where step: "stream_step src e s = (out, s1)" by fastforce
  obtain outs s2 where run: "stream_run src es s1 = (outs, s2)" by fastforce
  have one: "extends src k (ds @ [e]) s (out, s1)"
    using stream_step_extends [OF Cons.prems(1,2), of e] Cons.prems(3) step by simp
  then have rest: "extends src k (ds @ e # es) s1 (outs, s2)"
    using Cons.IH [of "ds @ [e]" s1] Cons.prems(3) step run by (simp add: extends_def)
  have "out = map (st_held s2) [st_next s..<st_next s1]"
    using one rest by (simp add: extends_def)
  moreover have "[st_next s..<st_next s2] = [st_next s..<st_next s1] @ [st_next s1..<st_next s2]"
    using one rest upt_add_eq_append [of "st_next s" "st_next s1" "st_next s2 - st_next s1"]
    by (simp add: extends_def)
  ultimately show ?case using one rest step run by (simp add: extends_def)
qed (simp add: extends_def)

text \<open>A fresh buffer for a stream that starts at number \<open>k\<close>.\<close>

definition fresh_stream :: "nat \<Rightarrow> 'm stream" where
  "fresh_stream k = \<lparr>st_next = k, st_high = k, st_held = Map.empty, st_gone = {}\<rparr>"

lemma fresh_represents: "0 < k \<Longrightarrow> represents (rb_starting_at (wire k)) (fresh_stream k)"
proof -
  assume k: "0 < k"
  have "usize_add (wire k) MAX_ID mod (MAX_ID + 1) = wire (k + MAX_ID)"
    using add_wire [of MAX_ID k] by (simp add: add_with_wraparound_def MAX_ID_def MAX_PUBLISH_ID_def)
  also have "k + MAX_ID = (k - 1) + 2 ^ 31" using k MAX_ID_Suc(1) by simp
  also have "wire \<dots> = wire (k - 1)" by (simp add: wire_def)
  finally show ?thesis
    using k by (simp add: represents_def rep_core_def rb_starting_at_def rb_default_def fresh_stream_def)
qed

lemma fresh_tracked: "tracked src k [] (fresh_stream k)" "settled (fresh_stream k)"
  by (simp_all add: tracked_def settled_def fresh_stream_def)

text \<open>Once every number up to \<open>j\<close> arrived or was given up, all of them are delivered.\<close>

lemma tracked_complete:
  assumes "tracked src k es s" "settled s" "\<forall>n. k \<le> n \<and> n < j \<longrightarrow> Arrives n \<in> set es \<or> Given_Up n \<in> set es"
  shows "j \<le> st_next s \<or> j \<le> k"
proof (rule ccontr)
  assume "\<not> (j \<le> st_next s \<or> j \<le> k)"
  then have "Arrives (st_next s) \<in> set es \<or> Given_Up (st_next s) \<in> set es"
    using assms(1,3) by (auto simp: tracked_def)
  then have "st_held s (st_next s) \<noteq> None \<or> st_next s \<in> st_gone s" "st_next s < st_high s"
    using assms(1) unfolding tracked_def by blast+
  then show False using assms(2) by (auto simp: settled_def)
qed

lemma buffer_run_from:
  assumes "0 < k" "events_ok src es (fresh_stream k)"
  obtains outs b' s' where "buffer_run src es (rb_starting_at (wire k)) = Some (outs, b')"
    "represents b' s'" "tracked src k es s'" "settled s'" "outs = map (st_held s') [k..<st_next s']"
proof -
  let ?r = "stream_run src es (fresh_stream k)"
  obtain b' where b': "buffer_run src es (rb_starting_at (wire k)) = Some (fst ?r, b')" "represents b' (snd ?r)"
    using buffer_run_refines [OF fresh_represents [OF assms(1)] assms(2)] by blast
  have "extends src k es (fresh_stream k) ?r"
    using stream_run_extends [OF fresh_tracked assms(2)] by simp
  then show thesis using b' by (intro that [of "fst ?r" b' "snd ?r"]) (simp_all add: extends_def fresh_stream_def)
qed

end
