(* ===== verification/Session_Properties.thy ===== *)
theory Session_Properties
  imports Timer Producer_Buffer Receiver_Buffer
begin

text \<open>
  The correctness properties of the session layer's building blocks: retransmission timers, the
  producer buffer and the reorder buffer of the receiver.
\<close>

section \<open>The receiver buffer\<close>









text \<open>
  C25. Id arithmetic is exact across the wrap-around at \<open>2 ^ 31\<close>: for numbers less than \<open>2 ^ 31\<close>
  apart the distance of their ids is their distance, and \<open>is_after\<close> orders them as the numbers
  are ordered as long as they are at most \<open>2 ^ 30\<close> apart.
\<close>

theorem id_arithmetic_exact:
  assumes "a \<le> b" "b < a + 2 ^ 31"
  shows "id_distance (wire a) (wire b) = b - a \<and> (is_after (wire b) (wire a) \<longleftrightarrow> a < b \<and> b \<le> a + 2 ^ 30) \<and>
    (k < 2 ^ 63 \<longrightarrow> add_with_wraparound (wire a) k = wire (a + k))"
  using id_distance_forward [OF assms] is_after_wire(1) [OF assms] add_wire by simp

theorem id_arithmetic_exact_witness:
  "id_distance 2147483647 2 = 3 \<and> is_after 2 2147483647 \<and> add_with_wraparound 2147483647 3 = 2"
  using id_arithmetic_exact [of 2147483647 2147483650 3] by (simp add: wire_def)

section \<open>The producer buffer\<close>

text \<open>
  C22. The producer buffer keeps the newest messages: after pushing any messages with distinct ids
  onto a fresh buffer it holds exactly the last \<open>capacity\<close> of them, and iterates over them oldest
  first.
\<close>

theorem producer_keeps_newest:
  assumes "capacity > 0" "map stored_id ms = map Some is" "distinct is"
  shows "\<exists>b. push_all pb_push ms (pb_with_capacity x capacity) = Some b \<and>
    map get_id (pb_iter b) = map Some (newest capacity is) \<and>
    (\<forall>i. pb_get b i \<noteq> None \<longleftrightarrow> i \<in> set (newest capacity is))"
proof -
  note new = pb_with_capacity_inv [OF assms(1), of x]
  obtain b where b: "push_all pb_push ms (pb_with_capacity x capacity) = Some b" "pb_inv b"
    "pb_ids b = newest capacity is"
    using pb.push_all_correct [OF new(1) assms(2,3)] new(2) by (auto simp: pb_with_capacity_def)
  have "get_id (the (pb_get b i)) = Some i" if "i \<in> set (pb_ids b)" for i
    using that pb_get_ids [OF b(2)] pb_invD(8) [OF b(2)] by (auto simp: pb_get_def)
  then have "map get_id (pb_iter b) = map Some (newest capacity is)"
    unfolding pb_iter_correct [OF b(2)] b(3) by simp
  with b pb_get_ids [OF b(2)] show ?thesis by auto
qed

definition demo_stored :: "nat \<Rightarrow> proto_message" where
  "demo_stored i = \<lparr>metadata = [], message_type = Some (Publish
     \<lparr>pub_header = Some \<lparr>hdr_source = None, hdr_destination = Some \<lparr>enc_name = None, str_name = None\<rparr>,
        hdr_identity = [], hdr_fanout = 1, hdr_version = [], hdr_ttl = 8, hdr_recv_from = None, hdr_forward_to = None,
        hdr_incoming_conn = None, hdr_error = None, hdr_mac = None, hdr_e2e_sig = None\<rparr>,
      pub_session = Some \<lparr>sh_session_type = PointToPoint, sh_message_type = Msg, sh_session_id = 1, sh_message_id = i\<rparr>,
      pub_msg = None\<rparr>)\<rparr>"

theorem producer_keeps_newest_witness:
  "\<forall>x. \<exists>b. push_all pb_push (map demo_stored [5, 7, 6]) (pb_with_capacity x 2) = Some b \<and>
    map get_id (pb_iter b) = [Some 7, Some 6]"
proof -
  have "map stored_id (map demo_stored [5, 7, 6]) = map Some [5, 7, 6]"
    by (simp add: stored_id_def demo_stored_def accessor_defs)
  moreover have "(0 :: nat) < 2" "distinct [5, 7, 6 :: nat]" "newest 2 [5, 7, 6] = [7, 6 :: nat]"
    by (simp_all add: newest_def)
  ultimately have keep: "\<exists>b. push_all pb_push (map demo_stored [5, 7, 6]) (pb_with_capacity x 2) = Some b \<and>
      map get_id (pb_iter b) = map Some [7, 6]" for x
    using producer_keeps_newest [of 2 "map demo_stored [5, 7, 6]" "[5, 7, 6]" x] by metis
  then show ?thesis by simp
qed

section \<open>Timers\<close>

text \<open>
  C23. A timer with a retry limit \<open>m\<close> ends: it fires \<open>m\<close> times, after the delays of its back-off
  (constant, or doubling up to its cap), and then reports its failure once; more time changes
  nothing. The side conditions are that the 32-bit counter and the duration do not overflow.
\<close>

theorem timer_runs_out:
  assumes "ts_max_retries s = Some m" "m < 2 ^ 32 - 1" "m < fuel"
    and "ts_timer_type s = Exponential \<longrightarrow> (\<forall>i<m. backoff s i * 2 \<le> duration_MAX)"
  shows "task_run fuel s (task_start s) =
    map (\<lambda>i. (backoff s i, TimerTimeout (i + 1))) [0..<m] @ [(backoff s m, TimerFailure (m + 1))]"
proof -
  have run: "task_run (Suc m) s (task_start s) =
      map (\<lambda>i. (backoff s i, TimerTimeout (i + 1))) [0..<m] @ [(backoff s m, TimerFailure (m + 1))]"
    using assms(1,2,4) by (intro task_run_prefix [OF task_at_start]) auto
  from task_run_fuel [OF this, of fuel] run assms(3) show ?thesis by simp
qed

theorem timer_runs_out_witness:
  "task_run 10 (with_max_retries 3 (settings_exponential 100 (Some 250)))
     (task_start (with_max_retries 3 (settings_exponential 100 (Some 250)))) =
   [(100, TimerTimeout 1), (200, TimerTimeout 2), (250, TimerTimeout 3), (250, TimerFailure 4)]"
proof -
  let ?s = "with_max_retries 3 (settings_exponential 100 (Some 250))"
  have delay: "backoff ?s i = min 250 (100 * 2 ^ i)" for i
    by (simp add: with_max_retries_def settings_exponential_def backoff_def)
  have "task_run 10 ?s (task_start ?s) =
      map (\<lambda>i. (backoff ?s i, TimerTimeout (i + 1))) [0..<3] @ [(backoff ?s 3, TimerFailure (3 + 1))]"
  proof (rule timer_runs_out)
    show "ts_timer_type ?s = Exponential \<longrightarrow> (\<forall>i<3. backoff ?s i * 2 \<le> duration_MAX)"
      unfolding delay by (simp add: duration_MAX_def min_def)
  qed (simp_all add: with_max_retries_def)
  moreover have "[0..<3] = [0, 1, 2 :: nat]" by code_simp
  ultimately show ?thesis unfolding delay by simp
qed

end
