(* ===== verification/Message_Headers.thy ===== *)
theory Message_Headers
  imports Messages
begin

text \<open>
  The routing fields of a message, as the data path reads and writes them
  (\<^verbatim>\<open>crates/proto/src/impls.rs\<close>), and the messages it builds itself: acknowledgements and the
  subscriptions forwarded to peers (\<^verbatim>\<open>crates/datapath/src/sync.rs\<close>). \<open>None\<close> is the panic of
  an accessor.
\<close>

definition get_type :: "proto_message \<Rightarrow> message_type option" where
  "get_type m = message_type m"

definition is_link :: "proto_message \<Rightarrow> bool option" where
  "is_link m = map_option (\<lambda>t. case t of Link _ \<Rightarrow> True | _ \<Rightarrow> False) (get_type m)"

definition is_subscription_ack :: "proto_message \<Rightarrow> bool option" where
  "is_subscription_ack m = map_option (\<lambda>t. case t of SubscriptionAck _ \<Rightarrow> True | _ \<Rightarrow> False) (get_type m)"

definition get_fanout :: "proto_message \<Rightarrow> nat option" where
  "get_fanout m = map_option hdr_fanout (get_slim_header m)"

definition get_recv_from :: "proto_message \<Rightarrow> nat option option" where
  "get_recv_from m = map_option hdr_recv_from (get_slim_header m)"

definition get_forward_to :: "proto_message \<Rightarrow> nat option option" where
  "get_forward_to m = map_option hdr_forward_to (get_slim_header m)"

definition get_ttl :: "proto_message \<Rightarrow> nat option" where
  "get_ttl m = map_option hdr_ttl (get_slim_header m)"

definition get_identity :: "proto_message \<Rightarrow> string option" where
  "get_identity m = map_option hdr_identity (get_slim_header m)"

definition get_connections :: "slim_header \<Rightarrow> (nat \<times> nat option \<times> nat option) option" where
  "get_connections h = map_option (\<lambda>i. (i, hdr_recv_from h, hdr_forward_to h)) (hdr_incoming_conn h)"

definition clear_flags :: "slim_header \<Rightarrow> slim_header" where
  "clear_flags h = h\<lparr>hdr_recv_from := None, hdr_forward_to := None\<rparr>"

definition clear_slim_header :: "proto_message \<Rightarrow> proto_message option" where
  "clear_slim_header m =
     do {
       l \<leftarrow> is_link m;
       a \<leftarrow> is_subscription_ack m;
       if l \<or> a then Some m else update_slim_header clear_flags m
     }"

definition set_incoming_conn :: "nat option \<Rightarrow> proto_message \<Rightarrow> proto_message option" where
  "set_incoming_conn c m = update_slim_header (\<lambda>h. h\<lparr>hdr_incoming_conn := c\<rparr>) m"

definition msg_decrement_ttl :: "proto_message \<Rightarrow> (nat \<times> proto_message) option" where
  "msg_decrement_ttl m =
     do {
       m' \<leftarrow> update_slim_header decrement_ttl m;
       t \<leftarrow> get_ttl m';
       Some (t, m')
     }"

definition get_subscription_id :: "proto_message \<Rightarrow> nat option" where
  "get_subscription_id m =
     (case message_type m of
        Some (Subscribe s) \<Rightarrow> if subscription_id s \<noteq> 0 then Some (subscription_id s) else None
      | Some (Unsubscribe s) \<Rightarrow> if subscription_id s \<noteq> 0 then Some (subscription_id s) else None
      | _ \<Rightarrow> None)"

definition build_subscription_ack :: "nat \<Rightarrow> bool \<Rightarrow> string \<Rightarrow> proto_message" where
  "build_subscription_ack i success err =
     \<lparr>metadata = b_metadata builder_new,
      message_type = Some (SubscriptionAck \<lparr>ack_subscription_id = i, ack_success = success, ack_error = err\<rparr>)\<rparr>"

definition sync_builder :: "proto_name \<Rightarrow> nat \<Rightarrow> nat \<Rightarrow> message_builder" where
  "sync_builder n i ttl =
     with_flags (\<lambda>f. f\<lparr>fl_ttl := ttl\<rparr>)
       (builder_new\<lparr>b_source := Some n, b_destination := Some n, b_subscription_id := Some i\<rparr>)"

definition build_subscribe_msg :: "externs \<Rightarrow> proto_name \<Rightarrow> nat \<Rightarrow> nat \<Rightarrow> message_error + proto_message" where
  "build_subscribe_msg x n i ttl = build_subscribe x (sync_builder n i ttl)"

definition build_unsubscribe_msg :: "externs \<Rightarrow> proto_name \<Rightarrow> nat \<Rightarrow> nat \<Rightarrow> message_error + proto_message" where
  "build_unsubscribe_msg x n i ttl = build_unsubscribe x (sync_builder n i ttl)"

lemmas header_defs =
  is_link_def is_subscription_ack_def get_type_def get_fanout_def get_recv_from_def get_forward_to_def
  get_ttl_def get_identity_def

section \<open>Messages with a header\<close>

text \<open>
  The routed messages (publish, subscribe, unsubscribe) that passed validation: they have a header
  with both encoded names.
\<close>

definition routed_ok :: "proto_message \<Rightarrow> bool" where
  "routed_ok m \<longleftrightarrow> get_encoded_source m \<noteq> None \<and> get_encoded_dst m \<noteq> None"

lemma routed_okE:
  assumes "routed_ok m"
  obtains h src dst se de where "get_slim_header m = Some h" "hdr_source h = Some src" "enc_name src = Some se"
    "hdr_destination h = Some dst" "enc_name dst = Some de"
proof -
  from assms obtain se de where "get_encoded_source m = Some se" "get_encoded_dst m = Some de"
    by (auto simp: routed_ok_def)
  then show thesis
    using that by (auto simp: get_encoded_source_def get_encoded_dst_def get_source_def get_dst_def bind_eq_Some_conv)
qed

lemma routed_header_ok:
  "validate_routed_header h = Inr () \<longleftrightarrow>
     (\<exists>src dst. hdr_source h = Some src \<and> enc_name src \<noteq> None \<and> hdr_destination h = Some dst \<and> enc_name dst \<noteq> None)"
  by (auto simp: validate_routed_header_def split: option.splits)

lemma validate_routed:
  assumes "validate m = Inr ()" "is_link m = Some False" "is_subscription_ack m = Some False"
  shows "routed_ok m"
proof -
  have "\<exists>h. get_slim_header m = Some h \<and> validate_routed_header h = Inr ()"
    using assms
    by (auto simp: validate_def validate_publish_def validate_subscribe_def header_defs get_slim_header_def
        split: option.splits message_type.splits sum.splits if_splits)
  then show ?thesis
    by (auto simp: routed_header_ok routed_ok_def get_encoded_source_def get_encoded_dst_def get_source_def get_dst_def)
qed

text \<open>Rewriting the header in place: what a later reader sees.\<close>

lemma get_update_slim_header:
  assumes "get_slim_header m = Some h"
  shows "\<exists>m'. update_slim_header f m = Some m' \<and> get_slim_header m' = Some (f h) \<and>
    get_session_header m' = get_session_header m \<and> get_subscription_id m' = get_subscription_id m \<and>
    is_link m' = is_link m \<and> is_subscription_ack m' = is_subscription_ack m \<and> metadata m' = metadata m"
proof (cases "message_type m")
  case None
  then show ?thesis using assms by (simp add: get_slim_header_def)
next
  case (Some t)
  note defs = update_slim_header_def get_slim_header_def get_session_header_def get_subscription_id_def header_defs
  show ?thesis using Some assms by (cases t) (simp_all add: defs)
qed

end
