(* ===== verification/Peer_Sync.thy ===== *)
theory Peer_Sync
  imports Message_Headers Subscription_Table "HOL-Library.List_Lexorder" "HOL-Library.Char_ord"
begin

text \<open>
  Subscription synchronisation (\<^verbatim>\<open>crates/datapath/src/sync/\<close>): the table of connected peers
  (\<^verbatim>\<open>state.rs\<close>), the tracker of forwarded subscriptions and of the acknowledgements they wait for
  (\<^verbatim>\<open>forwarder.rs\<close>), and the subscriptions replayed to a remote node (\<^verbatim>\<open>remote.rs\<close>).

  A \<open>oneshot\<close> channel is an entry of \<open>ack_channels\<close>, created by \<open>register_ack\<close>: its
  receiver sees a value that was sent, or, when the sender was dropped without sending, an error.
\<close>

section \<open>Connected peers\<close>

record peer_entry =
  peer_conn_id :: conn_id
  peer_endpoint :: string
  peer_is_outgoing :: bool

record peer_state =
  peers :: "(string, peer_entry) hmap"
  conn_to_peer :: "(conn_id, string) hmap"

definition peer_state_new :: peer_state where
  "peer_state_new = \<lparr>peers = [], conn_to_peer = []\<rparr>"

definition peer_state_insert :: "string \<Rightarrow> peer_entry \<Rightarrow> peer_state \<Rightarrow> bool \<times> peer_state" where
  "peer_state_insert p e s =
     (if hget (peers s) p \<noteq> None then (False, s)
      else (True, s\<lparr>conn_to_peer := hput (peer_conn_id e) p (conn_to_peer s), peers := hput p e (peers s)\<rparr>))"

definition peer_state_remove :: "string \<Rightarrow> peer_state \<Rightarrow> peer_entry option \<times> peer_state" where
  "peer_state_remove p s =
     (case hget (peers s) p of
        Some e \<Rightarrow> (Some e, s\<lparr>peers := hdel p (peers s), conn_to_peer := hdel (peer_conn_id e) (conn_to_peer s)\<rparr>)
      | None \<Rightarrow> (None, s))"

definition peer_state_remove_by_conn :: "conn_id \<Rightarrow> peer_state \<Rightarrow> (string \<times> peer_entry) option \<times> peer_state" where
  "peer_state_remove_by_conn c s =
     (case hget (conn_to_peer s) c of
        None \<Rightarrow> (None, s)
      | Some p \<Rightarrow>
          let s1 = s\<lparr>conn_to_peer := hdel c (conn_to_peer s)\<rparr> in
          (case hget (peers s1) p of
             Some e \<Rightarrow> (Some (p, e), s1\<lparr>peers := hdel p (peers s1)\<rparr>)
           | None \<Rightarrow> (None, s1)))"

definition peer_state_contains :: "string \<Rightarrow> peer_state \<Rightarrow> bool" where
  "peer_state_contains p s \<longleftrightarrow> hget (peers s) p \<noteq> None"

definition peer_state_conn_id :: "string \<Rightarrow> peer_state \<Rightarrow> conn_id option" where
  "peer_state_conn_id p s = map_option peer_conn_id (hget (peers s) p)"

definition all_conn_ids :: "peer_state \<Rightarrow> conn_id list" where
  "all_conn_ids s = map peer_conn_id (hvalues (peers s))"

definition peer_id_for_conn :: "conn_id \<Rightarrow> peer_state \<Rightarrow> string option" where
  "peer_id_for_conn c s = hget (conn_to_peer s) c"

definition peer_state_get :: "string \<Rightarrow> peer_state \<Rightarrow> peer_entry option" where
  "peer_state_get p s = hget (peers s) p"

text \<open>Both maps describe the same one-to-one relation of peers and connections.\<close>

definition peer_state_inv :: "peer_state \<Rightarrow> bool" where
  "peer_state_inv s \<longleftrightarrow> hmap_wf (peers s) \<and> hmap_wf (conn_to_peer s) \<and>
     (\<forall>c p. hget (conn_to_peer s) c = Some p \<longleftrightarrow> (\<exists>e. hget (peers s) p = Some e \<and> peer_conn_id e = c))"

lemma peer_state_invD:
  assumes "peer_state_inv s"
  shows "hget (conn_to_peer s) c = Some p \<longleftrightarrow> (\<exists>e. hget (peers s) p = Some e \<and> peer_conn_id e = c)"
  using assms by (simp add: peer_state_inv_def)

lemma peer_state_invI:
  assumes "hmap_wf (peers s)" "hmap_wf (conn_to_peer s)"
    and "\<And>c p. hget (conn_to_peer s) c = Some p \<longleftrightarrow> (\<exists>e. hget (peers s) p = Some e \<and> peer_conn_id e = c)"
  shows "peer_state_inv s"
  using assms by (simp add: peer_state_inv_def)

lemma peer_state_insert_inv:
  assumes inv: "peer_state_inv s" and free: "peer_id_for_conn (peer_conn_id e) s = None"
  shows "peer_state_inv (snd (peer_state_insert p e s))"
proof (cases "hget (peers s) p")
  case None
  let ?s = "s\<lparr>conn_to_peer := hput (peer_conn_id e) p (conn_to_peer s), peers := hput p e (peers s)\<rparr>"
  note rel = peer_state_invD [OF inv]
  have "peer_state_inv ?s"
  proof (rule peer_state_invI)
    fix c q
    show "hget (conn_to_peer ?s) c = Some q \<longleftrightarrow> (\<exists>e. hget (peers ?s) q = Some e \<and> peer_conn_id e = c)"
      using rel [of c q] rel [of c p] free None by (cases "c = peer_conn_id e"; cases "q = p") (auto simp: peer_id_for_conn_def)
  qed (use inv in \<open>simp_all add: peer_state_inv_def\<close>)
  then show ?thesis using None by (simp add: peer_state_insert_def)
qed (use inv in \<open>simp add: peer_state_insert_def\<close>)

lemma peer_state_remove_inv:
  assumes inv: "peer_state_inv s"
  shows "peer_state_inv (snd (peer_state_remove p s))"
proof (cases "hget (peers s) p")
  case (Some e)
  let ?s = "s\<lparr>peers := hdel p (peers s), conn_to_peer := hdel (peer_conn_id e) (conn_to_peer s)\<rparr>"
  note rel = peer_state_invD [OF inv]
  have "peer_state_inv ?s"
  proof (rule peer_state_invI)
    fix c q
    show "hget (conn_to_peer ?s) c = Some q \<longleftrightarrow> (\<exists>e. hget (peers ?s) q = Some e \<and> peer_conn_id e = c)"
      using rel [of c q] rel [of c p] Some by (cases "c = peer_conn_id e"; cases "q = p") auto
  qed (use inv in \<open>simp_all add: peer_state_inv_def\<close>)
  then show ?thesis using Some by (simp add: peer_state_remove_def)
qed (use inv in \<open>simp add: peer_state_remove_def\<close>)

lemma peer_state_remove_by_conn_inv:
  assumes inv: "peer_state_inv s"
  shows "peer_state_inv (snd (peer_state_remove_by_conn c s))"
    and "peer_id_for_conn c s = Some p \<Longrightarrow> \<exists>e. peer_state_remove_by_conn c s = (Some (p, e), snd (peer_state_remove p s))"
proof -
  show remove: "\<exists>e. peer_state_remove_by_conn c s = (Some (p, e), snd (peer_state_remove p s))"
    if "peer_id_for_conn c s = Some p" for p
    using that peer_state_invD [OF inv, of c p]
    by (auto simp: peer_state_remove_by_conn_def peer_state_remove_def peer_id_for_conn_def Let_def)
  show "peer_state_inv (snd (peer_state_remove_by_conn c s))"
  proof (cases "peer_id_for_conn c s")
    case None
    then show ?thesis using inv by (simp add: peer_state_remove_by_conn_def peer_id_for_conn_def)
  next
    case (Some p)
    then show ?thesis using remove [OF Some] peer_state_remove_inv [OF inv, of p] by auto
  qed
qed

section \<open>The synchronisation state\<close>

datatype ack_channel = Ack_Waiting | Ack_Sent "datapath_error + unit" | Ack_Dropped

record pending_ack =
  ack_remaining :: nat
  ack_tx :: "nat option"
  ack_errors :: "datapath_error list"

record peer_sync =
  sync_peer_conns :: "conn_id list"
  seen_sub_ids :: "sub_id list"
  forwarded_sub_for_name :: "(proto_name, sub_id) hmap"
  pending_acks :: "(sub_id, pending_ack) hmap"
  sync_subscription_ttl :: nat
  sync_filter :: match_filter
  sync_peer_state :: "peer_state option"
  ack_channels :: "ack_channel list"

datatype peer_topology = FullMesh

definition peer_sync_with :: "nat \<Rightarrow> match_filter \<Rightarrow> peer_state option \<Rightarrow> peer_sync" where
  "peer_sync_with ttl f ps =
     \<lparr>sync_peer_conns = [], seen_sub_ids = [], forwarded_sub_for_name = [], pending_acks = [],
      sync_subscription_ttl = ttl, sync_filter = f, sync_peer_state = ps, ack_channels = []\<rparr>"

definition peer_sync_new :: "peer_topology \<Rightarrow> peer_sync" where
  "peer_sync_new topology = (case topology of FullMesh \<Rightarrow> peer_sync_with 2 match_filter_EXCLUDE_PEER None)"

definition with_peer_state :: "peer_topology \<Rightarrow> peer_state \<Rightarrow> peer_sync" where
  "with_peer_state topology ps =
     (case topology of FullMesh \<Rightarrow> peer_sync_with 2 match_filter_EXCLUDE_PEER (Some ps))"

definition standalone :: peer_sync where
  "standalone = peer_sync_with DEFAULT_TTL match_filter_ALL None"

definition set_peer_conns :: "conn_id list \<Rightarrow> peer_sync \<Rightarrow> peer_sync" where
  "set_peer_conns cs s = s\<lparr>sync_peer_conns := cs\<rparr>"

definition add_peer_conn :: "conn_id \<Rightarrow> peer_sync \<Rightarrow> peer_sync" where
  "add_peer_conn c s = s\<lparr>sync_peer_conns := List.insert c (sync_peer_conns s)\<rparr>"

definition remove_peer_conn :: "conn_id \<Rightarrow> peer_sync \<Rightarrow> peer_sync" where
  "remove_peer_conn c s = s\<lparr>sync_peer_conns := removeAll c (sync_peer_conns s)\<rparr>"

definition has_peer_state :: "peer_sync \<Rightarrow> bool" where
  "has_peer_state s \<longleftrightarrow> sync_peer_state s \<noteq> None"

text \<open>\<open>on_incoming_peer\<close>; the Boolean says whether the full sync of the connection is started.\<close>

definition on_incoming_peer :: "string \<Rightarrow> conn_id \<Rightarrow> peer_sync \<Rightarrow> bool \<times> peer_sync" where
  "on_incoming_peer node c s =
     (case sync_peer_state s of
        Some ps \<Rightarrow>
          if peer_state_contains node ps then (False, s)
          else (True, add_peer_conn c (s\<lparr>sync_peer_state :=
             Some (snd (peer_state_insert node \<lparr>peer_conn_id = c, peer_endpoint = '''', peer_is_outgoing = False\<rparr> ps))\<rparr>))
      | None \<Rightarrow> (True, add_peer_conn c s))"

text \<open>
  The two decisions of \<open>handle_peer_joined\<close>: whether this node dials the discovered peer, and the state
  once the connection \<open>c\<close> is up.
\<close>

definition should_dial :: "string \<Rightarrow> string \<Rightarrow> peer_sync \<Rightarrow> bool" where
  "should_dial self_id p s \<longleftrightarrow>
     p \<noteq> self_id \<and> self_id < p \<and>
     (case sync_peer_state s of Some ps \<Rightarrow> \<not> peer_state_contains p ps | None \<Rightarrow> True)"

definition peer_connected :: "string \<Rightarrow> string \<Rightarrow> conn_id \<Rightarrow> peer_sync \<Rightarrow> peer_sync" where
  "peer_connected p endpoint c s =
     add_peer_conn c (case sync_peer_state s of
        Some ps \<Rightarrow> s\<lparr>sync_peer_state :=
          Some (snd (peer_state_insert p \<lparr>peer_conn_id = c, peer_endpoint = endpoint, peer_is_outgoing = True\<rparr> ps))\<rparr>
      | None \<Rightarrow> s)"

text \<open>\<open>handle_peer_left\<close>; the connection it disconnects is returned.\<close>

definition handle_peer_left :: "string \<Rightarrow> peer_sync \<Rightarrow> conn_id option \<times> peer_sync" where
  "handle_peer_left p s =
     (case sync_peer_state s of
        None \<Rightarrow> (None, s)
      | Some ps \<Rightarrow>
          (case peer_state_remove p ps of
             (None, ps') \<Rightarrow> (None, s\<lparr>sync_peer_state := Some ps'\<rparr>)
           | (Some e, ps') \<Rightarrow>
               (Some (peer_conn_id e), remove_peer_conn (peer_conn_id e) (s\<lparr>sync_peer_state := Some ps'\<rparr>))))"

definition sync_connection_drop :: "conn_id \<Rightarrow> peer_sync \<Rightarrow> peer_sync" where
  "sync_connection_drop c s =
     (case sync_peer_state s of
        None \<Rightarrow> s
      | Some ps \<Rightarrow>
          (case Option.bind (peer_id_for_conn c ps) (\<lambda>p. peer_state_get p ps) of
             None \<Rightarrow> s
           | Some e \<Rightarrow>
               if peer_is_outgoing e then s
               else remove_peer_conn c (s\<lparr>sync_peer_state := Some (snd (peer_state_remove_by_conn c ps))\<rparr>)))"

section \<open>Forwarded subscriptions\<close>

definition register_forwarded_sub :: "proto_name \<Rightarrow> sub_id \<Rightarrow> peer_sync \<Rightarrow> peer_sync" where
  "register_forwarded_sub n i s =
     s\<lparr>seen_sub_ids := List.insert i (seen_sub_ids s),
       forwarded_sub_for_name := hput n i (forwarded_sub_for_name s)\<rparr>"

definition remove_forwarded_sub :: "proto_name \<Rightarrow> sub_id \<Rightarrow> peer_sync \<Rightarrow> peer_sync" where
  "remove_forwarded_sub n i s =
     s\<lparr>seen_sub_ids := removeAll i (seen_sub_ids s),
       forwarded_sub_for_name := hdel n (forwarded_sub_for_name s)\<rparr>"

definition has_seen_sub_id :: "sub_id \<Rightarrow> peer_sync \<Rightarrow> bool" where
  "has_seen_sub_id i s \<longleftrightarrow> i \<in> set (seen_sub_ids s)"

section \<open>Acknowledgements\<close>

text \<open>Dropping the sender of a channel that was not used closes it.\<close>

definition drop_tx :: "nat option \<Rightarrow> ack_channel list \<Rightarrow> ack_channel list" where
  "drop_tx tx chans =
     (case tx of
        Some ch \<Rightarrow> if ch < length chans \<and> chans ! ch = Ack_Waiting then chans[ch := Ack_Dropped] else chans
      | None \<Rightarrow> chans)"

definition drop_pending :: "sub_id \<Rightarrow> peer_sync \<Rightarrow> ack_channel list" where
  "drop_pending a s =
     (case hget (pending_acks s) a of Some p \<Rightarrow> drop_tx (ack_tx p) (ack_channels s) | None \<Rightarrow> ack_channels s)"

definition register_ack :: "sub_id \<Rightarrow> nat \<Rightarrow> peer_sync \<Rightarrow> nat \<times> peer_sync" where
  "register_ack a expected s =
     (let ch = length (ack_channels s) in
      (ch, s\<lparr>ack_channels := drop_pending a s @ [Ack_Waiting],
             pending_acks := hput a \<lparr>ack_remaining = expected, ack_tx = Some ch, ack_errors = []\<rparr> (pending_acks s)\<rparr>))"

definition remove_ack :: "sub_id \<Rightarrow> peer_sync \<Rightarrow> peer_sync" where
  "remove_ack a s = s\<lparr>ack_channels := drop_pending a s, pending_acks := hdel a (pending_acks s)\<rparr>"

fun join_texts :: "string list \<Rightarrow> string" where
  "join_texts [] = ''''"
| "join_texts [t] = t"
| "join_texts (t # ts) = t @ ''; '' @ join_texts ts"

definition aggregate_acks :: "(datapath_error \<Rightarrow> string) \<Rightarrow> datapath_error list \<Rightarrow> datapath_error + unit" where
  "aggregate_acks txt errs =
     (if errs = [] then Inr () else Inl (RemoteSubscriptionAckError (join_texts (map txt errs))))"

definition resolve_ack ::
  "(datapath_error \<Rightarrow> string) \<Rightarrow> sub_id \<Rightarrow> datapath_error + unit \<Rightarrow> peer_sync \<Rightarrow> peer_sync" where
  "resolve_ack txt a r s =
     (case hget (pending_acks s) a of
        None \<Rightarrow> s
      | Some p \<Rightarrow>
          let errs = (case r of Inl e \<Rightarrow> ack_errors p @ [e] | Inr _ \<Rightarrow> ack_errors p);
              left = ack_remaining p - 1
          in
          if left = 0 then
            s\<lparr>pending_acks := hdel a (pending_acks s),
              ack_channels :=
                (case ack_tx p of
                   Some ch \<Rightarrow> (ack_channels s)[ch := Ack_Sent (aggregate_acks txt errs)]
                 | None \<Rightarrow> ack_channels s)\<rparr>
          else s\<lparr>pending_acks := hput a (p\<lparr>ack_errors := errs, ack_remaining := left\<rparr>) (pending_acks s)\<rparr>)"

section \<open>Forwarding a subscription\<close>

datatype peer_target = All_Peers | Exclude_Conn conn_id

record forward_targets =
  target_peers :: "peer_target option"
  target_forward_conn :: "conn_id option"

definition has_any :: "forward_targets \<Rightarrow> bool" where
  "has_any t \<longleftrightarrow> target_peers t \<noteq> None \<or> target_forward_conn t \<noteq> None"

definition peer_snapshot :: "peer_target \<Rightarrow> peer_sync \<Rightarrow> conn_id list" where
  "peer_snapshot t s =
     (case t of
        All_Peers \<Rightarrow> sync_peer_conns s
      | Exclude_Conn c \<Rightarrow> filter (\<lambda>d. d \<noteq> c) (sync_peer_conns s))"

text \<open>
  \<open>forward_to_peers\<close> up to the wait: the result is an error or the channel it waits on (\<open>None\<close> when
  nothing is awaited), the messages handed to the peers, and the new state. Sending is a
  parameter; it is done by the message processor.
\<close>

definition forward_to_peers ::
  "externs \<Rightarrow> (proto_message \<Rightarrow> conn_id \<Rightarrow> datapath_error + unit) \<Rightarrow> proto_name \<Rightarrow> sub_id \<Rightarrow> bool \<Rightarrow>
   forward_targets \<Rightarrow> nat \<Rightarrow> peer_sync \<Rightarrow>
   (datapath_error + nat option) \<times> (conn_id \<times> proto_message) list \<times> peer_sync" where
  "forward_to_peers x send n i add tgts ttl s =
     (case target_peers tgts of
        None \<Rightarrow> (Inr None, [], s)
      | Some t \<Rightarrow>
          let conns = peer_snapshot t s in
          if conns = [] then (Inr None, [], s)
          else
            (let (built, s1) =
               (if add then (build_subscribe_msg x n i ttl, register_forwarded_sub n i s)
                else (build_unsubscribe_msg x n i ttl, remove_forwarded_sub n i s))
             in
             case built of
               Inl e \<Rightarrow> (Inl (MalformedMessage e), [], s1)
             | Inr m \<Rightarrow>
                 let sent = length (filter (\<lambda>c. send m c = Inr ()) conns);
                     out = map (\<lambda>c. (c, m)) conns
                 in
                 if sent = 0 then (Inr None, out, s1)
                 else (case register_ack i sent s1 of (ch, s2) \<Rightarrow> (Inr (Some ch), out, s2))))"

text \<open>The wait of \<open>forward_to_peers\<close>: its result is always \<open>Ok\<close>; a timeout gives the entry up.\<close>

definition peers_ack_timeout :: "sub_id \<Rightarrow> peer_sync \<Rightarrow> peer_sync" where
  "peers_ack_timeout i s = remove_ack i s"

definition ACK_MAX_RETRIES :: nat where "ACK_MAX_RETRIES = 3"

text \<open>
  \<open>wait_for_ack_with_retry\<close>: \<open>seen k\<close> is what the receiver shows when the select of attempt \<open>k\<close>
  ends (\<open>Ack_Waiting\<close>: the sleep ended first), \<open>resend k\<close> the result of sending again. The number
  counts the messages sent again.
\<close>

fun wait_attempts ::
  "nat list \<Rightarrow> (nat \<Rightarrow> ack_channel) \<Rightarrow> (nat \<Rightarrow> datapath_error + unit) \<Rightarrow> (datapath_error + unit) \<times> nat" where
  "wait_attempts [] seen resend = (Inl (RemoteSubscriptionAckTimeout ACK_MAX_RETRIES), 0)"
| "wait_attempts (k # ks) seen resend =
     (case seen k of
        Ack_Sent r \<Rightarrow> (r, 0)
      | Ack_Dropped \<Rightarrow> (Inl (RemoteSubscriptionAckTimeout k), 0)
      | Ack_Waiting \<Rightarrow>
          if k < ACK_MAX_RETRIES then
            (case resend k of
               Inl e \<Rightarrow> (Inl e, 1)
             | Inr _ \<Rightarrow> (case wait_attempts ks seen resend of (r, j) \<Rightarrow> (r, j + 1)))
          else wait_attempts ks seen resend)"

definition wait_for_ack_with_retry ::
  "(nat \<Rightarrow> ack_channel) \<Rightarrow> (nat \<Rightarrow> datapath_error + unit) \<Rightarrow> (datapath_error + unit) \<times> nat" where
  "wait_for_ack_with_retry seen resend = wait_attempts [0..<ACK_MAX_RETRIES + 1] seen resend"

text \<open>\<open>forward_and_ack\<close>: a failure towards the controller is fatal, one towards the peers is not.\<close>

definition forward_outcome ::
  "(datapath_error \<Rightarrow> string) \<Rightarrow> datapath_error + unit \<Rightarrow> datapath_error + unit \<Rightarrow> datapath_error + unit" where
  "forward_outcome txt peer_result forward_result =
     (case forward_result of
        Inl e \<Rightarrow> Inl (RemoteSubscriptionAckError (txt e))
      | Inr _ \<Rightarrow> (case peer_result of Inl e \<Rightarrow> Inr () | Inr _ \<Rightarrow> Inr ()))"

definition notify_peers_unsubscribe ::
  "externs \<Rightarrow> (proto_message \<Rightarrow> conn_id \<Rightarrow> datapath_error + unit) \<Rightarrow> proto_name \<Rightarrow> peer_sync \<Rightarrow>
   (conn_id \<times> proto_message) list \<times> peer_sync" where
  "notify_peers_unsubscribe x send n s =
     (case hget (forwarded_sub_for_name s) n of
        None \<Rightarrow> ([], s)
      | Some i \<Rightarrow>
          (case forward_to_peers x send n i False \<lparr>target_peers = Some All_Peers, target_forward_conn = None\<rparr>
                  (sync_subscription_ttl s) s of
             (_, out, s') \<Rightarrow> (out, s')))"

section \<open>Subscriptions forwarded to remote nodes\<close>

record subscription_info =
  info_source :: proto_name
  info_name :: proto_name
  info_identity :: string
  info_subscription_id :: sub_id

type_synonym remote_sync = "(conn_id, subscription_info list) hmap"

definition on_forwarded_subscription ::
  "proto_name \<Rightarrow> proto_name \<Rightarrow> string \<Rightarrow> conn_id \<Rightarrow> bool \<Rightarrow> sub_id \<Rightarrow> remote_sync \<Rightarrow> remote_sync" where
  "on_forwarded_subscription src n ident c add i t =
     (let info = \<lparr>info_source = src, info_name = n, info_identity = ident, info_subscription_id = i\<rparr> in
      if add then hput c (List.insert info (case hget t c of Some l \<Rightarrow> l | None \<Rightarrow> [])) t
      else
        (case hget t c of
           None \<Rightarrow> t
         | Some l \<Rightarrow>
             let l' = removeAll info l in
             if l' = [] then hdel c t else hput c l' t))"

definition remote_connection_drop :: "conn_id \<Rightarrow> remote_sync \<Rightarrow> subscription_info list \<times> remote_sync" where
  "remote_connection_drop c t = (case hget t c of Some l \<Rightarrow> l | None \<Rightarrow> [], hdel c t)"

definition get_subscriptions_for_reconnect :: "conn_id \<Rightarrow> remote_sync \<Rightarrow> subscription_info list" where
  "get_subscriptions_for_reconnect c t = (case hget t c of Some l \<Rightarrow> l | None \<Rightarrow> [])"

text \<open>\<open>restore\<close>: replay to connection \<open>c\<close>; \<open>None\<close> is the \<open>unwrap\<close> of a failed build.\<close>

fun restore ::
  "externs \<Rightarrow> (proto_message \<Rightarrow> conn_id \<Rightarrow> datapath_error + unit) \<Rightarrow> subscription_info list \<Rightarrow> conn_id \<Rightarrow> bool \<Rightarrow>
   remote_sync \<Rightarrow> ((conn_id \<times> proto_message) list \<times> remote_sync) option" where
  "restore x send [] c track t = Some ([], t)"
| "restore x send (r # rs) c track t =
     (case build_subscribe x (builder_new\<lparr>b_source := Some (info_source r), b_destination := Some (info_name r),
                                          b_identity := Some (info_identity r)\<rparr>) of
        Inl _ \<Rightarrow> None
      | Inr m \<Rightarrow>
          let t1 = (if send m c = Inr () \<and> track
                    then on_forwarded_subscription (info_source r) (info_name r) (info_identity r) c True
                           (info_subscription_id r) t
                    else t)
          in map_option (\<lambda>(out, t2). ((c, m) # out, t2)) (restore x send rs c track t1))"

text \<open>
  \<open>forward_to_conn\<close> up to the wait: an error, or the channel it waits on (\<open>None\<close> without a
  target). The outer \<open>None\<close> is the panic of a message without header.
\<close>

definition forward_to_conn ::
  "(proto_message \<Rightarrow> conn_id \<Rightarrow> datapath_error + unit) \<Rightarrow> proto_message \<Rightarrow> sub_id \<Rightarrow> bool \<Rightarrow> forward_targets \<Rightarrow>
   peer_sync \<Rightarrow> remote_sync \<Rightarrow>
   ((datapath_error + nat option) \<times> (conn_id \<times> proto_message) list \<times> peer_sync \<times> remote_sync) option" where
  "forward_to_conn send m i add tgts s t =
     (case target_forward_conn tgts of
        None \<Rightarrow> Some (Inr None, [], s, t)
      | Some c \<Rightarrow>
          (case register_ack i 1 s of
             (ch, s1) \<Rightarrow>
               (case send m c of
                  Inl e \<Rightarrow> Some (Inl e, [(c, m)], remove_ack i s1, t)
                | Inr _ \<Rightarrow>
                    do {
                      src \<leftarrow> get_source m;
                      dst \<leftarrow> get_dst m;
                      ident \<leftarrow> get_identity m;
                      Some (Inr (Some ch), [(c, m)], s1, on_forwarded_subscription src dst ident c add i t)
                    })))"

section \<open>Collecting subscriptions for a full sync\<close>

definition collect_subscriptions ::
  "externs \<Rightarrow> conn_id \<Rightarrow> match_filter \<Rightarrow> sub_table \<Rightarrow> (proto_name, sub_id) hmap" where
  "collect_subscriptions x exclude f t =
     fold (\<lambda>(n, i, c, ct) acc.
         if \<not> filter_includes f ct then acc
         else if c = exclude then acc
         else if hget acc n = None then hput n i acc else acc)
       (for_each_subscription x t) []"

text \<open>
  \<open>send_subscriptions\<close>: it stops at the first failing send; a message that cannot be built is skipped.
  The result carries the number of subscriptions, \<open>send_loop\<close> is the loop over them.
\<close>

fun send_loop ::
  "externs \<Rightarrow> (proto_message \<Rightarrow> conn_id \<Rightarrow> datapath_error + unit) \<Rightarrow> conn_id \<Rightarrow> (proto_name \<times> sub_id) list \<Rightarrow> nat \<Rightarrow>
   (datapath_error + unit) \<times> (conn_id \<times> proto_message) list" where
  "send_loop x send c [] ttl = (Inr (), [])"
| "send_loop x send c ((n, i) # subs) ttl =
     (case build_subscribe_msg x n i ttl of
        Inl _ \<Rightarrow> send_loop x send c subs ttl
      | Inr m \<Rightarrow>
          (case send m c of
             Inl e \<Rightarrow> (Inl e, [(c, m)])
           | Inr _ \<Rightarrow> (case send_loop x send c subs ttl of (r, out) \<Rightarrow> (r, (c, m) # out))))"

definition send_subscriptions ::
  "externs \<Rightarrow> (proto_message \<Rightarrow> conn_id \<Rightarrow> datapath_error + unit) \<Rightarrow> conn_id \<Rightarrow> (proto_name \<times> sub_id) list \<Rightarrow> nat \<Rightarrow>
   (datapath_error + nat) \<times> (conn_id \<times> proto_message) list" where
  "send_subscriptions x send c subs ttl =
     (case send_loop x send c subs ttl of (r, out) \<Rightarrow> (map_sum id (\<lambda>_. length subs) r, out))"

definition send_local_remote_sync ::
  "externs \<Rightarrow> (proto_message \<Rightarrow> conn_id \<Rightarrow> datapath_error + unit) \<Rightarrow> conn_id \<Rightarrow> nat \<Rightarrow> sub_table \<Rightarrow>
   (datapath_error + nat) \<times> (conn_id \<times> proto_message) list" where
  "send_local_remote_sync x send c ttl t =
     send_subscriptions x send c (collect_subscriptions x c match_filter_EXCLUDE_PEER t) ttl"

definition send_full_sync ::
  "externs \<Rightarrow> (proto_message \<Rightarrow> conn_id \<Rightarrow> datapath_error + unit) \<Rightarrow> conn_id \<Rightarrow> nat \<Rightarrow> sub_table \<Rightarrow>
   (datapath_error + nat) \<times> (conn_id \<times> proto_message) list" where
  "send_full_sync x send c ttl t = send_subscriptions x send c (collect_subscriptions x c match_filter_ALL t) ttl"

text \<open>The task \<open>add_peer_conn_and_sync\<close> spawns: what was sent is recorded once all of it was sent.\<close>

definition sync_new_peer ::
  "externs \<Rightarrow> (proto_message \<Rightarrow> conn_id \<Rightarrow> datapath_error + unit) \<Rightarrow> conn_id \<Rightarrow> sub_table \<Rightarrow> peer_sync \<Rightarrow>
   (conn_id \<times> proto_message) list \<times> peer_sync" where
  "sync_new_peer x send c t s =
     (let subs = collect_subscriptions x c (sync_filter s) t in
      case send_subscriptions x send c subs (sync_subscription_ttl s) of
        (Inr _, out) \<Rightarrow> (out, fold (\<lambda>(n, i). register_forwarded_sub n i) subs s)
      | (Inl _, out) \<Rightarrow> (out, s))"

text \<open>\<open>handle_peer_joined\<close>; \<open>connect\<close> is the result of dialling the endpoint.\<close>

definition handle_peer_joined ::
  "externs \<Rightarrow> (proto_message \<Rightarrow> conn_id \<Rightarrow> datapath_error + unit) \<Rightarrow> string \<Rightarrow> string \<Rightarrow> string \<Rightarrow>
   datapath_error + conn_id \<Rightarrow> sub_table \<Rightarrow> peer_sync \<Rightarrow> (conn_id \<times> proto_message) list \<times> peer_sync" where
  "handle_peer_joined x send self_id p endpoint connect t s =
     (if \<not> should_dial self_id p s then ([], s)
      else
        (case connect of
           Inl _ \<Rightarrow> ([], s)
         | Inr c \<Rightarrow>
             let s1 = peer_connected p endpoint c s in
             (snd (send_local_remote_sync x send c (sync_subscription_ttl s1) t), s1)))"

section \<open>Every registered acknowledgement is answered once\<close>

text \<open>
  The pending entries own distinct open channels, and none of them has been answered completely.
\<close>

definition acks_wf :: "peer_sync \<Rightarrow> bool" where
  "acks_wf s \<longleftrightarrow>
     (\<forall>a p. hget (pending_acks s) a = Some p \<longrightarrow>
        (\<exists>ch. ack_tx p = Some ch \<and> ch < length (ack_channels s) \<and> ack_channels s ! ch = Ack_Waiting)) \<and>
     (\<forall>a b p q. hget (pending_acks s) a = Some p \<and> hget (pending_acks s) b = Some q \<and> ack_tx p = ack_tx q \<longrightarrow> a = b)"

lemma acks_wfD:
  assumes "acks_wf s"
  shows "hget (pending_acks s) a = Some p \<Longrightarrow>
      \<exists>ch. ack_tx p = Some ch \<and> ch < length (ack_channels s) \<and> ack_channels s ! ch = Ack_Waiting"
    and "hget (pending_acks s) a = Some p \<Longrightarrow> hget (pending_acks s) b = Some q \<Longrightarrow> ack_tx p = ack_tx q \<Longrightarrow> a = b"
  using assms unfolding acks_wf_def by blast+

text \<open>Every operation replaces the entry of one id and touches at most the channel of that entry.\<close>

lemma acks_wfI:
  assumes wf: "acks_wf s"
    and others: "\<And>b. b \<noteq> a \<Longrightarrow> hget (pending_acks s') b = hget (pending_acks s) b"
    and len: "length (ack_channels s) \<le> length (ack_channels s')"
    and chans: "\<And>ch. ch < length (ack_channels s) \<Longrightarrow>
      (\<forall>p. hget (pending_acks s) a = Some p \<longrightarrow> ack_tx p \<noteq> Some ch) \<Longrightarrow> ack_channels s' ! ch = ack_channels s ! ch"
    and own: "\<And>p. hget (pending_acks s') a = Some p \<Longrightarrow>
      \<exists>ch. ack_tx p = Some ch \<and> ch < length (ack_channels s') \<and> ack_channels s' ! ch = Ack_Waiting \<and>
        (length (ack_channels s) \<le> ch \<or> (\<exists>q. hget (pending_acks s) a = Some q \<and> ack_tx q = Some ch))"
  shows "acks_wf s'"
  unfolding acks_wf_def
proof (intro conjI allI impI)
  fix b p
  assume b: "hget (pending_acks s') b = Some p"
  show "\<exists>ch. ack_tx p = Some ch \<and> ch < length (ack_channels s') \<and> ack_channels s' ! ch = Ack_Waiting"
  proof (cases "b = a")
    case False
    then have "hget (pending_acks s) b = Some p" using b others by simp
    with acks_wfD [OF wf] obtain ch where ch: "ack_tx p = Some ch" "ch < length (ack_channels s)"
      "ack_channels s ! ch = Ack_Waiting" by blast
    moreover have "ack_channels s' ! ch = ack_channels s ! ch"
      using acks_wfD(2) [OF wf \<open>hget (pending_acks s) b = Some p\<close>] ch False by (intro chans) auto
    ultimately show ?thesis using len by auto
  qed (use own b in blast)
next
  fix b c p q
  assume *: "hget (pending_acks s') b = Some p \<and> hget (pending_acks s') c = Some q \<and> ack_tx p = ack_tx q"
  have fresh: False if "d \<noteq> a" "hget (pending_acks s') a = Some p'" "hget (pending_acks s') d = Some q'"
    "ack_tx p' = ack_tx q'" for d p' q'
  proof -
    have d: "hget (pending_acks s) d = Some q'" using that others by simp
    note own' = own [OF that(2)]
    obtain ch where ch: "ack_tx p' = Some ch"
      "length (ack_channels s) \<le> ch \<or> (\<exists>q. hget (pending_acks s) a = Some q \<and> ack_tx q = Some ch)"
      using own' by blast
    then show False using acks_wfD(1) [OF wf d] acks_wfD(2) [OF wf d] that(1,4) by fastforce
  qed
  show "b = c"
    using * fresh [of c p q] fresh [of b q p] others [of b] others [of c] acks_wfD(2) [OF wf, of b p c q] by metis
qed

lemma drop_pending_length [simp]: "length (drop_pending a s) = length (ack_channels s)"
  by (auto simp: drop_pending_def drop_tx_def split: option.splits)

lemma drop_pending_other:
  assumes "\<forall>p. hget (pending_acks s) a = Some p \<longrightarrow> ack_tx p \<noteq> Some ch"
  shows "drop_pending a s ! ch = ack_channels s ! ch"
  using assms by (auto simp: drop_pending_def drop_tx_def nth_list_update split: option.splits)

lemma register_ack_wf:
  assumes "acks_wf s" "register_ack a n s = (ch, s')"
  shows "acks_wf s'"
proof (rule acks_wfI [OF assms(1), of a])
  show "hget (pending_acks s') b = hget (pending_acks s) b" if "b \<noteq> a" for b
    using assms(2) that by (auto simp: register_ack_def Let_def)
  show "length (ack_channels s) \<le> length (ack_channels s')" using assms(2) by (auto simp: register_ack_def Let_def)
  show "ack_channels s' ! c = ack_channels s ! c"
    if "c < length (ack_channels s)" "\<forall>p. hget (pending_acks s) a = Some p \<longrightarrow> ack_tx p \<noteq> Some c" for c
    using assms(2) that drop_pending_other [OF that(2)] by (auto simp: register_ack_def Let_def nth_append)
  show "\<exists>ch. ack_tx p = Some ch \<and> ch < length (ack_channels s') \<and> ack_channels s' ! ch = Ack_Waiting \<and>
      (length (ack_channels s) \<le> ch \<or> (\<exists>q. hget (pending_acks s) a = Some q \<and> ack_tx q = Some ch))"
    if "hget (pending_acks s') a = Some p" for p
    using assms(2) that
    by (intro exI [of _ "length (ack_channels s)"]) (auto simp: register_ack_def Let_def nth_append)
qed

lemma remove_ack_wf: "acks_wf s \<Longrightarrow> acks_wf (remove_ack a s)"
  by (rule acks_wfI [of s a]) (auto simp: remove_ack_def drop_pending_other)

lemma resolve_ack_wf: "acks_wf s \<Longrightarrow> acks_wf (resolve_ack txt a r s)"
proof -
  assume wf: "acks_wf s"
  show ?thesis
  proof (cases "hget (pending_acks s) a")
    case (Some p)
    obtain ch where ch: "ack_tx p = Some ch" "ch < length (ack_channels s)" "ack_channels s ! ch = Ack_Waiting"
      using acks_wfD(1) [OF wf Some] by blast
    show ?thesis
      by (rule acks_wfI [OF wf, of a])
         (use Some ch in \<open>auto simp: resolve_ack_def Let_def nth_list_update split: if_splits\<close>)
  qed (use wf in \<open>simp add: resolve_ack_def\<close>)
qed

definition errors_of :: "(datapath_error + unit) list \<Rightarrow> datapath_error list" where
  "errors_of rs = List.map_filter (\<lambda>r. case r of Inl e \<Rightarrow> Some e | Inr _ \<Rightarrow> None) rs"

lemma errors_of_snoc: "errors_of (rs @ [r]) = (case r of Inl e \<Rightarrow> errors_of rs @ [e] | Inr _ \<Rightarrow> errors_of rs)"
  by (simp add: errors_of_def List.map_filter_def split: sum.splits)

text \<open>The answers to \<open>a\<close> that arrived so far, and where channel \<open>ch\<close> of the wait for \<open>n\<close> stands.\<close>

definition ack_progress ::
  "(datapath_error \<Rightarrow> string) \<Rightarrow> sub_id \<Rightarrow> nat \<Rightarrow> nat \<Rightarrow> (datapath_error + unit) list \<Rightarrow> peer_sync \<Rightarrow> bool" where
  "ack_progress txt a ch n rs s \<longleftrightarrow>
     (if length rs < n
      then hget (pending_acks s) a = Some \<lparr>ack_remaining = n - length rs, ack_tx = Some ch, ack_errors = errors_of rs\<rparr> \<and>
        ack_channels s ! ch = Ack_Waiting \<and> ch < length (ack_channels s)
      else ack_channels s ! ch = Ack_Sent (aggregate_acks txt (errors_of (take n rs))) \<and>
        (\<forall>b p. hget (pending_acks s) b = Some p \<longrightarrow> ack_tx p \<noteq> Some ch))"

lemma ack_progress_other:
  assumes wf: "acks_wf s" and prog: "ack_progress txt a ch n rs s" and b: "b \<noteq> a"
  shows "ack_progress txt a ch n rs (resolve_ack txt b r s)"
proof (cases "hget (pending_acks s) b")
  case (Some p)
  have ch: "ack_tx p \<noteq> Some ch"
  proof (cases "length rs < n")
    case True
    then have "hget (pending_acks s) a = Some \<lparr>ack_remaining = n - length rs, ack_tx = Some ch, ack_errors = errors_of rs\<rparr>"
      using prog by (simp add: ack_progress_def)
    from acks_wfD(2) [OF wf Some this] b show ?thesis by auto
  next
    case False
    then show ?thesis using prog Some by (simp add: ack_progress_def)
  qed
  have "hget (pending_acks (resolve_ack txt b r s)) a = hget (pending_acks s) a"
    using Some b by (simp add: resolve_ack_def Let_def)
  moreover have "ack_channels (resolve_ack txt b r s) ! ch = ack_channels s ! ch"
    "length (ack_channels (resolve_ack txt b r s)) = length (ack_channels s)"
    using Some ch by (cases "ack_tx p"; simp add: resolve_ack_def Let_def)+
  moreover have "\<forall>d q. hget (pending_acks (resolve_ack txt b r s)) d = Some q \<longrightarrow> ack_tx q \<noteq> Some ch"
    if "\<forall>d q. hget (pending_acks s) d = Some q \<longrightarrow> ack_tx q \<noteq> Some ch"
    using that Some ch by (auto simp: resolve_ack_def Let_def split: if_splits)
  ultimately show ?thesis using prog by (simp add: ack_progress_def)
qed (use prog in \<open>simp add: resolve_ack_def\<close>)

lemma ack_progress_own:
  assumes wf: "acks_wf s" and prog: "ack_progress txt a ch n rs s"
  shows "ack_progress txt a ch n (rs @ [r]) (resolve_ack txt a r s)"
proof (cases "length rs < n")
  case True
  with prog have s: "hget (pending_acks s) a =
      Some \<lparr>ack_remaining = n - length rs, ack_tx = Some ch, ack_errors = errors_of rs\<rparr>"
    "ack_channels s ! ch = Ack_Waiting" "ch < length (ack_channels s)" by (simp_all add: ack_progress_def)
  have own: "b = a" if "hget (pending_acks s) b = Some p" "ack_tx p = Some ch" for b p
    using acks_wfD(2) [OF wf s(1) that(1)] that(2) by simp
  show ?thesis
  proof (cases "n = Suc (length rs)")
    case last: True
    then have "resolve_ack txt a r s = s\<lparr>pending_acks := hdel a (pending_acks s),
        ack_channels := (ack_channels s)[ch := Ack_Sent (aggregate_acks txt (errors_of (rs @ [r])))]\<rparr>"
      using s(1) by (cases r) (simp_all add: resolve_ack_def errors_of_snoc)
    then show ?thesis using last s(3) own by (auto simp: ack_progress_def split: if_splits)
  next
    case False
    with True have "length rs < n - 1" "n - Suc (length rs) \<noteq> 0" by simp_all
    then show ?thesis using s by (cases r) (simp_all add: ack_progress_def resolve_ack_def errors_of_snoc)
  qed
next
  case False
  then have s: "ack_channels s ! ch = Ack_Sent (aggregate_acks txt (errors_of (take n rs)))"
    "\<And>b p. hget (pending_acks s) b = Some p \<Longrightarrow> ack_tx p \<noteq> Some ch"
    using prog by (simp_all add: ack_progress_def)
  show ?thesis
  proof (cases "hget (pending_acks s) a")
    case None
    then show ?thesis using False s by (simp add: ack_progress_def resolve_ack_def)
  next
    case (Some p)
    note ch = s(2) [OF Some]
    have "ack_channels (resolve_ack txt a r s) ! ch = ack_channels s ! ch"
      using Some ch by (auto simp: resolve_ack_def Let_def split: option.splits)
    moreover have "ack_tx q \<noteq> Some ch" if "hget (pending_acks (resolve_ack txt a r s)) b = Some q" for b q
      using that Some ch s(2) [of b q] by (auto simp: resolve_ack_def Let_def split: if_splits)
    ultimately show ?thesis using False s(1) by (simp add: ack_progress_def)
  qed
qed

lemma register_ack_progress:
  assumes "register_ack a n s = (ch, s')" "0 < n"
  shows "ack_progress txt a ch n [] s'"
proof -
  from assms have "ch = length (ack_channels s)"
    "s' = s\<lparr>ack_channels := drop_pending a s @ [Ack_Waiting],
      pending_acks := hput a \<lparr>ack_remaining = n, ack_tx = Some ch, ack_errors = []\<rparr> (pending_acks s)\<rparr>"
    by (auto simp: register_ack_def Let_def)
  then show ?thesis using assms(2) by (simp add: ack_progress_def errors_of_def List.map_filter_def nth_append)
qed

definition resolve_all :: "(datapath_error \<Rightarrow> string) \<Rightarrow> (sub_id \<times> (datapath_error + unit)) list \<Rightarrow> peer_sync \<Rightarrow> peer_sync" where
  "resolve_all txt as s = fold (\<lambda>(b, r). resolve_ack txt b r) as s"

lemma resolve_all_progress:
  assumes "acks_wf s" "ack_progress txt a ch n rs s"
  shows "acks_wf (resolve_all txt as s) \<and>
    ack_progress txt a ch n (rs @ map snd (filter (\<lambda>(b, _). b = a) as)) (resolve_all txt as s)"
  using assms
proof (induction as arbitrary: rs s)
  case (Cons br as)
  obtain b r where br: "br = (b, r)" by fastforce
  have wf: "acks_wf (resolve_ack txt b r s)" by (rule resolve_ack_wf [OF Cons.prems(1)])
  show ?case
  proof (cases "b = a")
    case True
    then show ?thesis
      using Cons.IH [OF wf, of "rs @ [r]"] ack_progress_own [OF Cons.prems] br by (simp add: resolve_all_def)
  next
    case False
    then show ?thesis
      using Cons.IH [OF wf, of rs] ack_progress_other [OF Cons.prems] br by (simp add: resolve_all_def)
  qed
qed (simp add: resolve_all_def)

lemma wait_attempts_bound: "snd (wait_attempts ks seen resend) \<le> length (filter (\<lambda>k. k < ACK_MAX_RETRIES) ks)"
proof (induction ks)
  case (Cons k ks)
  show ?case
  proof (cases "seen k")
    case Ack_Waiting
    then show ?thesis
      using Cons by (cases "k < ACK_MAX_RETRIES"; cases "resend k") (simp_all add: split_beta)
  qed simp_all
qed simp

section \<open>What a full sync sends\<close>

definition sync_rows :: "externs \<Rightarrow> conn_id \<Rightarrow> match_filter \<Rightarrow> sub_table \<Rightarrow> (proto_name \<times> sub_id) list" where
  "sync_rows x exclude f t =
     map (\<lambda>r. (fst r, fst (snd r)))
       (filter (\<lambda>r. filter_includes f (snd (snd (snd r))) \<and> fst (snd (snd r)) \<noteq> exclude)
         (for_each_subscription x t))"

lemma collect_subscriptions_rows:
  "hget (collect_subscriptions x exclude f t) = map_of (sync_rows x exclude f t)"
proof -
  let ?g = "\<lambda>(n, i, c, ct) acc. if \<not> filter_includes f ct then acc else if c = exclude then acc
    else if hget acc n = None then hput n i acc else acc"
  have "hget (fold ?g rows acc) k = (case hget acc k of Some v \<Rightarrow> Some v
      | None \<Rightarrow> map_of (map (\<lambda>r. (fst r, fst (snd r)))
          (filter (\<lambda>r. filter_includes f (snd (snd (snd r))) \<and> fst (snd (snd r)) \<noteq> exclude) rows)) k)"
    for rows :: "(proto_name \<times> sub_id \<times> conn_id \<times> conn_type) list" and acc k
  proof (induction rows arbitrary: acc)
    case (Cons row rows)
    obtain n i c ct where row: "row = (n, i, c, ct)" by (cases row) auto
    show ?case
      using Cons.IH by (cases "filter_includes f ct \<and> c \<noteq> exclude") (auto simp: row split: option.splits)
  qed (simp split: option.splits)
  from this [of "for_each_subscription x t" "[]"] show ?thesis
    by (simp add: fun_eq_iff collect_subscriptions_def sync_rows_def split_def)
qed

end
