(* ===== verification/Peer_Run.thy ===== *)
theory Peer_Run
  imports Peer_Sync
begin

text \<open>
  Runs of the synchronisation state: the life cycle of the peer connections as a step relation
  with its invariant, what becomes of a channel whose sender was dropped, and the messages of a full
  sync.
\<close>

section \<open>The peers of a node\<close>

text \<open>
  A connection reported to \<open>PeerSync\<close> is new: the connection table hands out an id that no
  peer holds.
\<close>

inductive peer_step :: "string \<Rightarrow> peer_sync \<Rightarrow> peer_sync \<Rightarrow> bool" for self_id where
  incoming: "c \<notin> set (sync_peer_conns s) \<Longrightarrow> peer_step self_id s (snd (on_incoming_peer node c s))"
| joined: "(\<And>c. connect = Inr c \<Longrightarrow> c \<notin> set (sync_peer_conns s)) \<Longrightarrow>
    peer_step self_id s (snd (handle_peer_joined x send self_id p endpoint connect t s))"
| synced: "peer_step self_id s (snd (sync_new_peer x send c t s))"
| left: "peer_step self_id s (snd (handle_peer_left p s))"
| dropped: "peer_step self_id s (sync_connection_drop c s)"
| forwarded: "peer_step self_id s (register_forwarded_sub n i s)"
| withdrawn: "peer_step self_id s (remove_forwarded_sub n i s)"
| awaited: "peer_step self_id s (snd (register_ack a k s))"
| answered: "peer_step self_id s (resolve_ack disp a r s)"
| abandoned: "peer_step self_id s (remove_ack a s)"

inductive peer_run :: "string \<Rightarrow> peer_sync \<Rightarrow> bool" for self_id where
  start: "peer_run self_id (with_peer_state FullMesh peer_state_new)"
| step: "peer_run self_id s \<Longrightarrow> peer_step self_id s s' \<Longrightarrow> peer_run self_id s'"

definition peer_links_inv :: "peer_sync \<Rightarrow> bool" where
  "peer_links_inv s \<longleftrightarrow> (\<exists>ps. sync_peer_state s = Some ps \<and> peer_state_inv ps \<and>
     distinct (sync_peer_conns s) \<and>
     (\<forall>c. c \<in> set (sync_peer_conns s) \<longleftrightarrow> peer_id_for_conn c ps \<noteq> None))"

lemma peer_links_invI:
  assumes "sync_peer_state s = Some ps" "peer_state_inv ps" "distinct (sync_peer_conns s)"
    "\<And>c. c \<in> set (sync_peer_conns s) \<longleftrightarrow> peer_id_for_conn c ps \<noteq> None"
  shows "peer_links_inv s"
  using assms by (simp add: peer_links_inv_def)

lemma peer_links_invD:
  assumes "peer_links_inv s" "sync_peer_state s = Some ps"
  shows "peer_state_inv ps" "distinct (sync_peer_conns s)"
    "c \<in> set (sync_peer_conns s) \<longleftrightarrow> peer_id_for_conn c ps \<noteq> None"
  using assms by (auto simp: peer_links_inv_def)

lemma peer_links_invE:
  assumes "peer_links_inv s"
  obtains ps where "sync_peer_state s = Some ps" "peer_state_inv ps"
  using assms by (auto simp: peer_links_inv_def)

text \<open>The three ways the links change: a peer is added, a peer is removed, nothing.\<close>

lemma peer_links_same:
  assumes "peer_links_inv s" "sync_peer_state s' = sync_peer_state s" "sync_peer_conns s' = sync_peer_conns s"
  shows "peer_links_inv s'"
  using assms by (simp add: peer_links_inv_def)

lemma peer_links_add:
  assumes inv: "peer_links_inv s" and ps: "sync_peer_state s = Some ps"
    and new: "peer_conn_id e \<notin> set (sync_peer_conns s)" "\<not> peer_state_contains p ps"
  shows "peer_links_inv (add_peer_conn (peer_conn_id e) (s\<lparr>sync_peer_state := Some (snd (peer_state_insert p e ps))\<rparr>))"
proof -
  note links = peer_links_invD [OF inv ps]
  have "peer_id_for_conn (peer_conn_id e) ps = None" using links(3) new(1) by auto
  from peer_state_insert_inv [OF links(1) this] have "peer_state_inv (snd (peer_state_insert p e ps))" .
  moreover have ids: "peer_id_for_conn c (snd (peer_state_insert p e ps)) =
      (if c = peer_conn_id e then Some p else peer_id_for_conn c ps)" for c
    using new(2) by (simp add: peer_state_insert_def peer_state_contains_def peer_id_for_conn_def)
  moreover have "c \<in> set (List.insert (peer_conn_id e) (sync_peer_conns s)) \<longleftrightarrow>
      peer_id_for_conn c (snd (peer_state_insert p e ps)) \<noteq> None" for c
    unfolding ids using links(3) by simp
  ultimately show ?thesis
    using links(2) by (intro peer_links_invI [where ps = "snd (peer_state_insert p e ps)"]) (simp_all add: add_peer_conn_def)
qed

lemma peer_links_remove:
  assumes inv: "peer_links_inv s" and ps: "sync_peer_state s = Some ps" and e: "hget (peers ps) p = Some e"
  shows "peer_links_inv (remove_peer_conn (peer_conn_id e) (s\<lparr>sync_peer_state := Some (snd (peer_state_remove p ps))\<rparr>))"
proof -
  note links = peer_links_invD [OF inv ps]
  have ids: "peer_id_for_conn c (snd (peer_state_remove p ps)) =
      (if c = peer_conn_id e then None else peer_id_for_conn c ps)" for c
    using e by (simp add: peer_state_remove_def peer_id_for_conn_def)
  have "c \<in> set (removeAll (peer_conn_id e) (sync_peer_conns s)) \<longleftrightarrow>
      peer_id_for_conn c (snd (peer_state_remove p ps)) \<noteq> None" for c
    unfolding ids using links(3) by simp
  then show ?thesis
    using links(2) peer_state_remove_inv [OF links(1), of p]
    by (intro peer_links_invI [where ps = "snd (peer_state_remove p ps)"])
       (simp_all add: remove_peer_conn_def distinct_removeAll)
qed

lemma incoming_links:
  assumes inv: "peer_links_inv s" and c: "c \<notin> set (sync_peer_conns s)"
  shows "peer_links_inv (snd (on_incoming_peer node c s))"
proof -
  from inv obtain ps where ps: "sync_peer_state s = Some ps" by (rule peer_links_invE)
  let ?e = "\<lparr>peer_conn_id = c, peer_endpoint = '''', peer_is_outgoing = False\<rparr>"
  show ?thesis
    using inv c peer_links_add [OF inv ps, of ?e node] ps by (cases "peer_state_contains node ps") (simp_all add: on_incoming_peer_def)
qed

lemma joined_links:
  assumes inv: "peer_links_inv s" and new: "\<And>c. connect = Inr c \<Longrightarrow> c \<notin> set (sync_peer_conns s)"
  shows "peer_links_inv (snd (handle_peer_joined x send self_id p endpoint connect t s))"
proof (cases "\<exists>c. connect = Inr c \<and> should_dial self_id p s")
  case True
  then obtain c where c: "connect = Inr c" "should_dial self_id p s" by blast
  from inv obtain ps where ps: "sync_peer_state s = Some ps" by (rule peer_links_invE)
  let ?e = "\<lparr>peer_conn_id = c, peer_endpoint = endpoint, peer_is_outgoing = True\<rparr>"
  have "peer_links_inv (peer_connected p endpoint c s)"
    using c new [OF c(1)] peer_links_add [OF inv ps, of ?e p] ps by (simp add: peer_connected_def should_dial_def)
  then show ?thesis using c by (simp add: handle_peer_joined_def Let_def)
next
  case False
  then show ?thesis using inv by (cases connect) (auto simp: handle_peer_joined_def)
qed

text \<open>Recording what a sync sent leaves the links and the acknowledgements alone.\<close>

lemma register_subs_same:
  "sync_peer_state (fold (\<lambda>(n, i). register_forwarded_sub n i) subs s) = sync_peer_state s"
  "sync_peer_conns (fold (\<lambda>(n, i). register_forwarded_sub n i) subs s) = sync_peer_conns s"
  "pending_acks (fold (\<lambda>(n, i). register_forwarded_sub n i) subs s) = pending_acks s"
  "ack_channels (fold (\<lambda>(n, i). register_forwarded_sub n i) subs s) = ack_channels s"
  by (induction subs arbitrary: s) (auto simp: register_forwarded_sub_def)

lemma sync_new_peer_same:
  "sync_peer_state (snd (sync_new_peer x send c t s)) = sync_peer_state s"
  "sync_peer_conns (snd (sync_new_peer x send c t s)) = sync_peer_conns s"
  "pending_acks (snd (sync_new_peer x send c t s)) = pending_acks s"
  "ack_channels (snd (sync_new_peer x send c t s)) = ack_channels s"
  by (simp_all add: sync_new_peer_def Let_def register_subs_same split: prod.split sum.split)

lemma handle_peer_joined_acks:
  "pending_acks (snd (handle_peer_joined x send self_id p endpoint connect t s)) = pending_acks s"
  "ack_channels (snd (handle_peer_joined x send self_id p endpoint connect t s)) = ack_channels s"
  by (simp_all add: handle_peer_joined_def peer_connected_def add_peer_conn_def Let_def split: sum.split option.split)

lemma left_links:
  assumes inv: "peer_links_inv s"
  shows "peer_links_inv (snd (handle_peer_left p s))"
proof -
  from inv obtain ps where ps: "sync_peer_state s = Some ps" by (rule peer_links_invE)
  show ?thesis
  proof (cases "hget (peers ps) p")
    case None
    then show ?thesis using inv ps by (simp add: handle_peer_left_def peer_state_remove_def peer_links_inv_def)
  next
    case (Some e)
    then have "peer_state_remove p ps = (Some e, snd (peer_state_remove p ps))" by (simp add: peer_state_remove_def)
    then have "snd (handle_peer_left p s) =
        remove_peer_conn (peer_conn_id e) (s\<lparr>sync_peer_state := Some (snd (peer_state_remove p ps))\<rparr>)"
      using ps by (simp add: handle_peer_left_def peer_state_remove_def Some)
    then show ?thesis using peer_links_remove [OF inv ps Some] by simp
  qed
qed

lemma dropped_links:
  assumes inv: "peer_links_inv s"
  shows "peer_links_inv (sync_connection_drop c s)"
proof -
  from inv obtain ps where ps: "sync_peer_state s = Some ps" "peer_state_inv ps" by (rule peer_links_invE)
  show ?thesis
  proof (cases "Option.bind (peer_id_for_conn c ps) (\<lambda>p. peer_state_get p ps)")
    case None
    then show ?thesis using inv ps by (simp add: sync_connection_drop_def)
  next
    case (Some e)
    then obtain p where p: "peer_id_for_conn c ps = Some p" "hget (peers ps) p = Some e"
      by (auto simp: bind_eq_Some_conv peer_state_get_def)
    then have "peer_conn_id e = c" using peer_state_invD [OF ps(2), of c p] by (auto simp: peer_id_for_conn_def)
    moreover have "snd (peer_state_remove_by_conn c ps) = snd (peer_state_remove p ps)"
      using peer_state_remove_by_conn_inv(2) [OF ps(2) p(1)] by auto
    ultimately show ?thesis
      using inv ps Some peer_links_remove [OF inv ps(1) p(2)]
      by (cases "peer_is_outgoing e") (simp_all add: sync_connection_drop_def)
  qed
qed

lemma peer_step_links:
  assumes "peer_step self_id s s'" "peer_links_inv s"
  shows "peer_links_inv s'"
  using assms
proof (cases rule: peer_step.cases)
  case (answered disp a r)
  have "sync_peer_state s' = sync_peer_state s" "sync_peer_conns s' = sync_peer_conns s"
    unfolding answered by (simp_all add: resolve_ack_def Let_def split: option.split)
  then show ?thesis by (rule peer_links_same [OF assms(2)])
next
  case (awaited a k)
  then show ?thesis by (intro peer_links_same [OF assms(2)]) (simp_all add: register_ack_def Let_def)
next
  case (abandoned a)
  then show ?thesis by (intro peer_links_same [OF assms(2)]) (simp_all add: remove_ack_def)
next
  case (synced x send c t)
  then show ?thesis by (intro peer_links_same [OF assms(2)]) (simp_all add: sync_new_peer_same)
next
  case (forwarded n i)
  then show ?thesis by (intro peer_links_same [OF assms(2)]) (simp_all add: register_forwarded_sub_def)
next
  case (withdrawn n i)
  then show ?thesis by (intro peer_links_same [OF assms(2)]) (simp_all add: remove_forwarded_sub_def)
qed (simp_all add: incoming_links joined_links left_links dropped_links)

lemma peer_run_links: "peer_run self_id s \<Longrightarrow> peer_links_inv s"
proof (induction rule: peer_run.induct)
  case start
  show ?case
    by (simp add: peer_links_inv_def with_peer_state_def peer_sync_with_def peer_state_inv_def peer_state_new_def
        peer_id_for_conn_def)
qed (rule peer_step_links)

lemma peer_step_acks:
  assumes "peer_step self_id s s'" "acks_wf s"
  shows "acks_wf s'"
  using assms
proof (cases rule: peer_step.cases)
  case (awaited a k)
  then show ?thesis using register_ack_wf [OF assms(2), of a k] by (cases "register_ack a k s") simp
next
  case (answered disp a r)
  then show ?thesis using resolve_ack_wf [OF assms(2)] by simp
next
  case (abandoned a)
  then show ?thesis using remove_ack_wf [OF assms(2)] by simp
next
  case (joined connect x send p endpoint t)
  then show ?thesis using assms(2) by (simp add: acks_wf_def handle_peer_joined_acks)
next
  case (synced x send c t)
  then show ?thesis using assms(2) by (simp add: acks_wf_def sync_new_peer_same)
next
  case (left p)
  then show ?thesis using assms(2)
    by (simp add: handle_peer_left_def remove_peer_conn_def acks_wf_def split: option.split prod.split)
qed (use assms(2) in \<open>auto simp: acks_wf_def on_incoming_peer_def add_peer_conn_def
    sync_connection_drop_def remove_peer_conn_def register_forwarded_sub_def remove_forwarded_sub_def
    split: option.split\<close>)

lemma peer_run_acks: "peer_run self_id s \<Longrightarrow> acks_wf s"
proof (induction rule: peer_run.induct)
  case start
  show ?case by (simp add: acks_wf_def with_peer_state_def peer_sync_with_def)
qed (rule peer_step_acks)

section \<open>Channels that are closed\<close>

lemma register_ack_drops:
  assumes "acks_wf s" "hget (pending_acks s) a = Some p" "ack_tx p = Some ch"
    and "register_ack a k s = (ch', s')"
  shows "ack_channels s' ! ch = Ack_Dropped" "ch < length (ack_channels s')"
  using assms acks_wfD(1) [OF assms(1,2)]
  by (auto simp: register_ack_def Let_def drop_pending_def drop_tx_def nth_append)

lemma resolve_ack_closed:
  assumes wf: "acks_wf s" and ch: "ch < length (ack_channels s)" "ack_channels s ! ch \<noteq> Ack_Waiting"
  shows "ack_channels (resolve_ack disp a r s) ! ch = ack_channels s ! ch"
    "length (ack_channels (resolve_ack disp a r s)) = length (ack_channels s)"
proof -
  show "ack_channels (resolve_ack disp a r s) ! ch = ack_channels s ! ch"
  proof (cases "hget (pending_acks s) a")
    case (Some p)
    with acks_wfD(1) [OF wf Some] ch have "ack_tx p \<noteq> Some ch" by auto
    then show ?thesis using Some by (cases "ack_tx p") (simp_all add: resolve_ack_def Let_def)
  qed (simp add: resolve_ack_def)
  show "length (ack_channels (resolve_ack disp a r s)) = length (ack_channels s)"
    by (simp add: resolve_ack_def Let_def split: option.split)
qed

lemma resolve_all_closed:
  assumes "acks_wf s" "ch < length (ack_channels s)" "ack_channels s ! ch \<noteq> Ack_Waiting"
  shows "ack_channels (resolve_all disp answers s) ! ch = ack_channels s ! ch"
  using assms
proof (induction answers arbitrary: s)
  case (Cons br answers)
  obtain b r where br: "br = (b, r)" by fastforce
  note closed = resolve_ack_closed [OF Cons.prems, of disp b r]
  have "ack_channels (resolve_all disp answers (resolve_ack disp b r s)) ! ch = ack_channels (resolve_ack disp b r s) ! ch"
    by (rule Cons.IH [OF resolve_ack_wf [OF Cons.prems(1)]]) (use closed Cons.prems in simp_all)
  then show ?case using closed by (simp add: resolve_all_def br)
qed (simp add: resolve_all_def)

lemma forward_to_conn_registers:
  assumes "forward_to_conn send m i add tgts s t = Some (Inr (Some ch), out, s1, t1)"
  shows "register_ack i 1 s = (ch, s1)"
proof -
  obtain c where c: "target_forward_conn tgts = Some c" using assms by (cases "target_forward_conn tgts") (simp_all add: forward_to_conn_def)
  obtain ch' s' where reg: "register_ack i 1 s = (ch', s')" by fastforce
  have sent: "send m c = Inr ()" using assms by (cases "send m c") (simp_all add: forward_to_conn_def c reg del: One_nat_def)
  show ?thesis using assms by (auto simp: forward_to_conn_def c reg sent bind_eq_Some_conv simp del: One_nat_def)
qed

lemma forward_to_peers_registers:
  assumes "forward_to_peers x send n i add tgts ttl s = (Inr (Some ch), out, s2)"
  shows "\<exists>k s1. 0 < k \<and> register_ack i k s1 = (ch, s2) \<and> pending_acks s1 = pending_acks s \<and> ack_channels s1 = ack_channels s"
proof -
  obtain p where p: "target_peers tgts = Some p" using assms by (cases "target_peers tgts") (simp_all add: forward_to_peers_def)
  let ?s = "if add then register_forwarded_sub n i s else remove_forwarded_sub n i s"
  let ?m = "if add then build_subscribe_msg x n i ttl else build_unsubscribe_msg x n i ttl"
  have conns: "peer_snapshot p s \<noteq> []" using assms by (auto simp: forward_to_peers_def p Let_def)
  obtain m where m: "?m = Inr m" using assms by (cases ?m) (simp_all add: forward_to_peers_def p conns Let_def split: if_splits)
  let ?k = "length (filter (\<lambda>c. send m c = Inr ()) (peer_snapshot p s))"
  have "forward_to_peers x send n i add tgts ttl s =
      (if ?k = 0 then (Inr None, map (\<lambda>c. (c, m)) (peer_snapshot p s), ?s)
       else (case register_ack i ?k ?s of (ch, s2) \<Rightarrow> (Inr (Some ch), map (\<lambda>c. (c, m)) (peer_snapshot p s), s2)))"
    using m by (cases add) (simp_all add: forward_to_peers_def p conns Let_def)
  then have "0 < ?k \<and> register_ack i ?k ?s = (ch, s2)"
    unfolding assms by (cases "?k = 0"; cases "register_ack i ?k ?s") simp_all
  moreover have "pending_acks ?s = pending_acks s \<and> ack_channels ?s = ack_channels s"
    by (simp add: register_forwarded_sub_def remove_forwarded_sub_def)
  ultimately show ?thesis by blast
qed

lemma wait_attempts_success:
  "fst (wait_attempts ks seen resend) = Inr () \<longleftrightarrow>
     (\<exists>k<length ks. seen (ks ! k) = Ack_Sent (Inr ()) \<and>
        (\<forall>j<k. seen (ks ! j) = Ack_Waiting \<and> (ks ! j < ACK_MAX_RETRIES \<longrightarrow> resend (ks ! j) = Inr ())))"
proof (induction ks)
  case (Cons k ks)
  show ?case
  proof (cases "seen k")
    case Ack_Waiting
    then show ?thesis
      using Cons by (cases "k < ACK_MAX_RETRIES"; cases "resend k")
        (simp_all add: Ex_less_Suc2 All_less_Suc2 split_beta)
  qed (simp_all add: Ex_less_Suc2 All_less_Suc2)
qed simp

section \<open>The messages of a full sync\<close>

text \<open>The message a full sync sends for a name: the builder has both names, so it always succeeds.\<close>

definition sync_msg :: "externs \<Rightarrow> proto_name \<Rightarrow> sub_id \<Rightarrow> nat \<Rightarrow> proto_message" where
  "sync_msg x n i ttl =
     \<lparr>metadata = [],
      message_type = Some (Subscribe
        \<lparr>sub_header = Some (slim_header_new x n n '''' (b_flags (sync_builder n i ttl))), subscription_id = i\<rparr>)\<rparr>"

lemma build_subscribe_msg_sync: "build_subscribe_msg x n i ttl = Inr (sync_msg x n i ttl)"
  by (simp add: build_subscribe_msg_def build_subscribe_def build_subscription_def sync_builder_def with_flags_def
      builder_new_def sync_msg_def)

lemma send_subscriptions_all:
  assumes "\<And>m. send m c = Inr ()"
  shows "send_subscriptions x send c subs ttl = (Inr (length subs), map (\<lambda>(n, i). (c, sync_msg x n i ttl)) subs)"
proof -
  have "send_loop x send c subs ttl = (Inr (), map (\<lambda>(n, i). (c, sync_msg x n i ttl)) subs)"
    by (induction subs) (auto simp: build_subscribe_msg_sync assms)
  then show ?thesis by (simp add: send_subscriptions_def)
qed

lemma collect_subscriptions_wf: "hmap_wf (collect_subscriptions x exclude f t)"
proof -
  let ?g = "\<lambda>(n, i, c, ct) acc. if \<not> filter_includes f ct then acc else if c = exclude then acc
    else if hget acc n = None then hput n i acc else acc"
  have "hmap_wf (fold ?g rows acc)" if "hmap_wf acc"
    for rows :: "(proto_name \<times> sub_id \<times> conn_id \<times> conn_type) list" and acc
    using that
  proof (induction rows arbitrary: acc)
    case (Cons row rows)
    have "hmap_wf (?g row acc)" using Cons.prems by (cases row) simp
    then show ?case unfolding fold_Cons comp_apply by (rule Cons.IH)
  qed simp
  then show ?thesis by (simp add: collect_subscriptions_def)
qed

lemma sync_rows_dom:
  "map_of (sync_rows x exclude f t) n \<noteq> None \<longleftrightarrow>
     (\<exists>i c ct. (n, i, c, ct) \<in> set (for_each_subscription x t) \<and> filter_includes f ct \<and> c \<noteq> exclude)"
proof -
  let ?P = "\<lambda>r. filter_includes f (snd (snd (snd r))) \<and> fst (snd (snd r)) \<noteq> exclude"
  have "map_of (sync_rows x exclude f t) n \<noteq> None \<longleftrightarrow> n \<in> fst ` set (sync_rows x exclude f t)"
    by (simp add: map_of_eq_None_iff del: not_None_eq)
  also have "fst ` set (sync_rows x exclude f t) = fst ` {r \<in> set (for_each_subscription x t). ?P r}"
    by (simp add: sync_rows_def image_image)
  finally show ?thesis by (simp add: image_iff Bex_def split_paired_Ex)
qed

end
