(* ===== verification/Sync_Properties.thy ===== *)
theory Sync_Properties
  imports Peer_Run Datapath_Properties
begin

text \<open>
  The correctness properties of the synchronisation of subscriptions between nodes, each
  followed by a run of the model on a concrete input. The example node below accepted one peer and
  dialled another.
\<close>

section \<open>An example node\<close>

definition demo_peer_a :: peer_sync where
  "demo_peer_a = snd (on_incoming_peer ''node-a'' 4 (with_peer_state FullMesh peer_state_new))"

definition demo_sync :: peer_sync where
  "demo_sync = snd (handle_peer_joined demo_externs (\<lambda>_ _. Inr ()) ''node-m'' ''node-z'' ''10.0.0.3'' (Inr 5)
     (subscription_table demo_forwarder) demo_peer_a)"

definition demo_text :: "datapath_error \<Rightarrow> string" where
  "demo_text e = (case e of RemoteSubscriptionAckError m \<Rightarrow> m | _ \<Rightarrow> ''error'')"

lemma demo_sync_run: "peer_run ''node-m'' demo_sync"
proof -
  have "peer_run ''node-m'' demo_peer_a"
    unfolding demo_peer_a_def
    by (rule peer_run.step [OF peer_run.start peer_step.incoming]) (simp add: with_peer_state_def peer_sync_with_def)
  moreover have "5 \<notin> set (sync_peer_conns demo_peer_a)" by code_simp
  ultimately show ?thesis
    unfolding demo_sync_def by (intro peer_run.step [OF _ peer_step.joined]) auto
qed

lemma demo_dial: "should_dial ''node-m'' ''node-z'' demo_peer_a"
  by (simp add: should_dial_def demo_peer_a_def on_incoming_peer_def with_peer_state_def peer_sync_with_def
      peer_state_new_def peer_state_contains_def peer_state_insert_def add_peer_conn_def less_char_def)

lemma demo_sync_connected: "demo_sync = peer_connected ''node-z'' ''10.0.0.3'' 5 demo_peer_a"
  using demo_dial by (simp add: demo_sync_def handle_peer_joined_def Let_def)

section \<open>Acknowledgements\<close>

text \<open>
  C17. A wait for \<open>n\<close> acknowledgements registered in any state a node can reach is resolved by exactly
  the first \<open>n\<close> answers to its own id, whatever other acknowledgements arrive in between: before that
  the receiver is still waiting, afterwards it holds success when none of the \<open>n\<close> answers was an error and
  otherwise one error that lists them in the order of arrival.
\<close>

theorem peer_acks_aggregated:
  assumes "peer_run self_id s" "0 < n" "register_ack a n s = (ch, s1)"
  shows "let mine = map snd (filter (\<lambda>(b, _). b = a) answers) in
    ack_channels (resolve_all disp answers s1) ! ch =
      (if length mine < n then Ack_Waiting else Ack_Sent (aggregate_acks disp (errors_of (take n mine))))"
proof -
  have "acks_wf s1" by (rule register_ack_wf [OF peer_run_acks [OF assms(1)] assms(3)])
  from conjunct2 [OF resolve_all_progress [OF this register_ack_progress [OF assms(3,2), of disp], of answers]]
  show ?thesis unfolding ack_progress_def Let_def append_Nil by (simp only: split: if_splits) simp_all
qed

theorem peer_acks_aggregated_witness:
  "ack_channels (resolve_all demo_text [(9, Inr ()), (7, Inl (RemoteSubscriptionAckError ''a'')), (7, Inr ())]
     (snd (register_ack 7 2 demo_sync))) ! 0 = Ack_Sent (Inl (RemoteSubscriptionAckError ''a''))"
proof -
  have "fst (register_ack 7 2 demo_sync) = 0" unfolding demo_sync_connected by code_simp
  then have reg: "register_ack 7 2 demo_sync = (0, snd (register_ack 7 2 demo_sync))" by (simp add: prod_eq_iff)
  show ?thesis
    using peer_acks_aggregated [OF demo_sync_run _ reg, where disp = demo_text
        and answers = "[(9, Inr ()), (7, Inl (RemoteSubscriptionAckError ''a'')), (7, Inr ())]"]
    by (simp add: errors_of_def List.map_filter_def aggregate_acks_def demo_text_def Let_def)
qed

text \<open>
  C34. The acknowledgement of the controller and those of the peers are awaited under the same id.
  When the task that forwards a subscription has registered the wait for the controller and then
  registers the wait for the peers, the first wait is lost: whatever answers arrive later, the forwarding
  reports a failure to the subscriber.
\<close>

theorem shared_ack_id_fails:
  assumes run: "peer_run self_id s"
    and conn: "forward_to_conn send m i add tgts s t = Some (Inr (Some ch), out, s1, t1)"
    and peers: "forward_to_peers x send n i add tgts ttl s1 = (Inr (Some ch'), out', s2)"
  shows "forward_outcome disp peer_result
      (fst (wait_for_ack_with_retry (\<lambda>_. ack_channels (resolve_all disp answers s2) ! ch) resend)) =
    Inl (RemoteSubscriptionAckError (disp (RemoteSubscriptionAckTimeout 0)))"
proof -
  note reg = forward_to_conn_registers [OF conn]
  have wf: "acks_wf s1" by (rule register_ack_wf [OF peer_run_acks [OF run] reg])
  have pend: "hget (pending_acks s1) i = Some \<lparr>ack_remaining = 1, ack_tx = Some ch, ack_errors = []\<rparr>"
    using reg by (auto simp: register_ack_def Let_def)
  obtain s' k where s': "register_ack i k s' = (ch', s2)"
    and same: "pending_acks s' = pending_acks s1" "ack_channels s' = ack_channels s1"
    using forward_to_peers_registers [OF peers] by (elim exE conjE)
  have wf': "acks_wf s'" using wf same by (simp add: acks_wf_def)
  have closed: "ack_channels s2 ! ch = Ack_Dropped" "ch < length (ack_channels s2)"
    using register_ack_drops [OF wf' _ _ s'] pend same by simp_all
  have "ack_channels (resolve_all disp answers s2) ! ch = Ack_Dropped"
    using resolve_all_closed [OF register_ack_wf [OF wf' s']] closed by simp
  then show ?thesis
    by (simp add: wait_for_ack_with_retry_def upt_conv_Cons forward_outcome_def del: upt_Suc)
qed

text \<open>
  Waiting for the controller sends the subscription again at most three times, and it succeeds
  exactly when one of its four attempts sees the positive acknowledgement and every attempt before
  it timed out and was sent again without an error.
\<close>

lemma ack_wait_bounded:
  "snd (wait_for_ack_with_retry seen resend) \<le> ACK_MAX_RETRIES \<and>
   (fst (wait_for_ack_with_retry seen resend) = Inr () \<longleftrightarrow>
     (\<exists>k\<le>ACK_MAX_RETRIES. seen k = Ack_Sent (Inr ()) \<and> (\<forall>j<k. seen j = Ack_Waiting \<and> resend j = Inr ())))"
proof
  have "length (filter (\<lambda>k. k < ACK_MAX_RETRIES) [0..<ACK_MAX_RETRIES + 1]) = ACK_MAX_RETRIES"
    by (simp add: ACK_MAX_RETRIES_def upt_conv_Cons)
  then show "snd (wait_for_ack_with_retry seen resend) \<le> ACK_MAX_RETRIES"
    using wait_attempts_bound [of "[0..<ACK_MAX_RETRIES + 1]" seen resend] by (simp add: wait_for_ack_with_retry_def)
  show "fst (wait_for_ack_with_retry seen resend) = Inr () \<longleftrightarrow>
     (\<exists>k\<le>ACK_MAX_RETRIES. seen k = Ack_Sent (Inr ()) \<and> (\<forall>j<k. seen j = Ack_Waiting \<and> resend j = Inr ()))"
    unfolding wait_for_ack_with_retry_def wait_attempts_success
  proof (rule ex_cong1, rule conj_cong)
    fix k
    show "k < length [0..<ACK_MAX_RETRIES + 1] \<longleftrightarrow> k \<le> ACK_MAX_RETRIES" by auto
    assume "k \<le> ACK_MAX_RETRIES"
    then have at: "[0..<ACK_MAX_RETRIES + 1] ! k = k" "j < k \<Longrightarrow> [0..<ACK_MAX_RETRIES + 1] ! j = j" "j < k \<Longrightarrow> j < ACK_MAX_RETRIES"
      for j by (simp_all del: upt_Suc)
    show "(seen ([0..<ACK_MAX_RETRIES + 1] ! k) = Ack_Sent (Inr ()) \<and>
        (\<forall>j<k. seen ([0..<ACK_MAX_RETRIES + 1] ! j) = Ack_Waiting \<and>
          ([0..<ACK_MAX_RETRIES + 1] ! j < ACK_MAX_RETRIES \<longrightarrow> resend ([0..<ACK_MAX_RETRIES + 1] ! j) = Inr ()))) \<longleftrightarrow>
      seen k = Ack_Sent (Inr ()) \<and> (\<forall>j<k. seen j = Ack_Waiting \<and> resend j = Inr ())"
      unfolding at(1) by (intro conj_cong all_cong refl) (simp_all only: at(2,3) simp_thms)
  qed
qed

text \<open>An answer of the controller arrives, but the wait that was registered for it is gone.\<close>

definition demo_targets :: forward_targets where
  "demo_targets = \<lparr>target_peers = Some All_Peers, target_forward_conn = Some 9\<rparr>"

definition demo_sub_msg :: proto_message where
  "demo_sub_msg = sync_msg demo_externs demo_name 7 2"

definition demo_send :: "proto_message \<Rightarrow> conn_id \<Rightarrow> datapath_error + unit" where
  "demo_send m c = Inr ()"

theorem shared_ack_id_fails_witness:
  "\<exists>ch out s1 t1 ch' out' s2.
     forward_to_conn demo_send demo_sub_msg 7 True demo_targets demo_sync [] = Some (Inr (Some ch), out, s1, t1) \<and>
     forward_to_peers demo_externs demo_send demo_name 7 True demo_targets 2 s1 = (Inr (Some ch'), out', s2) \<and>
     forward_outcome demo_text (Inr ())
       (fst (wait_for_ack_with_retry (\<lambda>_. ack_channels (resolve_all demo_text [(7, Inr ())] s2) ! ch) (\<lambda>_. Inr ()))) =
     Inl (RemoteSubscriptionAckError ''error'')"
proof -
  let ?r = "the (forward_to_conn demo_send demo_sub_msg 7 True demo_targets demo_sync [])"
  let ?s1 = "fst (snd (snd ?r))"
  let ?q = "forward_to_peers demo_externs demo_send demo_name 7 True demo_targets 2 ?s1"
  have "forward_to_conn demo_send demo_sub_msg 7 True demo_targets demo_sync [] \<noteq> None" "fst ?r = Inr (Some 0)"
    "fst ?q = Inr (Some 1)"
    unfolding demo_sync_connected by code_simp+
  then have run: "forward_to_conn demo_send demo_sub_msg 7 True demo_targets demo_sync [] =
      Some (Inr (Some 0), fst (snd ?r), ?s1, snd (snd (snd ?r)))"
    "?q = (Inr (Some 1), fst (snd ?q), snd (snd ?q))"
    by (auto simp: prod_eq_iff)
  have shown: "demo_text (RemoteSubscriptionAckTimeout 0) = ''error''" by (simp add: demo_text_def)
  note failed = shared_ack_id_fails [OF demo_sync_run run, where disp = demo_text and peer_result = "Inr ()"
      and answers = "[(7, Inr ())]" and resend = "\<lambda>_. Inr ()", unfolded shown]
  show ?thesis by (intro exI) (rule conjI [OF run(1) conjI [OF run(2) failed]])
qed

section \<open>Peers\<close>



text \<open>
  Of two different nodes that discover each other, neither knowing the other yet, exactly one dials.
\<close>

lemma exactly_one_dials:
  assumes "p \<noteq> q" "sync_peer_state s = Some ps" "\<not> peer_state_contains q ps"
    and "sync_peer_state s' = Some ps'" "\<not> peer_state_contains p ps'"
  shows "should_dial p q s \<longleftrightarrow> \<not> should_dial q p s'"
  using assms by (auto simp: should_dial_def)

section \<open>Replayed subscriptions\<close>

text \<open>
  C28. A full sync to connection \<open>c\<close> over which every message can be sent sends one subscription for
  each name that some other connection of an admitted kind subscribed to, and no other; each carries the id
  of such a subscription.
\<close>

theorem full_sync_complete:
  assumes "\<And>m. send m c = Inr ()"
  shows "\<exists>subs. send_subscriptions x send c (collect_subscriptions x c f t) ttl =
      (Inr (length subs), map (\<lambda>(n, i). (c, sync_msg x n i ttl)) subs) \<and> distinct (map fst subs) \<and>
    (\<forall>n. n \<in> set (map fst subs) \<longleftrightarrow>
      (\<exists>i d ct. (n, i, d, ct) \<in> set (for_each_subscription x t) \<and> filter_includes f ct \<and> d \<noteq> c)) \<and>
    (\<forall>n i. (n, i) \<in> set subs \<longrightarrow> (\<exists>d ct. (n, i, d, ct) \<in> set (for_each_subscription x t) \<and> d \<noteq> c))"
proof -
  let ?subs = "collect_subscriptions x c f t"
  have "n \<in> set (map fst ?subs) \<longleftrightarrow>
      (\<exists>i d ct. (n, i, d, ct) \<in> set (for_each_subscription x t) \<and> filter_includes f ct \<and> d \<noteq> c)" for n
    using sync_rows_dom [of x c f t n] unfolding collect_subscriptions_rows [symmetric] by (simp add: hget_None_iff del: not_None_eq)
  moreover have "\<exists>d ct. (n, i, d, ct) \<in> set (for_each_subscription x t) \<and> d \<noteq> c" if "(n, i) \<in> set ?subs" for n i
  proof -
    have "hget ?subs n = Some i" using that collect_subscriptions_wf by simp
    then have "(n, i) \<in> set (sync_rows x c f t)" unfolding collect_subscriptions_rows by (rule map_of_SomeD)
    then obtain row where "row \<in> set (for_each_subscription x t)" "fst (snd (snd row)) \<noteq> c" "n = fst row" "i = fst (snd row)"
      by (auto simp: sync_rows_def)
    then show ?thesis by (intro exI [of _ "fst (snd (snd row))"] exI [of _ "snd (snd (snd row))"]) simp
  qed
  ultimately show ?thesis
    using send_subscriptions_all [of send c, OF assms] collect_subscriptions_wf by blast
qed

theorem full_sync_complete_witness:
  "\<exists>subs. send_subscriptions demo_externs demo_send 5
      (collect_subscriptions demo_externs 5 match_filter_EXCLUDE_PEER (subscription_table demo_forwarder)) 2 =
      (Inr (length subs), map (\<lambda>(n, i). (5, sync_msg demo_externs n i 2)) subs) \<and> distinct (map fst subs)"
  using full_sync_complete [of demo_send 5 demo_externs match_filter_EXCLUDE_PEER "subscription_table demo_forwarder" 2]
  by (auto simp: demo_send_def)

text \<open>
  C35. The message that replays a forwarded subscription after a reconnection does not carry its
  subscription id. The remote node therefore files it under the id 0, and the later unsubscription, which
  carries the original id, is refused there and leaves the route in place.
\<close>

theorem restored_subscription_sticks:
  assumes restored: "restore x send [r] c track rt = Some (out, rt')" and out: "out = [(c, m)]"
    and inv: "table_inv cat {} t" and enc: "enc_name (info_name r) = Some e" "canonical e" "str_name (info_name r) \<noteq> None"
    and sid: "info_subscription_id r \<noteq> 0"
    and fresh: "\<lparr>key_conn = d, key_sub = info_subscription_id r, key_encoded = e\<rparr> \<notin> table_keys t"
  shows "\<exists>first t1 err.
    add_subscription (info_name r) d (cat d) (case get_subscription_id m of Some i \<Rightarrow> i | None \<Rightarrow> 0) t = Some (first, t1) \<and>
    remove_subscription x (info_name r) d (cat d) (info_subscription_id r) t1 = Some (Inl err, t1) \<and>
    (enc_prefix e, encoded_name_id e, cat d, d) \<in> routes (routing t1)"
proof -
  have "get_subscription_id m = None"
    using restored out
    by (auto simp: build_subscribe_def build_subscription_def builder_new_def get_subscription_id_def split: if_splits)
  then have zero: "(case get_subscription_id m of Some i \<Rightarrow> i | None \<Rightarrow> 0) = (0 :: sub_id)" by simp
  obtain first t1 where add: "add_subscription (info_name r) d (cat d) 0 t = Some (first, t1)"
    using add_subscription_total [OF enc(1,3)] by fastforce
  note a = add_subscription_correct [OF inv enc(1,2) add]
  have "remove_subscription x (info_name r) d (cat d) (info_subscription_id r) t1 \<noteq> None"
    using enc(1) by (simp add: remove_subscription_def)
  then obtain res t2 where rem: "remove_subscription x (info_name r) d (cat d) (info_subscription_id r) t1 = Some (res, t2)"
    by fastforce
  note rm = remove_subscription_correct(2) [OF a(1) enc(1) rem]
  obtain err where "res = Inl err" "t2 = t1" using rm a(2) sid fresh by (cases res) auto
  then show ?thesis using add rem a(3) zero by auto
qed

definition demo_info :: subscription_info where
  "demo_info = \<lparr>info_source = demo_name, info_name = demo_name, info_identity = ''id'', info_subscription_id = 9\<rparr>"

theorem restored_subscription_sticks_witness:
  "\<exists>m first t1 err.
    restore demo_externs demo_send [demo_info] 3 True [] = Some ([(3, m)], [(3, [demo_info])]) \<and>
    add_subscription demo_name 0 Local (case get_subscription_id m of Some i \<Rightarrow> i | None \<Rightarrow> 0)
      (subscription_table demo_forwarder) = Some (first, t1) \<and>
    remove_subscription demo_externs demo_name 0 Local 9 t1 = Some (Inl err, t1)"
proof -
  let ?m = "snd (hd (fst (the (restore demo_externs demo_send [demo_info] 3 True []))))"
  have run: "restore demo_externs demo_send [demo_info] 3 True [] = Some ([(3, ?m)], [(3, [demo_info])])"
    by code_simp
  have "\<lparr>key_conn = 0, key_sub = 9, key_encoded = demo_enc\<rparr> \<notin> table_keys (subscription_table demo_forwarder)"
    unfolding demo_keys by simp
  from restored_subscription_sticks [OF run refl demo_table_inv, of demo_enc 0] this demo_name_enc run
  show ?thesis by (elim meta_impE) (auto simp: demo_info_def demo_cat_def)
qed



end
