(* ===== verification/Message_Processing.thy ===== *)
theory Message_Processing
  imports Peer_Run Forwarder_Run
begin

text \<open>
  \<open>MessageProcessor\<close> (\<^verbatim>\<open>crates/datapath/src/message_processing.rs\<close>): what the node does with a
  message that arrives on a connection, and with a connection that opens or closes.

  A handler returns its result, the effects it has outside the tables in their order, and the new
  state; the outer \<open>None\<close> is a panic. A message handed to the channel of a connection is an effect
  \<open>Delivered\<close>, and the task that forwards a subscription is an effect \<open>Spawned\<close> with its
  arguments (\<open>Sync_Spawned\<close>: the full sync of a new peer). Channels, the client configuration and the header MAC are parameters of type
  \<open>link_env\<close>.
\<close>

section \<open>The processor\<close>

record ('mac, 'io) link_env =
  link_is_server :: "'io \<Rightarrow> bool"
  link_config_id :: "'io \<Rightarrow> string option"
  link_open :: "'io \<Rightarrow> bool"
  sign_slim_header :: "'mac \<Rightarrow> string \<Rightarrow> slim_header \<Rightarrow> string + slim_header"
  verify_slim_header :: "'mac \<Rightarrow> string \<Rightarrow> slim_header \<Rightarrow> string + unit"

record ('ver, 'mac, 'io) processor =
  proc_forwarder :: "('ver, 'mac, 'io) conn_forwarder"
  proc_peer_sync :: peer_sync
  proc_remote_sync :: remote_sync
  tx_control_plane :: bool
  drain_watch :: bool
  service_id :: string
  deployment_name :: string
  relay_peer_publishes :: bool

record forward_task =
  task_msg :: proto_message
  task_name :: proto_name
  task_sub_id :: sub_id
  task_add :: bool
  task_targets :: forward_targets
  task_in_conn :: conn_id
  task_upstream :: "sub_id option"
  task_peer_ttl :: nat

datatype effect =
    Delivered conn_id proto_message
  | To_Control_Plane proto_message
  | Spawned forward_task
  | Status_Sent conn_id string
  | App_Error conn_id datapath_error
  | Disconnect conn_id
  | Sync_Spawned conn_id

type_synonym ('ver, 'mac, 'io) outcome = "((datapath_error + unit) \<times> effect list \<times> ('ver, 'mac, 'io) processor) option"

definition is_local_connection :: "('ver, 'mac, 'io) connection \<Rightarrow> bool" where
  "is_local_connection conn \<longleftrightarrow> connection_type conn = Local"

definition is_peer_connection :: "('ver, 'mac, 'io) connection \<Rightarrow> bool" where
  "is_peer_connection conn \<longleftrightarrow> connection_type conn = Peer"

definition is_inter_node :: "conn_type \<Rightarrow> bool" where
  "is_inter_node ct \<longleftrightarrow> ct = Remote \<or> ct = Edge"

section \<open>Sending\<close>

definition nonempty :: "string option \<Rightarrow> string option" where
  "nonempty l = (case l of Some s \<Rightarrow> if s = '''' then None else Some s | None \<Rightarrow> None)"

definition link_id_for :: "('mac, 'io) link_env \<Rightarrow> ('ver, 'mac, 'io) connection \<Rightarrow> string option" where
  "link_id_for env conn =
     nonempty (case conn_link_id conn of Some l \<Rightarrow> Some l | None \<Rightarrow> link_config_id env (conn_io conn))"

text \<open>The header of a routed message on an inter-node link is signed when the link has a MAC session.\<close>

definition sign_msg ::
  "('mac, 'io) link_env \<Rightarrow> ('ver, 'mac, 'io) connection \<Rightarrow> conn_id \<Rightarrow> bool \<Rightarrow> proto_message \<Rightarrow>
   (datapath_error + proto_message) option" where
  "sign_msg env conn c guarded m =
     (case header_hmac conn of
        Some mac \<Rightarrow>
          if guarded then
            (case link_id_for env conn of
               Some l \<Rightarrow>
                 do {
                   h \<leftarrow> get_slim_header m;
                   (case sign_slim_header env mac l h of
                      Inl e \<Rightarrow> Some (Inl (HeaderIntegrity e))
                    | Inr h' \<Rightarrow> map_option Inr (update_slim_header (\<lambda>_. h') m))
                 }
             | None \<Rightarrow> Some (Inl (HeaderMacAwaitingLinkNegotiation c)))
          else Some (Inr m)
      | None \<Rightarrow> Some (Inr m))"

definition send_msg ::
  "('mac, 'io) link_env \<Rightarrow> ('ver, 'mac, 'io) conn_forwarder \<Rightarrow> proto_message \<Rightarrow> conn_id \<Rightarrow>
   (datapath_error + proto_message) option" where
  "send_msg env w m c =
     (case get_connection w c of
        None \<Rightarrow> Some (Inl (ConnectionNotFound c))
      | Some conn \<Rightarrow>
          do {
            l \<leftarrow> is_link m;
            a \<leftarrow> is_subscription_ack m;
            let routed = (\<not> l \<and> \<not> a);
            let guarded = (routed \<and> is_inter_node (connection_type conn));
            m1 \<leftarrow> (if routed then clear_slim_header m else Some m);
            if guarded \<and> require_header_mac conn \<and> header_hmac conn = None
            then Some (Inl (NegotiationError ''strict header MAC required but link HMAC session is not installed''))
            else do {
              r \<leftarrow> sign_msg env conn c guarded m1;
              (case r of
                 Inl e \<Rightarrow> Some (Inl e)
               | Inr m2 \<Rightarrow>
                   do {
                     m3 \<leftarrow> (if routed \<and> link_is_server env (conn_io conn) \<and> connection_type conn = Local
                            then update_slim_header (\<lambda>h. h\<lparr>hdr_mac := None\<rparr>) m2 else Some m2);
                     Some (if link_open env (conn_io conn) then Inr m3
                           else Inl (MessageProcessingError (ConnectionNotFound c) m3))
                   })
            }
          })"

text \<open>Sending one message as the result of a handler.\<close>

definition send_one ::
  "('mac, 'io) link_env \<Rightarrow> proto_message \<Rightarrow> conn_id \<Rightarrow> ('ver, 'mac, 'io) processor \<Rightarrow> ('ver, 'mac, 'io) outcome" where
  "send_one env m c p =
     map_option (\<lambda>r. case r of Inl e \<Rightarrow> (Inl e, [], p) | Inr m' \<Rightarrow> (Inr (), [Delivered c m'], p))
       (send_msg env (proc_forwarder p) m c)"

text \<open>The loop over the connections of a fan-out: the number of failures, the last error, what was sent.\<close>

fun fan_out ::
  "('mac, 'io) link_env \<Rightarrow> ('ver, 'mac, 'io) conn_forwarder \<Rightarrow> proto_message \<Rightarrow> conn_id list \<Rightarrow> nat \<Rightarrow>
   datapath_error option \<Rightarrow> (nat \<times> datapath_error option \<times> effect list) option" where
  "fan_out env w m [] failed err = Some (failed, err, [])"
| "fan_out env w m (c # cs) failed err =
     do {
       r \<leftarrow> send_msg env w m c;
       (case r of
          Inl e \<Rightarrow> fan_out env w m cs (failed + 1) (Some e)
        | Inr m' \<Rightarrow> map_option (\<lambda>(k, e, effs). (k, e, Delivered c m' # effs)) (fan_out env w m cs failed err))
     }"

section \<open>Publishing\<close>

definition is_no_match :: "datapath_error \<Rightarrow> bool" where
  "is_no_match e = (case e of NoMatchEncoded _ _ _ _ \<Rightarrow> True | _ \<Rightarrow> False)"

definition forward_to_all ::
  "('mac, 'io) link_env \<Rightarrow> proto_message \<Rightarrow> conn_id list \<Rightarrow> ('ver, 'mac, 'io) processor \<Rightarrow> ('ver, 'mac, 'io) outcome" where
  "forward_to_all env m out p =
     (case out of
        [c] \<Rightarrow> send_one env m c p
      | _ \<Rightarrow>
          map_option (\<lambda>(failed, err, effs).
              (case err of Some e \<Rightarrow> if failed = length out then Inl e else Inr () | None \<Rightarrow> Inr (), effs, p))
            (fan_out env (proc_forwarder p) m out 0 None))"

definition forward_unmatched ::
  "('mac, 'io) link_env \<Rightarrow> proto_message \<Rightarrow> conn_type \<Rightarrow> datapath_error \<Rightarrow> ('ver, 'mac, 'io) processor \<Rightarrow>
   ('ver, 'mac, 'io) outcome" where
  "forward_unmatched env m category e p =
     (if conn_type_is_local category \<and> is_no_match e then
        do {
          (g, w) \<leftarrow> resolve_default_gateway (proc_forwarder p);
          let p' = p\<lparr>proc_forwarder := w\<rparr>;
          (case g of
             Gateway c _ \<Rightarrow> send_one env m c p'
           | _ \<Rightarrow> Some (Inl (MessageProcessingError e m), [], p'))
        }
      else Some (Inl (MessageProcessingError e m), [], p))"

definition match_and_forward_msg ::
  "('mac, 'io) link_env \<Rightarrow> externs \<Rightarrow> proto_message \<Rightarrow> conn_id \<Rightarrow> nat \<Rightarrow> match_filter \<Rightarrow> conn_type \<Rightarrow>
   ('ver, 'mac, 'io) processor \<Rightarrow> ('ver, 'mac, 'io) outcome" where
  "match_and_forward_msg env x m in_connection fanout f category p =
     do {
       fwd \<leftarrow> get_forward_to m;
       (case fwd of
          Some c \<Rightarrow> send_one env m c p
        | None \<Rightarrow>
            do {
              e \<leftarrow> get_encoded_dst m;
              (r, w) \<leftarrow> on_publish_msg_match x e in_connection fanout f (proc_forwarder p);
              let p' = p\<lparr>proc_forwarder := w\<rparr>;
              (case r of
                 Inr out \<Rightarrow> forward_to_all env m out p'
               | Inl err \<Rightarrow> forward_unmatched env m category err p')
            })
     }"

definition process_publish ::
  "('mac, 'io) link_env \<Rightarrow> externs \<Rightarrow> proto_message \<Rightarrow> conn_id \<Rightarrow> match_filter \<Rightarrow> conn_type \<Rightarrow>
   ('ver, 'mac, 'io) processor \<Rightarrow> ('ver, 'mac, 'io) outcome" where
  "process_publish env x m in_connection f category p =
     do {
       fanout \<leftarrow> get_fanout m;
       match_and_forward_msg env x m in_connection fanout f category p
     }"

section \<open>Subscribing\<close>

text \<open>\<open>send_subscription_ack\<close>; \<open>disp\<close> is the text of an error. A failing send is only logged.\<close>

definition send_subscription_ack ::
  "('mac, 'io) link_env \<Rightarrow> (datapath_error \<Rightarrow> string) \<Rightarrow> conn_id \<Rightarrow> sub_id \<Rightarrow> datapath_error + unit \<Rightarrow>
   ('ver, 'mac, 'io) processor \<Rightarrow> effect list option" where
  "send_subscription_ack env disp c i result p =
     (let ack = (case result of
                   Inr _ \<Rightarrow> build_subscription_ack i True ''''
                 | Inl e \<Rightarrow> build_subscription_ack i False (disp e))
      in map_option (\<lambda>r. case r of Inr m \<Rightarrow> [Delivered c m] | Inl _ \<Rightarrow> []) (send_msg env (proc_forwarder p) ack c))"

text \<open>The acknowledgement of a message that may carry no subscription id.\<close>

definition ack_upstream ::
  "('mac, 'io) link_env \<Rightarrow> (datapath_error \<Rightarrow> string) \<Rightarrow> conn_id \<Rightarrow> sub_id option \<Rightarrow> datapath_error + unit \<Rightarrow>
   ('ver, 'mac, 'io) processor \<Rightarrow> effect list option" where
  "ack_upstream env disp c sid result p =
     (case sid of Some i \<Rightarrow> send_subscription_ack env disp c i result p | None \<Rightarrow> Some [])"

record subscription_outcome =
  outcome_transition :: bool
  outcome_is_peer_conn :: bool
  outcome_forward_conn :: "conn_id option"

definition update_subscription_state ::
  "externs \<Rightarrow> proto_message \<Rightarrow> conn_id \<Rightarrow> conn_id option \<Rightarrow> bool \<Rightarrow> sub_id \<Rightarrow> ('ver, 'mac, 'io) conn_forwarder \<Rightarrow>
   ((datapath_error + subscription_outcome) \<times> ('ver, 'mac, 'io) conn_forwarder) option" where
  "update_subscription_state x m c fwd add sid w =
     do {
       dst \<leftarrow> get_dst m;
       (case get_connection w c of
          None \<Rightarrow> Some (Inl (ConnectionNotFound c), w)
        | Some conn \<Rightarrow>
            do {
              (r, w') \<leftarrow> on_subscription_msg x dst c (connection_type conn) add sid w;
              Some (map_sum id (\<lambda>b. \<lparr>outcome_transition = b, outcome_is_peer_conn = is_peer_connection conn,
                                    outcome_forward_conn = fwd\<rparr>) r, w')
            })
     }"

text \<open>Where a changed subscription goes next, with the TTL of the messages to the peers.\<close>

definition peer_forwarding :: "subscription_outcome \<Rightarrow> conn_id \<Rightarrow> nat \<Rightarrow> peer_sync \<Rightarrow> peer_target option \<times> nat" where
  "peer_forwarding oc in_conn remaining s =
     (if \<not> outcome_is_peer_conn oc \<and> outcome_transition oc then (Some All_Peers, sync_subscription_ttl s)
      else if outcome_is_peer_conn oc \<and> 2 \<le> remaining then (Some (Exclude_Conn in_conn), remaining)
      else (None, 0))"

text \<open>The rest of \<open>process_subscription\<close> once the table accepted the change.\<close>

definition propagate_subscription ::
  "('mac, 'io) link_env \<Rightarrow> (datapath_error \<Rightarrow> string) \<Rightarrow> proto_message \<Rightarrow> conn_id \<Rightarrow> conn_id \<Rightarrow> bool \<Rightarrow> bool \<Rightarrow>
   sub_id option \<Rightarrow> subscription_outcome \<Rightarrow> ('ver, 'mac, 'io) processor \<Rightarrow> ('ver, 'mac, 'io) outcome" where
  "propagate_subscription env disp m in_connection in_conn is_local add sid oc p =
     do {
       let cp = (if is_local \<and> \<not> outcome_is_peer_conn oc \<and> outcome_transition oc \<and> tx_control_plane p
                 then [To_Control_Plane m] else []);
       remaining \<leftarrow> get_ttl m;
       let (target, ttl) = peer_forwarding oc in_conn remaining (proc_peer_sync p);
       let tgts = \<lparr>target_peers = target, target_forward_conn = outcome_forward_conn oc\<rparr>;
       if has_any tgts \<and> drain_watch p then
         do {
           dst \<leftarrow> get_dst m;
           Some (Inr (), cp @ [Spawned \<lparr>task_msg = m, task_name = dst, task_sub_id = (case sid of Some i \<Rightarrow> i | None \<Rightarrow> 0),
                   task_add = add, task_targets = tgts, task_in_conn = in_connection, task_upstream = sid,
                   task_peer_ttl = ttl\<rparr>], p)
         }
       else
         map_option (\<lambda>acks. (Inr (), cp @ acks, p)) (ack_upstream env disp in_connection sid (Inr ()) p)
     }"

definition process_subscription ::
  "('mac, 'io) link_env \<Rightarrow> externs \<Rightarrow> (datapath_error \<Rightarrow> string) \<Rightarrow> proto_message \<Rightarrow> conn_id \<Rightarrow> bool \<Rightarrow>
   ('ver, 'mac, 'io) processor \<Rightarrow> ('ver, 'mac, 'io) outcome" where
  "process_subscription env x disp m in_connection add p =
     do {
       let sid = get_subscription_id m;
       h \<leftarrow> get_slim_header m;
       (incoming, recv_from, fwd0) \<leftarrow> get_connections h;
       let in_conn = (case recv_from of Some c \<Rightarrow> c | None \<Rightarrow> incoming);
       let w = proc_forwarder p;
       let fwd = (case fwd0 of
                    Some out \<Rightarrow>
                      (case get_connection w out of
                         Some c \<Rightarrow> if is_local_connection c then None else Some out
                       | None \<Rightarrow> Some out)
                  | None \<Rightarrow> None);
       (case get_connection w in_conn of
          None \<Rightarrow>
            map_option (\<lambda>acks. (Inl (MessageProcessingError (ConnectionNotFound in_conn) m), acks, p))
              (ack_upstream env disp in_connection sid (Inl (ConnectionNotFound in_conn)) p)
        | Some conn \<Rightarrow>
            let i = (case sid of Some i \<Rightarrow> i | None \<Rightarrow> 0) in
            if recv_from \<noteq> None \<and> is_local_connection conn
            then map_option (\<lambda>acks. (Inr (), acks, p)) (ack_upstream env disp in_connection sid (Inr ()) p)
            else if add \<and> i \<noteq> 0 \<and> has_seen_sub_id i (proc_peer_sync p)
            then map_option (\<lambda>acks. (Inr (), acks, p)) (ack_upstream env disp in_connection sid (Inr ()) p)
            else
              do {
                (r, w') \<leftarrow> update_subscription_state x m in_conn fwd add i w;
                let p' = p\<lparr>proc_forwarder := w'\<rparr>;
                (case r of
                   Inl e \<Rightarrow>
                     if sid = None then Some (Inl (MessageProcessingError e m), [], p')
                     else map_option (\<lambda>acks. (Inr (), acks, p')) (ack_upstream env disp in_connection sid (Inl e) p')
                 | Inr oc \<Rightarrow>
                     propagate_subscription env disp m in_connection in_conn (is_local_connection conn) add sid oc p')
              })
     }"

section \<open>Messages\<close>

definition handle_link_message ::
  "link_negotiation option \<Rightarrow> conn_id \<Rightarrow> conn_type \<Rightarrow> ('ver, 'mac, 'io) processor \<Rightarrow> ('ver, 'mac, 'io) outcome" where
  "handle_link_message link c category p =
     (if conn_type_is_local category then Some (Inr (), [], p)
      else (case link of Some payload \<Rightarrow> Some (Inr (), [], p) | None \<Rightarrow> Some (Inr (), [], p)))"

definition publish_filter :: "conn_type \<Rightarrow> ('ver, 'mac, 'io) processor \<Rightarrow> match_filter" where
  "publish_filter category p =
     (case category of
        Peer \<Rightarrow> if relay_peer_publishes p then match_filter_ALL else match_filter_EXCLUDE_PEER
      | _ \<Rightarrow> match_filter_ALL)"

definition process_message ::
  "('mac, 'io) link_env \<Rightarrow> externs \<Rightarrow> (datapath_error \<Rightarrow> string) \<Rightarrow> proto_message \<Rightarrow> conn_id \<Rightarrow> conn_type \<Rightarrow>
   ('ver, 'mac, 'io) processor \<Rightarrow> ('ver, 'mac, 'io) outcome" where
  "process_message env x disp m in_connection category p =
     (case message_type m of
        Some (Subscribe _) \<Rightarrow> process_subscription env x disp m in_connection True p
      | Some (Unsubscribe _) \<Rightarrow> process_subscription env x disp m in_connection False p
      | Some (Publish _) \<Rightarrow> process_publish env x m in_connection (publish_filter category p) category p
      | Some (Link link) \<Rightarrow> handle_link_message link in_connection category p
      | Some (SubscriptionAck ack) \<Rightarrow>
          let result = (if ack_success ack then Inr () else Inl (RemoteSubscriptionAckError (ack_error ack)))
          in Some (Inr (), [], p\<lparr>proc_peer_sync :=
               resolve_ack disp (ack_subscription_id ack) result (proc_peer_sync p)\<rparr>)
      | None \<Rightarrow> None)"

definition handle_new_message ::
  "('mac, 'io) link_env \<Rightarrow> externs \<Rightarrow> (datapath_error \<Rightarrow> string) \<Rightarrow> conn_id \<Rightarrow> conn_type \<Rightarrow> proto_message \<Rightarrow>
   ('ver, 'mac, 'io) processor \<Rightarrow> ('ver, 'mac, 'io) outcome" where
  "handle_new_message env x disp c category m p =
     (case validate m of
        Inl err \<Rightarrow> Some (Inl (MessageProcessingError (MalformedMessage err) m), [], p)
      | Inr _ \<Rightarrow>
          do {
            l \<leftarrow> is_link m;
            a \<leftarrow> is_subscription_ack m;
            if l \<or> a then process_message env x disp m c category p
            else do {
              m1 \<leftarrow> set_incoming_conn (Some c) m;
              if conn_type_is_local category then process_message env x disp m1 c category p
              else do {
                (ttl, m2) \<leftarrow> msg_decrement_ttl m1;
                if ttl = 0 then Some (Inl TtlExpired, [], p)
                else process_message env x disp m2 c category p
              }
            }
          })"

section \<open>Streams\<close>

definition is_subscribe_or_unsubscribe :: "proto_message \<Rightarrow> bool" where
  "is_subscribe_or_unsubscribe m =
     (case message_type m of Some (Subscribe _) \<Rightarrow> True | Some (Unsubscribe _) \<Rightarrow> True | _ \<Rightarrow> False)"

definition is_publish_msg :: "proto_message \<Rightarrow> bool" where
  "is_publish_msg m = (case message_type m of Some (Publish _) \<Rightarrow> True | _ \<Rightarrow> False)"

definition verify_remote_header_mac ::
  "('mac, 'io) link_env \<Rightarrow> conn_id \<Rightarrow> proto_message \<Rightarrow> bool \<Rightarrow> ('ver, 'mac, 'io) conn_forwarder \<Rightarrow>
   datapath_error + unit" where
  "verify_remote_header_mac env c m strict w =
     (case get_connection w c of
        None \<Rightarrow> Inl (ConnectionNotFound c)
      | Some conn \<Rightarrow>
          if \<not> is_inter_node (connection_type conn) then Inr ()
          else
            (case get_slim_header m of
               None \<Rightarrow> Inl UnknownMsgType
             | Some h \<Rightarrow>
                 let wire_mac = (case hdr_mac h of Some b \<Rightarrow> b \<noteq> [] | None \<Rightarrow> False) in
                 if is_subscribe_or_unsubscribe m \<and> \<not> wire_mac then
                   (if strict then Inl (NegotiationError ''empty HMAC is not allowed in strict verification mode'')
                    else Inr ())
                 else
                   (case header_hmac conn of
                      None \<Rightarrow>
                        if strict
                        then Inl (NegotiationError ''strict header MAC required but link HMAC session is not installed'')
                        else if is_publish_msg m \<and> wire_mac then Inl (HeaderMacAwaitingLinkNegotiation c)
                        else Inr ()
                    | Some mac \<Rightarrow>
                        (case nonempty (conn_link_id conn) of
                           None \<Rightarrow> Inl (HeaderMacAwaitingLinkNegotiation c)
                         | Some l \<Rightarrow> map_sum HeaderIntegrity id (verify_slim_header env mac l h)))))"

text \<open>The copy of a remote subscription for the control plane: source and destination only.\<close>

definition control_plane_copy :: "externs \<Rightarrow> proto_message \<Rightarrow> proto_message option option" where
  "control_plane_copy x m =
     (case message_type m of
        None \<Rightarrow> None
      | Some (Subscribe _) \<Rightarrow>
          do {
            src \<leftarrow> get_source m;
            dst \<leftarrow> get_dst m;
            Some (case build_subscribe x (builder_new\<lparr>b_source := Some src, b_destination := Some dst\<rparr>) of
                    Inr c \<Rightarrow> Some c | Inl _ \<Rightarrow> None)
          }
      | Some (Unsubscribe _) \<Rightarrow>
          do {
            src \<leftarrow> get_source m;
            dst \<leftarrow> get_dst m;
            Some (case build_unsubscribe x (builder_new\<lparr>b_source := Some src, b_destination := Some dst\<rparr>) of
                    Inr c \<Rightarrow> Some c | Inl _ \<Rightarrow> None)
          }
      | Some _ \<Rightarrow> Some None)"

definition to_control_plane ::
  "externs \<Rightarrow> conn_id \<Rightarrow> bool \<Rightarrow> bool \<Rightarrow> proto_message \<Rightarrow> ('ver, 'mac, 'io) processor \<Rightarrow> effect list option" where
  "to_control_plane x c is_local from_control_plane m p =
     (let is_remote = (\<not> is_local \<and>
            (case get_connection (proc_forwarder p) c of Some conn \<Rightarrow> is_inter_node (connection_type conn) | None \<Rightarrow> False))
      in if is_remote \<and> \<not> from_control_plane \<and> tx_control_plane p
         then map_option (\<lambda>r. case r of Some cp \<Rightarrow> [To_Control_Plane cp] | None \<Rightarrow> []) (control_plane_copy x m)
         else Some [])"

text \<open>What the local application is told of an error; only a server channel can carry it.\<close>

definition send_error_to_local_app ::
  "('mac, 'io) link_env \<Rightarrow> conn_id \<Rightarrow> datapath_error \<Rightarrow> ('ver, 'mac, 'io) processor \<Rightarrow> effect list" where
  "send_error_to_local_app env c e p =
     (case get_connection (proc_forwarder p) c of
        Some conn \<Rightarrow> if link_is_server env (conn_io conn) \<and> link_open env (conn_io conn) then [App_Error c e] else []
      | None \<Rightarrow> [])"

text \<open>
  One message of the loop in \<open>process_stream\<close>. The Boolean of the result says that the loop goes on;
  a negotiation error ends it without a reconnection.
\<close>

definition stream_message ::
  "('mac, 'io) link_env \<Rightarrow> externs \<Rightarrow> (datapath_error \<Rightarrow> string) \<Rightarrow> conn_id \<Rightarrow> conn_type \<Rightarrow> bool \<Rightarrow> bool \<Rightarrow> bool \<Rightarrow>
   proto_message \<Rightarrow> ('ver, 'mac, 'io) processor \<Rightarrow> (bool \<times> effect list \<times> ('ver, 'mac, 'io) processor) option" where
  "stream_message env x disp c category is_local strict from_control_plane m p =
     do {
       refused \<leftarrow> (if is_local then Some False
                  else do {
                    l \<leftarrow> is_link m;
                    a \<leftarrow> is_subscription_ack m;
                    Some (\<not> l \<and> \<not> a \<and> verify_remote_header_mac env c m strict (proc_forwarder p) \<noteq> Inr ())
                  });
       if refused then Some (True, [], p)
       else do {
         cp \<leftarrow> to_control_plane x c is_local from_control_plane m p;
         (r, effs, p') \<leftarrow> handle_new_message env x disp c category m p;
         Some (case r of
                 Inr _ \<Rightarrow> (True, cp @ effs, p')
               | Inl (NegotiationError _) \<Rightarrow> (False, cp @ effs, p')
               | Inl e \<Rightarrow> (True, cp @ effs @ (if is_local then send_error_to_local_app env c e p' else []), p'))
       }
     }"

section \<open>Opening a connection\<close>

definition send_status ::
  "('mac, 'io) link_env \<Rightarrow> conn_id \<Rightarrow> string \<Rightarrow> ('ver, 'mac, 'io) processor \<Rightarrow> effect list" where
  "send_status env c status p =
     (case get_connection (proc_forwarder p) c of
        Some conn \<Rightarrow> if link_is_server env (conn_io conn) \<and> link_open env (conn_io conn) then [Status_Sent c status] else []
      | None \<Rightarrow> [])"

text \<open>\<open>handle_peer_upgrade\<close>; \<open>Disconnect\<close> cancels the task of the connection.\<close>

definition handle_peer_upgrade ::
  "('mac, 'io) link_env \<Rightarrow> string \<Rightarrow> string \<Rightarrow> conn_id \<Rightarrow> ('ver, 'mac, 'io) processor \<Rightarrow>
   effect list \<times> ('ver, 'mac, 'io) processor" where
  "handle_peer_upgrade env remote_node remote_deployment c p =
     (if remote_node = service_id p
      then (send_status env c ''self-connection rejected: same node_id'' p @ [Disconnect c], p)
      else if deployment_name p \<noteq> '''' \<and> remote_deployment \<noteq> deployment_name p
      then (send_status env c ''deployment_name mismatch'' p @ [Disconnect c], p)
      else
        let w = proc_forwarder p;
            t = snd (connection_table_update c (set_connection_type Peer) (fwd_connections w));
            (sync, s) = on_incoming_peer remote_node c (proc_peer_sync p)
        in (if sync then [Sync_Spawned c] else [], p\<lparr>proc_forwarder := on_connection_type_changed (w\<lparr>fwd_connections := t\<rparr>), proc_peer_sync := s\<rparr>))"

text \<open>
  \<open>negotiate_and_register\<close> after a successful negotiation, whose result gives the type, the name
  and the deployment of the remote node. The result carries the index and category of the connection.
\<close>

definition register_negotiated ::
  "('mac, 'io) link_env \<Rightarrow> ('ver, 'mac, 'io) connection \<Rightarrow> nat option \<Rightarrow> conn_type \<Rightarrow> string \<Rightarrow> string \<Rightarrow>
   ('ver, 'mac, 'io) processor \<Rightarrow>
   ((datapath_error + conn_id \<times> conn_type) \<times> effect list \<times> ('ver, 'mac, 'io) processor) option" where
  "register_negotiated env conn existing ct remote_node remote_deployment p =
     do {
       (i, w) \<leftarrow> on_connection_established conn existing (proc_forwarder p);
       let p1 = p\<lparr>proc_forwarder := w\<rparr>;
       Some (case i of
               None \<Rightarrow> (Inl ConnectionTableAddError, [], p1)
             | Some c \<Rightarrow>
                 (case ct of
                    Peer \<Rightarrow>
                      (case handle_peer_upgrade env remote_node remote_deployment c p1 of
                         (effs, p2) \<Rightarrow> (Inr (c, Peer), effs, p2))
                  | Remote \<Rightarrow>
                      let link = (case Option.bind (get_connection w c) conn_link_id of Some l \<Rightarrow> l | None \<Rightarrow> '''');
                          note_msg = \<lparr>metadata = [], message_type = Some (Link (Some
                            \<lparr>neg_link_id = link, neg_slim_version = '''', neg_is_reply = False, neg_ecdh_public_key = [],
                             neg_connection_type = 0, neg_node_id = '''', neg_deployment_name = '''',
                             neg_kem_payload = None\<rparr>))\<rparr>
                      in (Inr (c, Remote), if tx_control_plane p then [To_Control_Plane note_msg] else [], p1)
                  | Edge \<Rightarrow>
                      (Inr (c, Edge), [], p1\<lparr>proc_forwarder := on_connection_type_changed
                         (w\<lparr>fwd_connections := snd (connection_table_update c (set_connection_type Edge) (fwd_connections w))\<rparr>)\<rparr>)
                  | Local \<Rightarrow> (Inr (c, Local), [], p1)))
     }"

section \<open>Closing a connection\<close>

text \<open>The messages a sync or a withdrawal hands out, as they reach the channels.\<close>

definition send_fn ::
  "('mac, 'io) link_env \<Rightarrow> ('ver, 'mac, 'io) conn_forwarder \<Rightarrow> proto_message \<Rightarrow> conn_id \<Rightarrow> datapath_error + unit" where
  "send_fn env w m c =
     (case send_msg env w m c of Some (Inr _) \<Rightarrow> Inr () | Some (Inl e) \<Rightarrow> Inl e | None \<Rightarrow> Inl UnknownMsgType)"

definition deliveries ::
  "('mac, 'io) link_env \<Rightarrow> ('ver, 'mac, 'io) conn_forwarder \<Rightarrow> (conn_id \<times> proto_message) list \<Rightarrow> effect list" where
  "deliveries env w out =
     concat (map (\<lambda>(c, m). case send_msg env w m c of Some (Inr m') \<Rightarrow> [Delivered c m'] | _ \<Rightarrow> []) out)"

definition u64_MAX :: nat where "u64_MAX = 2 ^ 64 - 1"

definition u32_MAX :: nat where "u32_MAX = 2 ^ 32 - 1"

text \<open>The loop over the names of the closed connection: the peers are told of those nobody reaches any more.\<close>

fun withdraw_unreachable ::
  "('mac, 'io) link_env \<Rightarrow> externs \<Rightarrow> proto_name list \<Rightarrow> ('ver, 'mac, 'io) processor \<Rightarrow>
   (effect list \<times> ('ver, 'mac, 'io) processor) option" where
  "withdraw_unreachable env x [] p = Some ([], p)"
| "withdraw_unreachable env x (n # ns) p =
     do {
       (reachable, w) \<leftarrow> (case enc_name n of
          None \<Rightarrow> Some (False, proc_forwarder p)
        | Some e \<Rightarrow>
            map_option (\<lambda>(r, w). (case r of Inr _ \<Rightarrow> True | Inl _ \<Rightarrow> False, w))
              (on_publish_msg_match x e u64_MAX u32_MAX match_filter_ALL (proc_forwarder p)));
       let p1 = p\<lparr>proc_forwarder := w\<rparr>;
       if reachable then withdraw_unreachable env x ns p1
       else
         (case notify_peers_unsubscribe x (send_fn env w) n (proc_peer_sync p1) of
            (out, s) \<Rightarrow>
              map_option (\<lambda>(effs, p2). (deliveries env w out @ effs, p2))
                (withdraw_unreachable env x ns (p1\<lparr>proc_peer_sync := s\<rparr>)))
     }"

text \<open>\<open>notify_control_plane_subscriptions_lost\<close>; the \<open>unwrap\<close> cannot fail, both names are set.\<close>

definition subscriptions_lost :: "externs \<Rightarrow> proto_name list \<Rightarrow> conn_id \<Rightarrow> effect list option" where
  "subscriptions_lost x ns c =
     those (map (\<lambda>n. case build_unsubscribe x (with_flags (\<lambda>f. f\<lparr>fl_recv_from := Some c\<rparr>)
                          (builder_new\<lparr>b_source := Some n, b_destination := Some n\<rparr>)) of
                       Inr m \<Rightarrow> Some (To_Control_Plane m) | Inl _ \<Rightarrow> None) ns)"

definition connection_closed ::
  "('mac, 'io) link_env \<Rightarrow> externs \<Rightarrow> conn_id \<Rightarrow> conn_type \<Rightarrow> bool \<Rightarrow> ('ver, 'mac, 'io) processor \<Rightarrow>
   (effect list \<times> ('ver, 'mac, 'io) processor) option" where
  "connection_closed env x c category is_local p =
     do {
       (subs, w) \<leftarrow> on_connection_drop x c category (proc_forwarder p);
       let p1 = p\<lparr>proc_forwarder := w, proc_remote_sync := snd (remote_connection_drop c (proc_remote_sync p)),
                  proc_peer_sync := (if category = Peer then remove_peer_conn c (proc_peer_sync p) else proc_peer_sync p)\<rparr>;
       (effs, p2) \<leftarrow> withdraw_unreachable env x (hkeys subs) p1;
       cp \<leftarrow> (if \<not> is_local \<and> tx_control_plane p then subscriptions_lost x (hkeys subs) c else Some []);
       Some (effs @ cp, p2)
     }"

section \<open>Forwarding tasks\<close>

text \<open>
  A spawned task up to its waits: forwarding to the peers and to the connection are started one after
  the other, in either order. The first two components are the results of the two starts: an error
  or the channel that is awaited.
\<close>

definition start_forward ::
  "('mac, 'io) link_env \<Rightarrow> externs \<Rightarrow> bool \<Rightarrow> forward_task \<Rightarrow> ('ver, 'mac, 'io) processor \<Rightarrow>
   ((datapath_error + nat option) \<times> (datapath_error + nat option) \<times> effect list \<times> ('ver, 'mac, 'io) processor) option" where
  "start_forward env x peers_first tk p =
     (let w = proc_forwarder p;
          run_peers = (\<lambda>s. forward_to_peers x (send_fn env w) (task_name tk) (task_sub_id tk) (task_add tk) (task_targets tk)
                             (task_peer_ttl tk) s);
          run_conn = (\<lambda>s. forward_to_conn (send_fn env w) (task_msg tk) (task_sub_id tk) (task_add tk) (task_targets tk) s
                            (proc_remote_sync p))
      in
      if peers_first then
        (case run_peers (proc_peer_sync p) of
           (pr, out1, s1) \<Rightarrow>
             do {
               (cr, out2, s2, t) \<leftarrow> run_conn s1;
               Some (pr, cr, deliveries env w (out1 @ out2), p\<lparr>proc_peer_sync := s2, proc_remote_sync := t\<rparr>)
             })
      else
        do {
          (cr, out2, s2, t) \<leftarrow> run_conn (proc_peer_sync p);
          (case run_peers s2 of
             (pr, out1, s1) \<Rightarrow> Some (pr, cr, deliveries env w (out2 @ out1), p\<lparr>proc_peer_sync := s1, proc_remote_sync := t\<rparr>))
        })"

end
