(* ===== verification/Processing_Run.thy ===== *)
theory Processing_Run
  imports Message_Processing
begin

text \<open>
  Facts about the handlers of \<open>Message_Processing\<close>: what a channel receives when a message is sent,
  that the handlers keep the forwarder within its reachable states, and the hops of a message from
  node to node.
\<close>

section \<open>What a channel receives\<close>

text \<open>
  Signing a header writes its tag and nothing else (\<^verbatim>\<open>crates/datapath/src/header_mac.rs\<close>).
\<close>

definition signing_ok :: "('mac, 'io) link_env \<Rightarrow> bool" where
  "signing_ok env \<longleftrightarrow> (\<forall>mac l h h'. sign_slim_header env mac l h = Inr h' \<longrightarrow> (\<exists>tag. h' = h\<lparr>hdr_mac := tag\<rparr>))"

definition is_routed :: "proto_message \<Rightarrow> bool" where
  "is_routed m \<longleftrightarrow> is_link m = Some False \<and> is_subscription_ack m = Some False"

lemma routed_header: "get_slim_header m = Some h \<Longrightarrow> is_routed m"
  by (auto simp: is_routed_def get_slim_header_def header_defs split: option.splits message_type.splits)

lemma update_header_iff:
  assumes "get_slim_header m = Some h"
  obtains m' where "update_slim_header f m = Some m'" "get_slim_header m' = Some (f h)"
    "is_publish_msg m' = is_publish_msg m" "get_subscription_id m' = get_subscription_id m"
proof -
  obtain t where t: "message_type m = Some t" using assms by (cases "message_type m") (simp_all add: get_slim_header_def)
  show thesis
    using assms t that
    by (cases t) (auto simp: update_slim_header_def get_slim_header_def is_publish_msg_def get_subscription_id_def)
qed

lemma clear_header:
  assumes "get_slim_header m = Some h"
  obtains m' where "clear_slim_header m = Some m'" "get_slim_header m' = Some (clear_flags h)" "is_publish_msg m' = is_publish_msg m"
proof -
  obtain m' where "update_slim_header clear_flags m = Some m'" "get_slim_header m' = Some (clear_flags h)"
    "is_publish_msg m' = is_publish_msg m" by (rule update_header_iff [OF assms])
  then show thesis
    using that routed_header [OF assms] by (simp add: clear_slim_header_def is_routed_def)
qed

text \<open>On every channel a routed message arrives with its routing flags cleared and only its tag changed.\<close>

lemma sign_msg_header:
  assumes sign: "signing_ok env" and h: "get_slim_header m = Some h" and run: "sign_msg env conn c b m = Some (Inr m')"
  shows "\<exists>tag. get_slim_header m' = Some (h\<lparr>hdr_mac := tag\<rparr>)" "is_publish_msg m' = is_publish_msg m"
proof -
  have "(\<exists>tag. get_slim_header m' = Some (h\<lparr>hdr_mac := tag\<rparr>)) \<and> is_publish_msg m' = is_publish_msg m"
  proof (cases "header_hmac conn = None \<or> \<not> b")
    case True
    then have "m' = m" using run by (auto simp: sign_msg_def split: option.splits)
    then show ?thesis using h by (intro conjI exI [of _ "hdr_mac h"]) simp_all
  next
    case False
    then obtain mac where mac: "header_hmac conn = Some mac" "b" by auto
    obtain l where l: "link_id_for env conn = Some l" using run mac by (cases "link_id_for env conn") (simp_all add: sign_msg_def)
    obtain h' where h': "sign_slim_header env mac l h = Inr h'"
      using run mac l h by (cases "sign_slim_header env mac l h") (simp_all add: sign_msg_def)
    then obtain tag where tag: "h' = h\<lparr>hdr_mac := tag\<rparr>" using sign unfolding signing_ok_def by blast
    obtain m1 where "update_slim_header (\<lambda>_. h') m = Some m1" "get_slim_header m1 = Some h'" "is_publish_msg m1 = is_publish_msg m"
      by (rule update_header_iff [OF h])
    then show ?thesis using run mac l h h' tag by (intro conjI exI [of _ tag]) (simp_all add: sign_msg_def)
  qed
  then show "\<exists>tag. get_slim_header m' = Some (h\<lparr>hdr_mac := tag\<rparr>)" "is_publish_msg m' = is_publish_msg m" by simp_all
qed

definition arrives_as :: "slim_header \<Rightarrow> proto_message \<Rightarrow> bool" where
  "arrives_as h m' \<longleftrightarrow> (\<exists>tag. get_slim_header m' = Some ((clear_flags h)\<lparr>hdr_mac := tag\<rparr>))"

text \<open>The stages of a successful send: clearing the flags, signing, dropping the tag towards an application.\<close>

lemma send_msg_stages:
  assumes h: "get_slim_header m = Some h" and run: "send_msg env w m c = Some (Inr m')"
  obtains conn m1 m2 where "get_connection w c = Some conn"
    "\<not> (is_inter_node (connection_type conn) \<and> require_header_mac conn \<and> header_hmac conn = None)"
    "get_slim_header m1 = Some (clear_flags h)" "is_publish_msg m1 = is_publish_msg m"
    "sign_msg env conn c (is_inter_node (connection_type conn)) m1 = Some (Inr m2)"
    "(if link_is_server env (conn_io conn) \<and> connection_type conn = Local
      then update_slim_header (\<lambda>h. h\<lparr>hdr_mac := None\<rparr>) m2 else Some m2) = Some m'"
proof -
  obtain conn where conn: "get_connection w c = Some conn" using run by (cases "get_connection w c") (simp_all add: send_msg_def)
  have routed: "is_link m = Some False" "is_subscription_ack m = Some False"
    using routed_header [OF h] by (simp_all add: is_routed_def)
  obtain m1 where m1: "clear_slim_header m = Some m1" "get_slim_header m1 = Some (clear_flags h)" "is_publish_msg m1 = is_publish_msg m"
    by (rule clear_header [OF h])
  let ?b = "is_inter_node (connection_type conn)"
  let ?srv = "link_is_server env (conn_io conn) \<and> connection_type conn = Local"
  have strict: "\<not> (?b \<and> require_header_mac conn \<and> header_hmac conn = None)"
    using run by (auto simp: send_msg_def conn routed m1(1) Let_def split: if_splits)
  obtain r where r: "sign_msg env conn c ?b m1 = Some r"
    using run strict by (cases "sign_msg env conn c ?b m1") (simp_all add: send_msg_def conn routed m1(1) Let_def)
  obtain m2 where r2: "r = Inr m2"
    using run strict r by (cases r) (simp_all add: send_msg_def conn routed m1(1) Let_def)
  note m2 = r [unfolded r2]
  have m3: "(if ?srv then update_slim_header (\<lambda>h. h\<lparr>hdr_mac := None\<rparr>) m2 else Some m2) = Some m'"
    using run strict m2
    by (cases "if ?srv then update_slim_header (\<lambda>h. h\<lparr>hdr_mac := None\<rparr>) m2 else Some m2")
       (simp_all add: send_msg_def conn routed m1(1) Let_def split: if_splits)
  show thesis by (rule that [OF conn strict m1(2,3) m2 m3])
qed

lemma send_msg_arrives:
  assumes sign: "signing_ok env" and h: "get_slim_header m = Some h" and run: "send_msg env w m c = Some (Inr m')"
  shows "arrives_as h m'" "is_publish_msg m' = is_publish_msg m"
proof -
  obtain conn m1 m2 where "get_connection w c = Some conn"
    "\<not> (is_inter_node (connection_type conn) \<and> require_header_mac conn \<and> header_hmac conn = None)"
    and m1: "get_slim_header m1 = Some (clear_flags h)" "is_publish_msg m1 = is_publish_msg m"
    and m2: "sign_msg env conn c (is_inter_node (connection_type conn)) m1 = Some (Inr m2)"
    and m3: "(if link_is_server env (conn_io conn) \<and> connection_type conn = Local
      then update_slim_header (\<lambda>h. h\<lparr>hdr_mac := None\<rparr>) m2 else Some m2) = Some m'"
    by (rule send_msg_stages [OF h run])
  obtain tag where tag: "get_slim_header m2 = Some ((clear_flags h)\<lparr>hdr_mac := tag\<rparr>)" and pub: "is_publish_msg m2 = is_publish_msg m"
    using sign_msg_header [OF sign m1(1) m2] m1(2) by auto
  obtain m4 where "update_slim_header (\<lambda>h. h\<lparr>hdr_mac := None\<rparr>) m2 = Some m4"
    "get_slim_header m4 = Some ((clear_flags h)\<lparr>hdr_mac := None\<rparr>)" "is_publish_msg m4 = is_publish_msg m2"
    using update_header_iff [OF tag, of "\<lambda>h. h\<lparr>hdr_mac := None\<rparr>"] by auto
  then show "arrives_as h m'" "is_publish_msg m' = is_publish_msg m"
    using m3 tag pub by (auto simp: arrives_as_def split: if_splits)
qed

section \<open>Sending never panics on a message with a header\<close>

lemma sign_msg_total:
  assumes h: "get_slim_header m = Some h"
  shows "\<exists>r. sign_msg env conn c b m = Some r \<and> (\<forall>m'. r = Inr m' \<longrightarrow> (\<exists>h'. get_slim_header m' = Some h'))"
proof (cases "header_hmac conn = None \<or> \<not> b \<or> link_id_for env conn = None")
  case True
  then show ?thesis using h by (auto simp: sign_msg_def split: option.splits)
next
  case False
  then obtain mac l where link: "header_hmac conn = Some mac" "b" "link_id_for env conn = Some l" by auto
  show ?thesis
  proof (cases "sign_slim_header env mac l h")
    case (Inl e)
    then show ?thesis using link h by (simp add: sign_msg_def)
  next
    case (Inr h')
    obtain m1 where "update_slim_header (\<lambda>_. h') m = Some m1" "get_slim_header m1 = Some h'"
      by (rule update_header_iff [OF h])
    then show ?thesis using link h Inr by (simp add: sign_msg_def)
  qed
qed

lemma send_msg_total:
  assumes h: "get_slim_header m = Some h"
  shows "\<exists>r. send_msg env w m c = Some r"
proof (cases "get_connection w c")
  case None
  then show ?thesis by (simp add: send_msg_def)
next
  case (Some conn)
  have routed: "is_link m = Some False" "is_subscription_ack m = Some False"
    using routed_header [OF h] by (simp_all add: is_routed_def)
  obtain m1 where m1: "clear_slim_header m = Some m1" "get_slim_header m1 = Some (clear_flags h)"
    by (rule clear_header [OF h])
  obtain r where r: "sign_msg env conn c (is_inter_node (connection_type conn)) m1 = Some r"
    and r_hdr: "\<And>m'. r = Inr m' \<Longrightarrow> \<exists>h'. get_slim_header m' = Some h'"
    using sign_msg_total [OF m1(2)] by blast
  show ?thesis
  proof (cases r)
    case (Inl e)
    then show ?thesis by (simp add: send_msg_def Some routed m1(1) r Let_def)
  next
    case (Inr m2)
    then obtain h2 where h2: "get_slim_header m2 = Some h2" using r_hdr by blast
    obtain m3 where "update_slim_header (\<lambda>h. h\<lparr>hdr_mac := None\<rparr>) m2 = Some m3" by (rule update_header_iff [OF h2])
    then show ?thesis by (simp add: send_msg_def Some routed m1(1) r Inr Let_def)
  qed
qed

text \<open>An acknowledgement has no header, so nothing in it is rewritten.\<close>

lemma send_ack_total: "\<exists>r. send_msg env w (build_subscription_ack i ok err) c = Some r"
  by (cases "get_connection w c")
     (simp_all add: send_msg_def build_subscription_ack_def header_defs sign_msg_def Let_def split: option.split)

lemma ack_upstream_total: "\<exists>acks. ack_upstream env disp c sid result p = Some acks"
proof (cases sid)
  case (Some i)
  obtain r where "send_msg env (proc_forwarder p)
      (case result of Inr _ \<Rightarrow> build_subscription_ack i True '''' | Inl e \<Rightarrow> build_subscription_ack i False (disp e)) c = Some r"
    using send_ack_total by (cases result) (simp_all, blast+)
  then show ?thesis by (simp add: Some ack_upstream_def send_subscription_ack_def Let_def)
qed (simp add: ack_upstream_def)

section \<open>What a handler hands out for a published message\<close>

definition sends_only ::
  "('mac, 'io) link_env \<Rightarrow> ('ver, 'mac, 'io) conn_forwarder \<Rightarrow> proto_message \<Rightarrow> effect list \<Rightarrow> bool" where
  "sends_only env w m effs \<longleftrightarrow> (\<forall>ef\<in>set effs. \<exists>d m'. ef = Delivered d m' \<and> send_msg env w m d = Some (Inr m'))"

lemma send_one_run:
  assumes "get_slim_header m = Some h"
  obtains r effs where "send_one env m c p = Some (r, effs, p)" "sends_only env (proc_forwarder p) m effs"
proof -
  obtain r where r: "send_msg env (proc_forwarder p) m c = Some r" using send_msg_total [OF assms] by blast
  show thesis using r that by (cases r) (auto simp: send_one_def sends_only_def)
qed

lemma fan_out_run:
  assumes h: "get_slim_header m = Some h"
  shows "\<exists>k e effs. fan_out env w m cs k0 e0 = Some (k, e, effs) \<and> sends_only env w m effs"
proof (induction cs arbitrary: k0 e0)
  case (Cons c cs)
  obtain r where r: "send_msg env w m c = Some r" using send_msg_total [OF h] by blast
  show ?case
  proof (cases r)
    case (Inl e)
    then show ?thesis using Cons.IH [of "k0 + 1" "Some e"] by (simp add: r)
  next
    case (Inr m')
    from Cons.IH [of k0 e0] obtain k e effs where "fan_out env w m cs k0 e0 = Some (k, e, effs)" "sends_only env w m effs"
      by (elim exE conjE)
    then show ?thesis using r Inr by (simp add: sends_only_def)
  qed
qed (simp add: sends_only_def)

lemma forward_to_all_run:
  assumes h: "get_slim_header m = Some h"
  obtains r effs where "forward_to_all env m out p = Some (r, effs, p)" "sends_only env (proc_forwarder p) m effs"
proof (cases "\<exists>c. out = [c]")
  case True
  then obtain c where c: "out = [c]" by blast
  obtain r effs where "send_one env m c p = Some (r, effs, p)" "sends_only env (proc_forwarder p) m effs"
    by (rule send_one_run [OF h])
  then show thesis using that c by (simp add: forward_to_all_def)
next
  case False
  obtain k e effs where fan: "fan_out env (proc_forwarder p) m out 0 None = Some (k, e, effs)"
    and sends: "sends_only env (proc_forwarder p) m effs"
    using fan_out_run [OF h] by blast
  have "forward_to_all env m out p =
      Some (case e of Some x \<Rightarrow> if k = length out then Inl x else Inr () | None \<Rightarrow> Inr (), effs, p)"
    using fan False by (auto simp: forward_to_all_def split: list.splits)
  then show thesis using sends that by blast
qed

section \<open>The handlers stay within the reachable states\<close>

text \<open>The category recorded with a route is the type of its connection.\<close>

definition cats_agree :: "(conn_id \<Rightarrow> conn_type) \<Rightarrow> ('ver, 'mac, 'io) conn_forwarder \<Rightarrow> bool" where
  "cats_agree cat w \<longleftrightarrow> (\<forall>c conn. get_connection w c = Some conn \<longrightarrow> connection_type conn = cat c)"

lemma gateway_run:
  assumes "fwd_reachable x cat w"
  obtains g w' where "resolve_default_gateway w = Some (g, w')" "fwd_reachable x cat w'"
    "fwd_connections w' = fwd_connections w"
proof -
  obtain edges where edges: "edge_conn_ids w = Some edges" using fwd_reachable_inv [OF assms] by (auto simp: fwd_inv_def)
  have "resolve (edge_conn_ids w) (fwd_gateway w) \<noteq> None"
    by (simp add: edges resolve_def Let_def split: option.split gateway.split)
  then obtain g dg where "resolve_default_gateway w = Some (g, w\<lparr>fwd_gateway := dg\<rparr>)"
    by (auto simp: resolve_default_gateway_def)
  moreover from this have "fwd_reachable x cat (w\<lparr>fwd_gateway := dg\<rparr>)"
    using assms fwd_step.gateway_resolved fwd_reachable.step by metis
  ultimately show thesis using that by simp
qed

definition keeps_forwarder :: "externs \<Rightarrow> (conn_id \<Rightarrow> conn_type) \<Rightarrow> ('ver, 'mac, 'io) processor \<Rightarrow> ('ver, 'mac, 'io) processor \<Rightarrow> bool" where
  "keeps_forwarder x cat p p' \<longleftrightarrow> fwd_reachable x cat (proc_forwarder p') \<and>
     fwd_connections (proc_forwarder p') = fwd_connections (proc_forwarder p)"

lemma send_msg_cong: "fwd_connections w = fwd_connections w' \<Longrightarrow> send_msg env w m c = send_msg env w' m c"
  by (simp add: send_msg_def get_connection_def)

lemma sends_only_cong: "fwd_connections w = fwd_connections w' \<Longrightarrow> sends_only env w m effs \<longleftrightarrow> sends_only env w' m effs"
  by (simp add: sends_only_def send_msg_cong [of w w'])

lemma forward_unmatched_run:
  assumes h: "get_slim_header m = Some h" and reach: "fwd_reachable x cat (proc_forwarder p)"
  obtains r effs p' where "forward_unmatched env m category e p = Some (r, effs, p')" "keeps_forwarder x cat p p'"
    "sends_only env (proc_forwarder p) m effs"
proof (cases "conn_type_is_local category \<and> is_no_match e")
  case True
  obtain g w' where g: "resolve_default_gateway (proc_forwarder p) = Some (g, w')" "fwd_reachable x cat w'"
    "fwd_connections w' = fwd_connections (proc_forwarder p)" by (rule gateway_run [OF reach])
  let ?p = "p\<lparr>proc_forwarder := w'\<rparr>"
  have keep: "keeps_forwarder x cat p ?p" using g by (simp add: keeps_forwarder_def)
  show thesis
  proof (cases "\<exists>c s. g = Gateway c s")
    case gw: True
    then obtain c s where c: "g = Gateway c s" by blast
    obtain r effs where run: "send_one env m c ?p = Some (r, effs, ?p)" "sends_only env (proc_forwarder ?p) m effs"
      by (rule send_one_run [OF h])
    have "forward_unmatched env m category e p = Some (r, effs, ?p)" using True g(1) c run(1) by (simp add: forward_unmatched_def)
    moreover have "sends_only env (proc_forwarder p) m effs" using run(2) g(3) sends_only_cong [of w' "proc_forwarder p"] by simp
    ultimately show thesis using keep that by blast
  next
    case False
    then have "forward_unmatched env m category e p = Some (Inl (MessageProcessingError e m), [], ?p)"
      using True g(1) by (cases g) (simp_all add: forward_unmatched_def)
    then show thesis using keep that by (simp add: sends_only_def)
  qed
next
  case False
  then have "forward_unmatched env m category e p = Some (Inl (MessageProcessingError e m), [], p)"
    by (auto simp: forward_unmatched_def)
  then show thesis using that reach by (simp add: sends_only_def keeps_forwarder_def)
qed

lemma match_and_forward_run:
  assumes h: "get_slim_header m = Some h" and e: "get_encoded_dst m = Some e" and reach: "fwd_reachable x cat (proc_forwarder p)"
  obtains r effs p' where "match_and_forward_msg env x m c fanout f category p = Some (r, effs, p')"
    "keeps_forwarder x cat p p'" "sends_only env (proc_forwarder p) m effs"
proof (cases "hdr_forward_to h")
  case (Some d)
  obtain r effs where "send_one env m d p = Some (r, effs, p)" "sends_only env (proc_forwarder p) m effs"
    by (rule send_one_run [OF h])
  then show thesis using that reach h Some by (simp add: match_and_forward_msg_def get_forward_to_def keeps_forwarder_def)
next
  case None
  from publish_reachable [OF reach, of e c fanout f] obtain res t' where
    look: "on_publish_msg_match x e c fanout f (proc_forwarder p) = Some (res, proc_forwarder p\<lparr>subscription_table := t'\<rparr>)"
    and reach': "fwd_reachable x cat (proc_forwarder p\<lparr>subscription_table := t'\<rparr>)" by (elim exE conjE)
  let ?p = "p\<lparr>proc_forwarder := proc_forwarder p\<lparr>subscription_table := t'\<rparr>\<rparr>"
  have unfold: "match_and_forward_msg env x m c fanout f category p =
      (case res of Inr out \<Rightarrow> forward_to_all env m out ?p | Inl err \<Rightarrow> forward_unmatched env m category err ?p)"
    using h e None look by (simp add: match_and_forward_msg_def get_forward_to_def Let_def)
  have same: "sends_only env (proc_forwarder ?p) m effs \<longleftrightarrow> sends_only env (proc_forwarder p) m effs" for effs
    by (rule sends_only_cong) simp
  show thesis
  proof (cases res)
    case (Inl err)
    have "fwd_reachable x cat (proc_forwarder ?p)" using reach' by simp
    then obtain r effs p' where "forward_unmatched env m category err ?p = Some (r, effs, p')" "keeps_forwarder x cat ?p p'"
      "sends_only env (proc_forwarder ?p) m effs" by (rule forward_unmatched_run [OF h])
    then show thesis using that unfold Inl same by (simp add: keeps_forwarder_def)
  next
    case (Inr out)
    obtain r effs where "forward_to_all env m out ?p = Some (r, effs, ?p)" "sends_only env (proc_forwarder ?p) m effs"
      by (rule forward_to_all_run [OF h])
    then show thesis using that unfold Inr same reach' by (simp add: keeps_forwarder_def)
  qed
qed

text \<open>A destination that the table can take: string components and a canonical encoding.\<close>

definition dst_ok :: "proto_message \<Rightarrow> bool" where
  "dst_ok m \<longleftrightarrow> (\<forall>n. get_dst m = Some n \<longrightarrow> str_name n \<noteq> None \<and> (\<forall>e. enc_name n = Some e \<longrightarrow> canonical e))"

lemma update_state_run:
  assumes reach: "fwd_reachable x cat w" and cats: "cats_agree cat w"
    and n: "get_dst m = Some n" "enc_name n = Some e" and ok: "dst_ok m"
  obtains r w' where "update_subscription_state x m c fwd add sid w = Some (r, w')" "fwd_reachable x cat w'"
    "fwd_connections w' = fwd_connections w"
proof (cases "get_connection w c")
  case None
  then show thesis using that n reach by (simp add: update_subscription_state_def)
next
  case (Some conn)
  have cat: "connection_type conn = cat c" using cats Some by (simp add: cats_agree_def)
  have names: "str_name n \<noteq> None" "canonical e" using ok n by (simp_all add: dst_ok_def)
  have sub_ok: "subscribe_ok n c w"
    using Some names n by (auto simp: subscribe_ok_def get_connection_def contains_iff)
  have "add_subscription n c (cat c) sid (subscription_table w) \<noteq> None"
    "remove_subscription x n c (cat c) sid (subscription_table w) \<noteq> None"
    using add_subscription_total [OF n(2) names(1)] n(2) by (simp_all add: remove_subscription_def)
  then have "on_subscription_msg x n c (cat c) add sid w \<noteq> None"
    by (cases add) (auto simp: on_subscription_msg_def)
  then obtain r w' where run: "on_subscription_msg x n c (cat c) add sid w = Some (r, w')" by auto
  from sub_ok run have "fwd_step x cat w w'" by (rule fwd_step.subscription)
  then have "fwd_reachable x cat w'" by (rule fwd_reachable.step [OF reach])
  moreover have "fwd_connections w' = fwd_connections w"
    using run by (cases add) (auto simp: on_subscription_msg_def bind_eq_Some_conv)
  ultimately show thesis using that run Some n(1) cat by (simp add: update_subscription_state_def)
qed

lemma propagate_run:
  assumes "get_slim_header m = Some h" "get_dst m = Some n"
  shows "\<exists>effs. propagate_subscription env disp m c in_conn loc add sid oc p = Some (Inr (), effs, p)"
proof -
  obtain acks where "ack_upstream env disp c sid (Inr ()) p = Some acks" using ack_upstream_total by blast
  then show ?thesis using assms by (simp add: propagate_subscription_def get_ttl_def Let_def split_beta)
qed

lemma process_subscription_run:
  assumes reach: "fwd_reachable x cat (proc_forwarder p)" and cats: "cats_agree cat (proc_forwarder p)"
    and h: "get_slim_header m = Some h" "hdr_incoming_conn h = Some incoming"
    and n: "get_dst m = Some n" "enc_name n = Some e" and ok: "dst_ok m"
  obtains r effs p' where "process_subscription env x disp m c add p = Some (r, effs, p')" "keeps_forwarder x cat p p'"
proof -
  let ?c = "case hdr_recv_from h of Some d \<Rightarrow> d | None \<Rightarrow> incoming"
  let ?i = "case get_subscription_id m of Some i \<Rightarrow> i | None \<Rightarrow> 0"
  let ?fwd = "case hdr_forward_to h of
      Some out \<Rightarrow> (case get_connection (proc_forwarder p) out of
        Some conn \<Rightarrow> if is_local_connection conn then None else Some out | None \<Rightarrow> Some out)
    | None \<Rightarrow> None"
  have same: "keeps_forwarder x cat p p" using reach by (simp add: keeps_forwarder_def)
  have acks: "\<exists>a. ack_upstream env disp c (get_subscription_id m) res q = Some a" for res q by (rule ack_upstream_total)
  note unfold = process_subscription_def Let_def h get_connections_def
  show thesis
  proof (cases "get_connection (proc_forwarder p) ?c")
    case None
    then show thesis using that same acks by (auto simp: unfold)
  next
    case (Some conn)
    show thesis
    proof (cases "(hdr_recv_from h \<noteq> None \<and> is_local_connection conn) \<or> (add \<and> ?i \<noteq> 0 \<and> has_seen_sub_id ?i (proc_peer_sync p))")
      case True
      from acks [of "Inr ()" p] obtain a where "ack_upstream env disp c (get_subscription_id m) (Inr ()) p = Some a" by blast
      then have "process_subscription env x disp m c add p = Some (Inr (), a, p)"
        using True Some by (auto simp: unfold)
      then show thesis using that same by blast
    next
      case False
      obtain r w' where up: "update_subscription_state x m ?c ?fwd add ?i (proc_forwarder p) = Some (r, w')"
        and w': "fwd_reachable x cat w'" "fwd_connections w' = fwd_connections (proc_forwarder p)"
        by (rule update_state_run [OF reach cats n ok])
      let ?p = "p\<lparr>proc_forwarder := w'\<rparr>"
      have keep: "keeps_forwarder x cat p ?p" using w' by (simp add: keeps_forwarder_def)
      have run: "process_subscription env x disp m c add p =
          (case r of
             Inl err \<Rightarrow>
               if get_subscription_id m = None then Some (Inl (MessageProcessingError err m), [], ?p)
               else map_option (\<lambda>acks. (Inr (), acks, ?p)) (ack_upstream env disp c (get_subscription_id m) (Inl err) ?p)
           | Inr oc \<Rightarrow> propagate_subscription env disp m c ?c (is_local_connection conn) add (get_subscription_id m) oc ?p)"
        using False Some up by (auto simp: unfold)
      show thesis
      proof (cases r)
        case (Inl err)
        then show thesis using that run keep acks [of "Inl err" ?p] by (cases "get_subscription_id m = None") auto
      next
        case (Inr oc)
        then show thesis using that run keep propagate_run [OF h(1) n(1)] by fastforce
      qed
    qed
  qed
qed

section \<open>One message\<close>

text \<open>The message a handler works on after validation: with the connection it came in on and one hop less.\<close>

definition received_header :: "conn_id \<Rightarrow> conn_type \<Rightarrow> slim_header \<Rightarrow> slim_header" where
  "received_header c category h =
     (let h1 = h\<lparr>hdr_incoming_conn := Some c\<rparr> in if conn_type_is_local category then h1 else decrement_ttl h1)"

lemma handle_routed:
  assumes val: "validate m = Inr ()" and h: "get_slim_header m = Some h"
  obtains m' where
    "handle_new_message env x disp c category m p =
       (if \<not> conn_type_is_local category \<and> hdr_ttl h \<le> 1 then Some (Inl TtlExpired, [], p)
        else process_message env x disp m' c category p)"
    "get_slim_header m' = Some (received_header c category h)" "is_publish_msg m' = is_publish_msg m"
    "get_subscription_id m' = get_subscription_id m"
    "\<exists>t t'. message_type m = Some t \<and> message_type m' = Some t' \<and>
       ((\<exists>a b. t = Publish a \<and> t' = Publish b) \<or> (\<exists>a b. t = Subscribe a \<and> t' = Subscribe b) \<or>
        (\<exists>a b. t = Unsubscribe a \<and> t' = Unsubscribe b))"
proof -
  have routed: "is_link m = Some False" "is_subscription_ack m = Some False"
    using routed_header [OF h] by (simp_all add: is_routed_def)
  have kind: "\<exists>t t'. message_type a = Some t \<and> message_type b = Some t' \<and>
       ((\<exists>u v. t = Publish u \<and> t' = Publish v) \<or> (\<exists>u v. t = Subscribe u \<and> t' = Subscribe v) \<or>
        (\<exists>u v. t = Unsubscribe u \<and> t' = Unsubscribe v))" if "update_slim_header f a = Some b" for f a b
    using that by (auto simp: update_slim_header_def split: option.splits message_type.splits)
  obtain m1 where m1: "update_slim_header (\<lambda>h. h\<lparr>hdr_incoming_conn := Some c\<rparr>) m = Some m1"
    "get_slim_header m1 = Some (h\<lparr>hdr_incoming_conn := Some c\<rparr>)" "is_publish_msg m1 = is_publish_msg m"
    "get_subscription_id m1 = get_subscription_id m"
    by (rule update_header_iff [OF h])
  show thesis
  proof (cases "conn_type_is_local category")
    case True
    show thesis
      by (rule that [of m1])
         (use True val routed m1 kind [OF m1(1)] in \<open>simp_all add: handle_new_message_def set_incoming_conn_def received_header_def\<close>)
  next
    case False
    obtain m2 where m2: "update_slim_header decrement_ttl m1 = Some m2"
      "get_slim_header m2 = Some (decrement_ttl (h\<lparr>hdr_incoming_conn := Some c\<rparr>))" "is_publish_msg m2 = is_publish_msg m1"
      "get_subscription_id m2 = get_subscription_id m1"
      by (rule update_header_iff [OF m1(2)])
    have dec: "msg_decrement_ttl m1 = Some (hdr_ttl h - 1, m2)"
      using m2(1,2) by (simp add: msg_decrement_ttl_def get_ttl_def decrement_ttl_def)
    have kind2: "\<exists>t t'. message_type m = Some t \<and> message_type m2 = Some t' \<and>
       ((\<exists>a b. t = Publish a \<and> t' = Publish b) \<or> (\<exists>a b. t = Subscribe a \<and> t' = Subscribe b) \<or>
        (\<exists>a b. t = Unsubscribe a \<and> t' = Unsubscribe b))"
      using kind [OF m1(1)] kind [OF m2(1)] by auto
    show thesis
      by (rule that [of m2])
         (use False val routed m1 m2 dec kind2 in
           \<open>auto simp: handle_new_message_def set_incoming_conn_def received_header_def Let_def\<close>)
  qed
qed

lemma handle_unrouted:
  assumes h: "get_slim_header m = None" and val: "validate m = Inr ()" and reach: "fwd_reachable x cat (proc_forwarder p)"
  shows "\<exists>r effs p'. handle_new_message env x disp c category m p = Some (r, effs, p') \<and> keeps_forwarder x cat p p'"
proof -
  have no_hdr: False if "is_routed m"
    using validate_routed [OF val] that h
    by (auto simp: is_routed_def routed_ok_def get_encoded_dst_def get_dst_def)
  obtain t where t: "message_type m = Some t" using val by (cases "message_type m") (simp_all add: validate_def)
  show ?thesis
    using t val reach no_hdr
    by (cases t) (auto simp: handle_new_message_def process_message_def handle_link_message_def header_defs is_routed_def
        keeps_forwarder_def Let_def split: option.splits)
qed

lemma received_connections:
  "hdr_incoming_conn (received_header c category h) = Some c"
  "hdr_destination (received_header c category h) = hdr_destination h"
  "hdr_source (received_header c category h) = hdr_source h"
  "hdr_fanout (received_header c category h) = hdr_fanout h"
  "hdr_recv_from (received_header c category h) = hdr_recv_from h"
  "hdr_forward_to (received_header c category h) = hdr_forward_to h"
  "hdr_ttl (received_header c category h) = (if conn_type_is_local category then hdr_ttl h else hdr_ttl h - 1)"
  by (simp_all add: received_header_def decrement_ttl_def Let_def)

lemma handle_routed_run:
  assumes h: "get_slim_header m = Some h" and val: "validate m = Inr ()"
    and reach: "fwd_reachable x cat (proc_forwarder p)" and cats: "cats_agree cat (proc_forwarder p)" and ok: "dst_ok m"
  shows "\<exists>r effs p'. handle_new_message env x disp c category m p = Some (r, effs, p') \<and> keeps_forwarder x cat p p'"
proof -
  obtain m' where
    run: "handle_new_message env x disp c category m p =
       (if \<not> conn_type_is_local category \<and> hdr_ttl h \<le> 1 then Some (Inl TtlExpired, [], p)
        else process_message env x disp m' c category p)"
    and h': "get_slim_header m' = Some (received_header c category h)"
    and kind: "\<exists>t t'. message_type m = Some t \<and> message_type m' = Some t' \<and>
       ((\<exists>a b. t = Publish a \<and> t' = Publish b) \<or> (\<exists>a b. t = Subscribe a \<and> t' = Subscribe b) \<or>
        (\<exists>a b. t = Unsubscribe a \<and> t' = Unsubscribe b))"
    by (rule handle_routed [OF val h])
  have "routed_ok m" using validate_routed [OF val] routed_header [OF h] by (simp add: is_routed_def)
  then obtain n e where n: "hdr_destination h = Some n" "enc_name n = Some e"
    using h by (auto simp: routed_ok_def get_encoded_dst_def get_dst_def bind_eq_Some_conv)
  have n': "get_dst m' = Some n" "get_encoded_dst m' = Some e" "dst_ok m'"
    using ok n h h' by (simp_all add: get_dst_def get_encoded_dst_def dst_ok_def received_connections)
  have sub: "\<exists>r effs p'. process_subscription env x disp m' c add p = Some (r, effs, p') \<and> keeps_forwarder x cat p p'" for add
    by (rule process_subscription_run [OF reach cats h' received_connections(1) n'(1) n(2) n'(3)]) blast
  have pub: "\<exists>r effs p'. process_publish env x m' c f category p = Some (r, effs, p') \<and> keeps_forwarder x cat p p'" for f
    by (rule match_and_forward_run [OF h' n'(2) reach]) (auto simp: process_publish_def get_fanout_def h')
  have same: "keeps_forwarder x cat p p" using reach by (simp add: keeps_forwarder_def)
  show ?thesis using kind run sub pub same by (auto simp: process_message_def)
qed

section \<open>What happens to a published message\<close>

lemma handle_publish_sends:
  assumes h: "get_slim_header m = Some h" and pub: "is_publish_msg m"
    and reach: "fwd_reachable x cat (proc_forwarder p)"
    and run: "handle_new_message env x disp c category m p = Some (r, effs, p')"
  shows "(effs = [] \<or> (conn_type_is_local category \<or> 1 < hdr_ttl h)) \<and>
    (\<exists>m'. get_slim_header m' = Some (received_header c category h) \<and> is_publish_msg m' \<and>
      sends_only env (proc_forwarder p) m' effs)"
proof (cases "validate m")
  case (Inl err)
  then have effs: "effs = []" using run by (simp add: handle_new_message_def)
  obtain m' where "get_slim_header m' = Some (received_header c category h)" "is_publish_msg m'"
    using update_header_iff [OF h, of "\<lambda>_. received_header c category h"] pub by metis
  then show ?thesis using effs by (auto simp: sends_only_def)
next
  case (Inr u)
  then have val: "validate m = Inr ()" by simp
  obtain m' where
    eq: "handle_new_message env x disp c category m p =
       (if \<not> conn_type_is_local category \<and> hdr_ttl h \<le> 1 then Some (Inl TtlExpired, [], p)
        else process_message env x disp m' c category p)"
    and h': "get_slim_header m' = Some (received_header c category h)" and pub': "is_publish_msg m' = is_publish_msg m"
    by (rule handle_routed [OF val h])
  show ?thesis
  proof (cases "\<not> conn_type_is_local category \<and> hdr_ttl h \<le> 1")
    case True
    then have "effs = []" using run eq by simp
    then show ?thesis using h' pub' pub by (auto simp: sends_only_def)
  next
    case False
    have "routed_ok m" using validate_routed [OF val] routed_header [OF h] by (simp add: is_routed_def)
    then obtain e where e: "get_encoded_dst m' = Some e"
      using h h' by (auto simp: routed_ok_def get_encoded_dst_def get_dst_def received_connections bind_eq_Some_conv)
    obtain r1 effs1 p1 where "match_and_forward_msg env x m' c (hdr_fanout h) (publish_filter category p) category p = Some (r1, effs1, p1)"
      and "sends_only env (proc_forwarder p) m' effs1"
      by (rule match_and_forward_run [OF h' e reach])
    moreover have "process_message env x disp m' c category p =
        match_and_forward_msg env x m' c (hdr_fanout h) (publish_filter category p) category p"
      using pub' pub h'
      by (auto simp: process_message_def is_publish_msg_def process_publish_def get_fanout_def received_connections
          split: option.splits message_type.splits)
    ultimately have "sends_only env (proc_forwarder p) m' effs" using run eq False by (simp split: if_splits)
    then show ?thesis using h' pub' pub False by auto
  qed
qed

text \<open>
  A message on its way between nodes: at each hop it arrives on a connection from another node, and
  the node (its links and its state are a member of \<open>nodes\<close>) hands a copy to some connection.
\<close>

inductive relayed ::
  "(('mac, 'io) link_env \<times> ('ver, 'mac, 'io) processor) set \<Rightarrow> externs \<Rightarrow> proto_message \<Rightarrow> nat \<Rightarrow> proto_message \<Rightarrow> bool"
  for nodes x m0 where
  start: "relayed nodes x m0 0 m0"
| hop: "relayed nodes x m0 k m \<Longrightarrow> (env, p) \<in> nodes \<Longrightarrow> \<not> conn_type_is_local category \<Longrightarrow>
    handle_new_message env x disp c category m p = Some (r, effs, p') \<Longrightarrow> Delivered d m' \<in> set effs \<Longrightarrow>
    relayed nodes x m0 (Suc k) m'"

definition node_ok :: "externs \<Rightarrow> ('mac, 'io) link_env \<times> ('ver, 'mac, 'io) processor \<Rightarrow> bool" where
  "node_ok x node \<longleftrightarrow> signing_ok (fst node) \<and> (\<exists>cat. fwd_reachable x cat (proc_forwarder (snd node)))"

lemma relayed_ttl:
  assumes nodes: "\<And>node. node \<in> nodes \<Longrightarrow> node_ok x node"
    and run: "relayed nodes x m0 k m" and pub: "is_publish_msg m0" and h0: "get_slim_header m0 = Some h0"
  shows "is_publish_msg m \<and> (\<exists>h. get_slim_header m = Some h \<and> hdr_ttl h = hdr_ttl h0 - k) \<and> (k = 0 \<or> k < hdr_ttl h0)"
  using run
proof (induction rule: relayed.induct)
  case start
  show ?case using pub h0 by simp
next
  case (hop k m env p category disp c r effs p' d m')
  from hop.IH obtain h where h: "get_slim_header m = Some h" "hdr_ttl h = hdr_ttl h0 - k" and pm: "is_publish_msg m" by blast
  obtain cat where reach: "fwd_reachable x cat (proc_forwarder p)" and sign: "signing_ok env"
    using nodes [OF hop.hyps(2)] by (auto simp: node_ok_def)
  from handle_publish_sends [OF h(1) pm reach hop.hyps(4)] hop.hyps(3,5) obtain m1 where
    ttl: "1 < hdr_ttl h" and m1: "get_slim_header m1 = Some (received_header c category h)" "is_publish_msg m1"
    "sends_only env (proc_forwarder p) m1 effs" by auto
  from m1(3) hop.hyps(5) have sent: "send_msg env (proc_forwarder p) m1 d = Some (Inr m')"
    by (auto simp: sends_only_def)
  from send_msg_arrives [OF sign m1(1) sent] m1(2) obtain tag where
    "get_slim_header m' = Some ((clear_flags (received_header c category h))\<lparr>hdr_mac := tag\<rparr>)" "is_publish_msg m'"
    by (auto simp: arrives_as_def)
  then show ?case using h(2) ttl hop.hyps(3) by (simp add: clear_flags_def received_connections)
qed

section \<open>Links that carry every message\<close>

text \<open>Open channels, and no header MAC on the links between nodes.\<close>

definition links_ready :: "('mac, 'io) link_env \<Rightarrow> ('ver, 'mac, 'io) conn_forwarder \<Rightarrow> bool" where
  "links_ready env w \<longleftrightarrow> (\<forall>d conn. get_connection w d = Some conn \<longrightarrow> link_open env (conn_io conn) \<and>
     (is_inter_node (connection_type conn) \<longrightarrow> header_hmac conn = None \<and> \<not> require_header_mac conn))"

definition delivered_conns :: "effect list \<Rightarrow> conn_id list" where
  "delivered_conns effs = List.map_filter (\<lambda>ef. case ef of Delivered d _ \<Rightarrow> Some d | _ \<Rightarrow> None) effs"

lemma delivered_conns_simps [simp]:
  "delivered_conns [] = []" "delivered_conns (Delivered d m # effs) = d # delivered_conns effs"
  by (simp_all add: delivered_conns_def List.map_filter_def)

lemma delivered_conns_mem: "d \<in> set (delivered_conns effs) \<longleftrightarrow> (\<exists>m. Delivered d m \<in> set effs)"
proof (induction effs)
  case (Cons ef effs)
  then show ?case by (cases ef) (auto simp: delivered_conns_def List.map_filter_def)
qed simp

lemma send_ready:
  assumes ready: "links_ready env w" and h: "get_slim_header m = Some h" and conn: "get_connection w d \<noteq> None"
  shows "\<exists>m'. send_msg env w m d = Some (Inr m')"
proof -
  from conn obtain cn where cn: "get_connection w d = Some cn" by blast
  have link: "link_open env (conn_io cn)"
    "is_inter_node (connection_type cn) \<Longrightarrow> header_hmac cn = None \<and> \<not> require_header_mac cn"
    using ready cn by (simp_all add: links_ready_def)
  have routed: "is_link m = Some False" "is_subscription_ack m = Some False"
    using routed_header [OF h] by (simp_all add: is_routed_def)
  obtain m1 where m1: "clear_slim_header m = Some m1" "get_slim_header m1 = Some (clear_flags h)"
    by (rule clear_header [OF h])
  obtain m3 where m3: "update_slim_header (\<lambda>h. h\<lparr>hdr_mac := None\<rparr>) m1 = Some m3" by (rule update_header_iff [OF m1(2)])
  have signed: "is_inter_node (connection_type cn) = b \<Longrightarrow> sign_msg env cn d b m1 = Some (Inr m1)" for b
    using link(2) by (cases b) (simp_all add: sign_msg_def split: option.split)
  show ?thesis
    using link m3 by (cases "is_inter_node (connection_type cn)") (auto simp: send_msg_def cn routed m1(1) signed Let_def)
qed

lemma fan_out_ready:
  assumes ready: "links_ready env w" and h: "get_slim_header m = Some h" and conns: "\<forall>d\<in>set cs. get_connection w d \<noteq> None"
  shows "\<exists>effs. fan_out env w m cs k e = Some (k, e, effs) \<and> delivered_conns effs = cs"
  using conns
proof (induction cs)
  case (Cons d cs)
  then obtain effs where "fan_out env w m cs k e = Some (k, e, effs)" "delivered_conns effs = cs" by auto
  moreover obtain m' where "send_msg env w m d = Some (Inr m')" using send_ready [OF ready h] Cons.prems by auto
  ultimately show ?case by simp
qed simp

lemma forward_to_all_ready:
  assumes ready: "links_ready env (proc_forwarder p)" and h: "get_slim_header m = Some h"
    and conns: "\<forall>d\<in>set out. get_connection (proc_forwarder p) d \<noteq> None"
  shows "\<exists>effs. forward_to_all env m out p = Some (Inr (), effs, p) \<and> delivered_conns effs = out"
proof (cases "\<exists>c. out = [c]")
  case True
  then obtain c where c: "out = [c]" by blast
  then obtain m' where "send_msg env (proc_forwarder p) m c = Some (Inr m')" using send_ready [OF ready h] conns by auto
  then show ?thesis by (simp add: forward_to_all_def send_one_def c)
next
  case False
  obtain effs where "fan_out env (proc_forwarder p) m out 0 None = Some (0, None, effs)" "delivered_conns effs = out"
    using fan_out_ready [OF ready h conns] by blast
  then show ?thesis using False by (auto simp: forward_to_all_def split: list.splits)
qed

text \<open>Every subscriber of a reachable state has a live connection.\<close>

lemma subscribers_live:
  assumes "fwd_reachable x cat w" "d \<in> subscribers cat (table_keys (subscription_table w)) e incoming f"
  shows "get_connection w d \<noteq> None"
proof -
  have "key_conn ` table_keys (subscription_table w) \<subseteq> dom (connection_table_get (fwd_connections w))"
    using fwd_reachable_inv [OF assms(1)] by (simp add: fwd_inv_def)
  then show ?thesis using assms(2) by (auto simp: subscribers_def get_connection_def)
qed

lemma match_and_forward_ready:
  assumes h: "get_slim_header m = Some h" "hdr_forward_to h = None" and e: "get_encoded_dst m = Some e"
    and reach: "fwd_reachable x cat (proc_forwarder p)" and ready: "links_ready env (proc_forwarder p)"
    and local: "\<not> conn_type_is_local category \<or> S \<noteq> {}"
    and S: "S = subscribers cat (table_keys (subscription_table (proc_forwarder p))) e c f"
  shows "\<exists>r effs p'. match_and_forward_msg env x m c fanout f category p = Some (r, effs, p') \<and>
    (if S = {} then r = Inl (MessageProcessingError (no_match x e) m) \<and> effs = []
     else r = Inr () \<and> distinct (delivered_conns effs) \<and>
       (if fanout = 1 then \<exists>d\<in>S. delivered_conns effs = [d] else set (delivered_conns effs) = S))"
proof -
  from publish_reachable [OF reach, of e c fanout f, folded S, unfolded Let_def] obtain res t' where
    look: "on_publish_msg_match x e c fanout f (proc_forwarder p) = Some (res, proc_forwarder p\<lparr>subscription_table := t'\<rparr>)"
    and res: "case res of Inl err \<Rightarrow> err = no_match x e \<and> S = {}
      | Inr out \<Rightarrow> distinct out \<and> (if fanout = 1 then \<exists>c\<in>S. out = [c] else S \<noteq> {} \<and> set out = S)"
    by (elim exE conjE)
  let ?p = "p\<lparr>proc_forwarder := proc_forwarder p\<lparr>subscription_table := t'\<rparr>\<rparr>"
  have unfold: "match_and_forward_msg env x m c fanout f category p =
      (case res of Inr out \<Rightarrow> forward_to_all env m out ?p | Inl err \<Rightarrow> forward_unmatched env m category err ?p)"
    using h e look by (simp add: match_and_forward_msg_def get_forward_to_def Let_def)
  have conn: "get_connection (proc_forwarder ?p) d = get_connection (proc_forwarder p) d" for d
    by (simp add: get_connection_def)
  show ?thesis
  proof (cases res)
    case (Inl err)
    then show ?thesis using unfold res local by (auto simp: forward_unmatched_def)
  next
    case (Inr out)
    have sub: "set out \<subseteq> S" using res Inr by (auto split: if_splits)
    have ready': "links_ready env (proc_forwarder ?p)" using ready by (simp add: links_ready_def get_connection_def)
    have "\<forall>d\<in>set out. get_connection (proc_forwarder ?p) d \<noteq> None"
      unfolding conn using subscribers_live [OF reach] sub unfolding S by auto
    from forward_to_all_ready [OF ready' h(1) this] obtain effs where
      "forward_to_all env m out ?p = Some (Inr (), effs, ?p)" "delivered_conns effs = out" by blast
    then show ?thesis using unfold res Inr by (auto split: if_splits)
  qed
qed

text \<open>A published message that is validated and not expired goes straight to \<open>match_and_forward_msg\<close>.\<close>

lemma handle_publish_forwards:
  assumes h: "get_slim_header m = Some h" and pub: "is_publish_msg m" and val: "validate m = Inr ()"
    and ttl: "conn_type_is_local category \<or> 1 < hdr_ttl h"
  obtains m' where "get_slim_header m' = Some (received_header c category h)" "get_encoded_dst m' = get_encoded_dst m"
    "handle_new_message env x disp c category m p =
       match_and_forward_msg env x m' c (hdr_fanout h) (publish_filter category p) category p"
proof -
  obtain m' where
    eq: "handle_new_message env x disp c category m p =
       (if \<not> conn_type_is_local category \<and> hdr_ttl h \<le> 1 then Some (Inl TtlExpired, [], p)
        else process_message env x disp m' c category p)"
    and h': "get_slim_header m' = Some (received_header c category h)" and pub': "is_publish_msg m' = is_publish_msg m"
    by (rule handle_routed [OF val h])
  have "process_message env x disp m' c category p =
      match_and_forward_msg env x m' c (hdr_fanout h) (publish_filter category p) category p"
    using pub' pub h'
    by (auto simp: process_message_def is_publish_msg_def process_publish_def get_fanout_def received_connections
        split: option.splits message_type.splits)
  moreover have "get_encoded_dst m' = get_encoded_dst m"
    using h h' by (simp add: get_encoded_dst_def get_dst_def received_connections)
  ultimately show thesis using that h' eq ttl by auto
qed

section \<open>Handlers that hand nothing to other nodes\<close>

lemma ack_upstream_effects:
  assumes "ack_upstream env disp c sid result p = Some acks" "ef \<in> set acks"
  shows "\<exists>m'. ef = Delivered c m' \<and> is_subscription_ack m' = Some True"
proof (cases sid)
  case None
  then show ?thesis using assms by (simp add: ack_upstream_def)
next
  case (Some i)
  define ack where "ack = (case result of
      Inr _ \<Rightarrow> build_subscription_ack i True '''' | Inl e \<Rightarrow> build_subscription_ack i False (disp e))"
  obtain ok err where ack: "ack = build_subscription_ack i ok err" by (cases result) (auto simp: ack_def)
  obtain r where r: "send_msg env (proc_forwarder p) ack c = Some r" using send_ack_total unfolding ack by blast
  have acks: "acks = (case r of Inr m \<Rightarrow> [Delivered c m] | Inl _ \<Rightarrow> [])"
    using assms(1) r by (simp add: Some ack_upstream_def send_subscription_ack_def Let_def ack_def [symmetric])
  have "is_subscription_ack m' = Some True" if "r = Inr m'" for m'
    using r that unfolding ack
    by (cases "get_connection (proc_forwarder p) c")
       (auto simp: send_msg_def build_subscription_ack_def header_defs sign_msg_def Let_def split: option.splits if_splits)
  then show ?thesis using acks assms(2) by (cases r) auto
qed

lemma propagate_local_only:
  assumes "get_slim_header m = Some h" "outcome_is_peer_conn oc" "hdr_ttl h < 2" "outcome_forward_conn oc = None"
    and run: "propagate_subscription env disp m c in_conn loc add sid oc p = Some (r, effs, p')"
  shows "Spawned tk \<notin> set effs"
proof -
  have "\<not> has_any \<lparr>target_peers = fst (peer_forwarding oc in_conn (hdr_ttl h) (proc_peer_sync p)),
      target_forward_conn = outcome_forward_conn oc\<rparr>"
    using assms(2-4) by (simp add: peer_forwarding_def has_any_def)
  then obtain acks where "ack_upstream env disp c sid (Inr ()) p = Some acks" "effs = acks"
    using run assms(1,2) by (auto simp: propagate_subscription_def get_ttl_def Let_def split_beta)
  then show ?thesis using ack_upstream_effects by fastforce
qed

lemma process_subscription_local_only:
  assumes h: "get_slim_header m = Some h" "hdr_incoming_conn h = Some c" "hdr_recv_from h = None" "hdr_forward_to h = None" "hdr_ttl h < 2"
    and conn: "get_connection (proc_forwarder p) c = Some conn" "is_peer_connection conn"
    and run: "process_subscription env x disp m c add p = Some (r, effs, p')"
  shows "Spawned tk \<notin> set effs"
proof -
  let ?i = "case get_subscription_id m of Some i \<Rightarrow> i | None \<Rightarrow> 0"
  note unfold = process_subscription_def Let_def h get_connections_def conn(1)
  show ?thesis
  proof (cases "add \<and> ?i \<noteq> 0 \<and> has_seen_sub_id ?i (proc_peer_sync p)")
    case True
    then show ?thesis using run by (auto simp: unfold dest: ack_upstream_effects)
  next
    case False
    then obtain res w' where up: "update_subscription_state x m c None add ?i (proc_forwarder p) = Some (res, w')"
      using run by (cases "update_subscription_state x m c None add ?i (proc_forwarder p)") (auto simp: unfold)
    show ?thesis
    proof (cases res)
      case (Inl e)
      then show ?thesis using run up False by (auto simp: unfold split: if_splits dest: ack_upstream_effects)
    next
      case (Inr oc)
      have "outcome_is_peer_conn oc \<and> outcome_forward_conn oc = None"
      proof -
        obtain r0 :: "datapath_error + bool" where "map_sum id (\<lambda>b. \<lparr>outcome_transition = b,
            outcome_is_peer_conn = is_peer_connection conn, outcome_forward_conn = None\<rparr>) r0 = Inr oc"
          using up Inr conn(1) by (auto simp: update_subscription_state_def bind_eq_Some_conv)
        then show ?thesis using conn(2) by (cases r0) auto
      qed
      moreover have "propagate_subscription env disp m c c (is_local_connection conn) add (get_subscription_id m) oc
          (p\<lparr>proc_forwarder := w'\<rparr>) = Some (r, effs, p')"
        using run up False Inr by (auto simp: unfold)
      ultimately show ?thesis using propagate_local_only [OF h(1) _ h(5)] by blast
    qed
  qed
qed

lemma handle_subscription:
  assumes val: "validate m = Inr ()" and h: "get_slim_header m = Some h" and sub: "is_subscribe_or_unsubscribe m"
    and ttl: "conn_type_is_local category \<or> 1 < hdr_ttl h"
  obtains m' where "get_slim_header m' = Some (received_header c category h)" "get_subscription_id m' = get_subscription_id m"
    "handle_new_message env x disp c category m p =
       process_subscription env x disp m' c (case message_type m of Some (Subscribe _) \<Rightarrow> True | _ \<Rightarrow> False) p"
proof -
  obtain m' where
    eq: "handle_new_message env x disp c category m p =
       (if \<not> conn_type_is_local category \<and> hdr_ttl h \<le> 1 then Some (Inl TtlExpired, [], p)
        else process_message env x disp m' c category p)"
    and h': "get_slim_header m' = Some (received_header c category h)" "get_subscription_id m' = get_subscription_id m"
    and kind: "\<exists>t t'. message_type m = Some t \<and> message_type m' = Some t' \<and>
       ((\<exists>a b. t = Publish a \<and> t' = Publish b) \<or> (\<exists>a b. t = Subscribe a \<and> t' = Subscribe b) \<or>
        (\<exists>a b. t = Unsubscribe a \<and> t' = Unsubscribe b))"
    by (rule handle_routed [OF val h]) (blast intro: that)
  have "process_message env x disp m' c category p =
      process_subscription env x disp m' c (case message_type m of Some (Subscribe _) \<Rightarrow> True | _ \<Rightarrow> False) p"
    using kind sub by (auto simp: process_message_def is_subscribe_or_unsubscribe_def)
  then show thesis using that h' eq ttl by auto
qed

section \<open>Closing connections and the peer table\<close>

lemma forward_to_peers_links:
  assumes "forward_to_peers x send n i add tgts ttl s = (r, out, s')"
  shows "sync_peer_state s' = sync_peer_state s" "sync_peer_conns s' = sync_peer_conns s"
proof -
  have reg: "sync_peer_state (snd (register_ack a k q)) = sync_peer_state q"
    "sync_peer_conns (snd (register_ack a k q)) = sync_peer_conns q" for a k q
    by (simp_all add: register_ack_def Let_def)
  have "sync_peer_state s' = sync_peer_state s \<and> sync_peer_conns s' = sync_peer_conns s"
    using assms reg [of i]
    by (auto simp: forward_to_peers_def register_forwarded_sub_def remove_forwarded_sub_def Let_def split_beta
        split: option.splits if_splits sum.splits)
  then show "sync_peer_state s' = sync_peer_state s" "sync_peer_conns s' = sync_peer_conns s" by simp_all
qed

lemma notify_links:
  assumes "notify_peers_unsubscribe x send n s = (out, s')"
  shows "sync_peer_state s' = sync_peer_state s" "sync_peer_conns s' = sync_peer_conns s"
proof -
  have "sync_peer_state s' = sync_peer_state s \<and> sync_peer_conns s' = sync_peer_conns s"
  proof (cases "hget (forwarded_sub_for_name s) n")
    case (Some i)
    obtain r out1 s1 where run: "forward_to_peers x send n i False \<lparr>target_peers = Some All_Peers, target_forward_conn = None\<rparr>
        (sync_subscription_ttl s) s = (r, out1, s1)" by (rule prod_cases3)
    then show ?thesis using assms Some forward_to_peers_links [OF run] by (simp add: notify_peers_unsubscribe_def)
  qed (use assms in \<open>simp add: notify_peers_unsubscribe_def\<close>)
  then show "sync_peer_state s' = sync_peer_state s" "sync_peer_conns s' = sync_peer_conns s" by simp_all
qed

lemma withdraw_links:
  assumes "withdraw_unreachable env x ns p = Some (effs, p')"
  shows "sync_peer_state (proc_peer_sync p') = sync_peer_state (proc_peer_sync p) \<and>
    sync_peer_conns (proc_peer_sync p') = sync_peer_conns (proc_peer_sync p) \<and>
    service_id p' = service_id p \<and> deployment_name p' = deployment_name p"
  using assms
proof (induction ns arbitrary: p effs)
  case (Cons n ns)
  let ?q = "case enc_name n of
          None \<Rightarrow> Some (False, proc_forwarder p)
        | Some e \<Rightarrow>
            map_option (\<lambda>(r, w). (case r of Inr _ \<Rightarrow> True | Inl _ \<Rightarrow> False, w))
              (on_publish_msg_match x e u64_MAX u32_MAX match_filter_ALL (proc_forwarder p))"
  obtain b w where q: "?q = Some (b, w)" using Cons.prems by (cases ?q) auto
  show ?case
  proof (cases b)
    case True
    then have "withdraw_unreachable env x ns (p\<lparr>proc_forwarder := w\<rparr>) = Some (effs, p')"
      using Cons.prems q by simp
    then show ?thesis using Cons.IH by fastforce
  next
    case False
    obtain out s where nt: "notify_peers_unsubscribe x (send_fn env w) n (proc_peer_sync p) = (out, s)" by fastforce
    obtain effs1 where "withdraw_unreachable env x ns (p\<lparr>proc_forwarder := w, proc_peer_sync := s\<rparr>) = Some (effs1, p')"
      using Cons.prems q False nt by (auto simp: Let_def)
    from Cons.IH [OF this] show ?thesis using notify_links [OF nt] by simp
  qed
qed simp

end
