(* ===== verification/Processing_Properties.thy ===== *)
theory Processing_Properties
  imports Processing_Run Sync_Properties
begin

text \<open>
  The correctness properties of message processing, which join the forwarder, the message formats
  and the synchronisation, each followed by a run of the model on a concrete input. The example
  node below has the connections of \<open>demo_forwarder\<close>: 0 is a local application, 1 a peer, both
  subscribed to the same name.
\<close>

section \<open>An example node\<close>

definition demo_env :: "(unit, unit) link_env" where
  "demo_env =
     \<lparr>link_is_server = (\<lambda>_. True), link_config_id = (\<lambda>_. None), link_open = (\<lambda>_. True),
      sign_slim_header = (\<lambda>_ _ h. Inr h), verify_slim_header = (\<lambda>_ _ _. Inr ())\<rparr>"

definition demo_node :: "(unit, unit, unit) processor" where
  "demo_node =
     \<lparr>proc_forwarder = demo_forwarder, proc_peer_sync = demo_peer_a, proc_remote_sync = [], tx_control_plane = False,
      drain_watch = True, service_id = ''node-m'', deployment_name = '''', relay_peer_publishes = False\<rparr>"

definition demo_pub :: "nat \<Rightarrow> proto_message" where
  "demo_pub ttl =
     \<lparr>metadata = [], message_type = Some (Publish
        \<lparr>pub_header = Some (slim_header_new demo_externs demo_name demo_name '''' (Some (default_flags\<lparr>fl_fanout := 5, fl_ttl := ttl\<rparr>))),
         pub_session = Some \<lparr>sh_session_type = Multicast, sh_message_type = Msg, sh_session_id = 1, sh_message_id = 3\<rparr>,
         pub_msg = None\<rparr>)\<rparr>"

lemma demo_signing: "signing_ok demo_env"
proof -
  have "\<exists>tag. h = h\<lparr>hdr_mac := tag\<rparr>" for h :: slim_header by (rule exI [of _ "hdr_mac h"]) simp
  then show ?thesis by (simp add: signing_ok_def demo_env_def)
qed

lemma demo_pub_header: "get_slim_header (demo_pub ttl) =
    Some (slim_header_new demo_externs demo_name demo_name '''' (Some (default_flags\<lparr>fl_fanout := 5, fl_ttl := ttl\<rparr>)))"
  by (simp add: demo_pub_def get_slim_header_def)

lemma demo_pub_valid: "validate (demo_pub ttl) = Inr ()"
  by (simp add: demo_pub_def validate_def validate_publish_def validate_routed_header_def slim_header_new_def
      demo_name_enc(1) Let_def)

lemma demo_conns:
  assumes "get_connection demo_forwarder c = Some conn"
  shows "(c = 0 \<and> conn = connection_new Local ()) \<or> (c = 1 \<and> conn = connection_new Peer ())"
proof -
  have conns: "get_connection demo_forwarder 0 = Some (connection_new Local ())"
    "get_connection demo_forwarder 1 = Some (connection_new Peer ())" by code_simp+
  have "pool_inv (ct_pool (fwd_connections demo_forwarder))"
    using fwd_reachable_inv [OF demo_reachable] by (simp add: fwd_inv_def connection_table_inv_def)
  moreover have "pool_ids (ct_pool (fwd_connections demo_forwarder)) = [0, 1]" by code_simp
  ultimately have "dom (connection_table_get (fwd_connections demo_forwarder)) = {0, 1}"
    using pool_ids_correct [of "ct_pool (fwd_connections demo_forwarder)"]
    by (simp add: connection_table_get_def [abs_def])
  then have "c = 0 \<or> c = 1" using assms unfolding get_connection_def by blast
  then show ?thesis using conns assms by auto
qed

lemma demo_cats: "cats_agree demo_cat demo_forwarder"
  using demo_conns by (fastforce simp: cats_agree_def demo_cat_def connection_new_def)

section \<open>Handling a message\<close>

text \<open>
  C16. The handler of an incoming message never panics: from any state whose forwarder is reachable,
  a message that passes validation, of any type and on a connection of any kind, is handled to the end,
  provided its destination has string components and a canonical encoding. The forwarder is in a
  reachable state again and no connection appears or disappears.
\<close>

theorem message_handled:
  assumes reach: "fwd_reachable x cat (proc_forwarder p)" and cats: "cats_agree cat (proc_forwarder p)"
    and val: "validate m = Inr ()" and ok: "dst_ok m"
  shows "\<exists>r effs p'. handle_new_message env x disp c category m p = Some (r, effs, p') \<and>
    fwd_reachable x cat (proc_forwarder p') \<and> fwd_connections (proc_forwarder p') = fwd_connections (proc_forwarder p)"
proof -
  have "\<exists>r effs p'. handle_new_message env x disp c category m p = Some (r, effs, p') \<and> keeps_forwarder x cat p p'"
  proof (cases "get_slim_header m")
    case None
    then show ?thesis using val reach by (rule handle_unrouted)
  next
    case (Some h)
    with val reach cats ok show ?thesis by (intro handle_routed_run)
  qed
  then show ?thesis by (simp add: keeps_forwarder_def)
qed

theorem message_handled_witness:
  "\<exists>r effs p'. handle_new_message demo_env demo_externs demo_text 1 Peer (demo_pub 4) demo_node = Some (r, effs, p') \<and>
    fwd_connections (proc_forwarder p') = fwd_connections demo_forwarder"
proof -
  have "dst_ok (demo_pub 4)"
    using demo_name_enc by (simp add: dst_ok_def get_dst_def demo_pub_header slim_header_new_def)
  from message_handled [of demo_externs demo_cat demo_node, OF _ _ demo_pub_valid this,
      of demo_env demo_text 1 Peer] demo_reachable demo_cats
  obtain r effs p' where "handle_new_message demo_env demo_externs demo_text 1 Peer (demo_pub 4) demo_node = Some (r, effs, p')"
    "fwd_connections (proc_forwarder p') = fwd_connections (proc_forwarder demo_node)"
    by (auto simp: demo_node_def)
  then show ?thesis by (intro exI conjI) (simp_all add: demo_node_def)
qed

text \<open>
  C15. A published message cannot travel for ever: whatever nodes it passes and however they are
  connected, after \<open>k\<close> hops between nodes its TTL has dropped by \<open>k\<close>, and no node hands it on once
  \<open>k\<close> reaches the TTL it started with.
\<close>

theorem publish_hops_bounded:
  assumes "\<And>node. node \<in> nodes \<Longrightarrow> node_ok x node" "is_publish_msg m0" "get_ttl m0 = Some t" "relayed nodes x m0 k m"
  shows "get_ttl m = Some (t - k) \<and> (k = 0 \<or> k < t)"
proof -
  from assms(3) obtain h0 where "get_slim_header m0 = Some h0" "hdr_ttl h0 = t" by (auto simp: get_ttl_def)
  with relayed_ttl [OF assms(1,4,2)] show ?thesis by (auto simp: get_ttl_def)
qed

lemma demo_relay:
  "\<exists>r effs p' m'. handle_new_message demo_env demo_externs demo_text 1 Peer (demo_pub 4) demo_node = Some (r, effs, p') \<and>
    Delivered 0 m' \<in> set effs"
proof -
  let ?r = "handle_new_message demo_env demo_externs demo_text 1 Peer (demo_pub 4) demo_node"
  have "?r \<noteq> None" "delivered_conns (fst (snd (the ?r))) = [0]" by code_simp+
  then obtain r effs p' where run: "?r = Some (r, effs, p')" "delivered_conns effs = [0]" by auto
  then show ?thesis using delivered_conns_mem [of 0 effs] by auto
qed

theorem publish_hops_bounded_witness:
  "\<exists>m'. relayed {(demo_env, demo_node)} demo_externs (demo_pub 4) 1 m' \<and> get_ttl m' = Some 3"
proof -
  have "node_ok demo_externs (demo_env, demo_node)"
    using demo_signing demo_reachable by (auto simp: node_ok_def demo_node_def)
  then have ok: "\<And>node. node \<in> {(demo_env, demo_node)} \<Longrightarrow> node_ok demo_externs node" by simp
  have pub: "is_publish_msg (demo_pub 4)" "get_ttl (demo_pub 4) = Some 4"
    by (simp_all add: is_publish_msg_def demo_pub_def get_ttl_def get_slim_header_def slim_header_new_def)
  obtain r effs p' m' where "handle_new_message demo_env demo_externs demo_text 1 Peer (demo_pub 4) demo_node = Some (r, effs, p')"
    "Delivered 0 m' \<in> set effs" using demo_relay by blast
  then have one: "relayed {(demo_env, demo_node)} demo_externs (demo_pub 4) (Suc 0) m'"
    by (intro relayed.hop [OF relayed.start]) (auto simp: conn_type_is_local_def)
  from publish_hops_bounded [OF ok pub this] one show ?thesis by auto
qed



section \<open>Links between nodes\<close>

text \<open>
  C29. On a link between nodes that requires header MACs nothing leaves unsigned: a routed message
  that reaches the channel carries the header the MAC session of the link signed for its link id.
\<close>

theorem strict_link_signs:
  assumes conn: "get_connection w c = Some conn" "is_inter_node (connection_type conn)" "require_header_mac conn"
    and h: "get_slim_header m = Some h" and run: "send_msg env w m c = Some (Inr m')"
  shows "\<exists>mac l h'. header_hmac conn = Some mac \<and> link_id_for env conn = Some l \<and>
    sign_slim_header env mac l (clear_flags h) = Inr h' \<and> get_slim_header m' = Some h'"
proof -
  obtain conn' m1 m2 where c': "get_connection w c = Some conn'"
    "\<not> (is_inter_node (connection_type conn') \<and> require_header_mac conn' \<and> header_hmac conn' = None)"
    and m1: "get_slim_header m1 = Some (clear_flags h)" "is_publish_msg m1 = is_publish_msg m"
    and m2: "sign_msg env conn' c (is_inter_node (connection_type conn')) m1 = Some (Inr m2)"
    and m3: "(if link_is_server env (conn_io conn') \<and> connection_type conn' = Local
      then update_slim_header (\<lambda>h. h\<lparr>hdr_mac := None\<rparr>) m2 else Some m2) = Some m'"
    by (rule send_msg_stages [OF h run])
  have eq: "conn' = conn" using c'(1) conn(1) by simp
  obtain mac where mac: "header_hmac conn = Some mac" using c'(2) conn(2,3) eq by auto
  have m': "m' = m2" using m3 conn(2) eq by (auto simp: is_inter_node_def split: if_splits)
  obtain l where l: "link_id_for env conn = Some l"
    using m2 mac conn(2) eq by (cases "link_id_for env conn") (simp_all add: sign_msg_def)
  obtain h' where h': "sign_slim_header env mac l (clear_flags h) = Inr h'"
    using m2 mac l conn(2) eq m1(1) by (cases "sign_slim_header env mac l (clear_flags h)") (simp_all add: sign_msg_def)
  obtain m4 where "update_slim_header (\<lambda>_. h') m1 = Some m4" "get_slim_header m4 = Some h'"
    using update_header_iff [OF m1(1), of "\<lambda>_. h'"] by metis
  then have "get_slim_header m' = Some h'" using m2 mac l conn(2) eq m1(1) h' m' by (simp add: sign_msg_def)
  then show ?thesis using mac l h' by blast
qed

definition demo_signed_conn :: "(unit, unit, unit) connection" where
  "demo_signed_conn = (connection_new Remote ())\<lparr>header_hmac := Some (), require_header_mac := True, conn_link_id := Some ''l''\<rparr>"

definition demo_signed_forwarder :: demo_forwarder where
  "demo_signed_forwarder = snd (the (on_connection_established demo_signed_conn None forwarder_new))"

definition demo_signer :: "(unit, unit) link_env" where
  "demo_signer = demo_env\<lparr>sign_slim_header := (\<lambda>_ l h. Inr (h\<lparr>hdr_mac := Some [of_nat (length l)]\<rparr>))\<rparr>"

theorem strict_link_signs_witness:
  "\<exists>m' h'. send_msg demo_signer demo_signed_forwarder (demo_pub 4) 0 = Some (Inr m') \<and>
     get_slim_header m' = Some h' \<and> hdr_mac h' = Some [1]"
proof -
  let ?r = "send_msg demo_signer demo_signed_forwarder (demo_pub 4) 0"
  have conn: "get_connection demo_signed_forwarder 0 = Some demo_signed_conn" by code_simp
  have "case ?r of Some (Inr _) \<Rightarrow> True | _ \<Rightarrow> False" by code_simp
  then obtain m' where run: "?r = Some (Inr m')" by (auto split: option.splits sum.splits)
  have "is_inter_node (connection_type demo_signed_conn)" "require_header_mac demo_signed_conn"
    by (simp_all add: demo_signed_conn_def connection_new_def is_inter_node_def)
  from strict_link_signs [OF conn this demo_pub_header run] run show ?thesis
    by (auto simp: demo_signed_conn_def connection_new_def link_id_for_def nonempty_def demo_signer_def)
qed

section \<open>Subscriptions between peers\<close>

text \<open>
  C30. In a full mesh a subscription travels one hop: a subscription or unsubscription that arrives
  on a peer connection with the TTL 2 that peers put on it, and without routing overrides, starts no
  forwarding.
\<close>

theorem mesh_one_hop:
  assumes run: "handle_new_message env x disp c Peer m p = Some (r, effs, p')"
    and conn: "get_connection (proc_forwarder p) c = Some conn" "is_peer_connection conn"
    and m: "is_subscribe_or_unsubscribe m" "get_slim_header m = Some h"
    and hdr: "hdr_ttl h \<le> 2" "hdr_recv_from h = None" "hdr_forward_to h = None"
  shows "Spawned tk \<notin> set effs"
proof (cases "validate m = Inr () \<and> 1 < hdr_ttl h")
  case True
  then obtain m' add where h': "get_slim_header m' = Some (received_header c Peer h)"
    and eq: "handle_new_message env x disp c Peer m p = process_subscription env x disp m' c add p"
    using handle_subscription [OF _ m(2,1), of Peer c env x disp p] by metis
  show ?thesis
    by (rule process_subscription_local_only [OF h' _ _ _ _ conn run [unfolded eq]])
       (use hdr in \<open>simp_all add: received_connections conn_type_is_local_def\<close>)
next
  case False
  show ?thesis
  proof (cases "validate m")
    case (Inl e)
    then show ?thesis using run by (simp add: handle_new_message_def)
  next
    case (Inr u)
    obtain m' where "handle_new_message env x disp c Peer m p =
       (if \<not> conn_type_is_local Peer \<and> hdr_ttl h \<le> 1 then Some (Inl TtlExpired, [], p)
        else process_message env x disp m' c Peer p)"
      using handle_routed [OF _ m(2), of env x disp c Peer p] Inr by (metis (full_types) old.unit.exhaust)
    then show ?thesis using run False Inr by (simp add: conn_type_is_local_def)
  qed
qed

text \<open>The message a peer of the node sends for a new subscription.\<close>

theorem mesh_one_hop_witness:
  "\<exists>r effs p'. handle_new_message demo_env demo_externs demo_text 1 Peer (sync_msg demo_externs demo_name 11 2) demo_node =
      Some (r, effs, p') \<and> (\<forall>tk. Spawned tk \<notin> set effs)"
proof -
  let ?m = "sync_msg demo_externs demo_name 11 2"
  have "handle_new_message demo_env demo_externs demo_text 1 Peer ?m demo_node \<noteq> None" by code_simp
  then obtain r effs p' where run: "handle_new_message demo_env demo_externs demo_text 1 Peer ?m demo_node = Some (r, effs, p')"
    by auto
  have conn: "get_connection (proc_forwarder demo_node) 1 = Some (connection_new Peer ())" by code_simp
  define h where "h = the (get_slim_header ?m)"
  have h: "get_slim_header ?m = Some h" "hdr_ttl h \<le> 2" "hdr_recv_from h = None" "hdr_forward_to h = None"
    by (simp_all add: h_def sync_msg_def get_slim_header_def slim_header_new_def sync_builder_def with_flags_def
        default_flags_def builder_new_def)
  have "is_peer_connection (connection_new Peer ())" "is_subscribe_or_unsubscribe ?m"
    by (simp_all add: is_peer_connection_def connection_new_def is_subscribe_or_unsubscribe_def sync_msg_def)
  from mesh_one_hop [OF run conn this h] run show ?thesis by blast
qed

text \<open>
  Loops end: a subscription whose id the node has already forwarded is answered with an
  acknowledgement to the connection it came from and changes nothing.
\<close>

lemma seen_subscription_absorbed:
  assumes m: "validate m = Inr ()" "message_type m = Some (Subscribe s)" "get_slim_header m = Some h"
    and ttl: "conn_type_is_local category \<or> 1 < hdr_ttl h"
    and conn: "get_connection (proc_forwarder p) (case hdr_recv_from h of Some d \<Rightarrow> d | None \<Rightarrow> c) \<noteq> None"
    and seen: "get_subscription_id m = Some i" "has_seen_sub_id i (proc_peer_sync p)"
  shows "\<exists>effs. handle_new_message env x disp c category m p = Some (Inr (), effs, p) \<and>
    (\<forall>ef\<in>set effs. \<exists>m'. ef = Delivered c m' \<and> is_subscription_ack m' = Some True)"
proof -
  have sub: "is_subscribe_or_unsubscribe m" using m(2) by (simp add: is_subscribe_or_unsubscribe_def)
  obtain m' where h': "get_slim_header m' = Some (received_header c category h)" "get_subscription_id m' = get_subscription_id m"
    and run: "handle_new_message env x disp c category m p =
       process_subscription env x disp m' c (case message_type m of Some (Subscribe _) \<Rightarrow> True | _ \<Rightarrow> False) p"
    by (rule handle_subscription [OF m(1,3) sub ttl])
  obtain acks where acks: "ack_upstream env disp c (Some i) (Inr ()) p = Some acks" using ack_upstream_total by blast
  have "i \<noteq> 0" using seen(1) m(2) by (auto simp: get_subscription_id_def split: if_splits)
  then have "process_subscription env x disp m' c True p = Some (Inr (), acks, p)"
    using conn seen h' acks
    by (auto simp: process_subscription_def get_connections_def received_connections Let_def split: option.splits)
  then show ?thesis using run m(2) ack_upstream_effects [OF acks] by auto
qed

section \<open>Where the code falls short\<close>

text \<open>
  C37. A message without a type is refused by validation, but on a connection from another node the
  stream loop asks for its type before it validates it, and panics; the same message from a local
  application is answered with an error.
\<close>

theorem untyped_message_panics:
  assumes "message_type m = None"
  shows "stream_message env x disp c category False strict from_cp m p = None \<and>
    stream_message env x disp c category True strict from_cp m p =
      Some (True, send_error_to_local_app env c (MessageProcessingError (MalformedMessage MessageTypeNotFound) m) p, p)"
  using assms by (simp add: stream_message_def header_defs to_control_plane_def handle_new_message_def validate_def)

theorem untyped_message_panics_witness:
  "stream_message demo_env demo_externs demo_text 1 Peer False False False \<lparr>metadata = [], message_type = None\<rparr> demo_node = None \<and>
   stream_message demo_env demo_externs demo_text 0 Local True False False \<lparr>metadata = [], message_type = None\<rparr> demo_node =
     Some (True, [App_Error 0 (MessageProcessingError (MalformedMessage MessageTypeNotFound) \<lparr>metadata = [], message_type = None\<rparr>)], demo_node)"
proof -
  have conn: "get_connection (proc_forwarder demo_node) 0 = Some (connection_new Local ())" by code_simp
  have "message_type \<lparr>metadata = [], message_type = None\<rparr> = None" by simp
  note panics = untyped_message_panics [OF this]
  from conjunct1 [OF panics [of demo_env demo_externs demo_text 1 Peer False False demo_node]]
    conjunct2 [OF panics [of demo_env demo_externs demo_text 0 Local False False demo_node]]
  show ?thesis by (simp add: send_error_to_local_app_def conn demo_env_def)
qed

text \<open>
  C38. When the connection of an accepted peer closes, the peer table keeps its entry (nothing calls
  \<open>PeerSync::on_connection_drop\<close>). If the peer connects again before discovery reports that it left, its
  new connection is not registered: no sync is started and no later subscription is forwarded to it.
\<close>

theorem dropped_peer_not_readmitted:
  assumes peer: "sync_peer_state (proc_peer_sync p) = Some ps" "peer_state_contains node ps"
    and closed: "connection_closed env x c Peer is_local p = Some (effs, p1)"
    and other: "node \<noteq> service_id p" "deployment_name p = '''' \<or> dep = deployment_name p"
    and again: "handle_peer_upgrade env node dep d p1 = (effs', p2)"
  shows "effs' = [] \<and> sync_peer_conns (proc_peer_sync p2) = sync_peer_conns (proc_peer_sync p1) \<and>
    c \<notin> set (sync_peer_conns (proc_peer_sync p1))"
proof -
  obtain subs w where drop: "on_connection_drop x c Peer (proc_forwarder p) = Some (subs, w)"
    using closed by (cases "on_connection_drop x c Peer (proc_forwarder p)") (auto simp: connection_closed_def)
  let ?p = "p\<lparr>proc_forwarder := w, proc_remote_sync := snd (remote_connection_drop c (proc_remote_sync p)),
      proc_peer_sync := remove_peer_conn c (proc_peer_sync p)\<rparr>"
  obtain effs0 where "withdraw_unreachable env x (hkeys subs) ?p = Some (effs0, p1)"
    using closed drop by (auto simp: connection_closed_def bind_eq_Some_conv Let_def)
  note links = withdraw_links [OF this]
  then have "sync_peer_state (proc_peer_sync p1) = Some ps" "service_id p1 = service_id p" "deployment_name p1 = deployment_name p"
    "c \<notin> set (sync_peer_conns (proc_peer_sync p1))"
    using peer(1) by (simp_all add: remove_peer_conn_def)
  then show ?thesis
    using again other peer(2) by (auto simp: handle_peer_upgrade_def on_incoming_peer_def Let_def)
qed

theorem dropped_peer_not_readmitted_witness:
  "\<exists>effs p1 effs' p2.
     connection_closed demo_env demo_externs 1 Peer False
       (demo_node\<lparr>proc_forwarder := demo_connected,
         proc_peer_sync := snd (on_incoming_peer ''node-b'' 1 (with_peer_state FullMesh peer_state_new))\<rparr>) = Some (effs, p1) \<and>
     handle_peer_upgrade demo_env ''node-b'' '''' 1 p1 = (effs', p2) \<and> 1 \<notin> set (sync_peer_conns (proc_peer_sync p2))"
proof -
  let ?p = "demo_node\<lparr>proc_forwarder := demo_connected,
    proc_peer_sync := snd (on_incoming_peer ''node-b'' 1 (with_peer_state FullMesh peer_state_new))\<rparr>"
  have "connection_closed demo_env demo_externs 1 Peer False ?p \<noteq> None" by code_simp
  then obtain effs p1 where closed: "connection_closed demo_env demo_externs 1 Peer False ?p = Some (effs, p1)" by auto
  obtain effs' p2 where again: "handle_peer_upgrade demo_env ''node-b'' '''' 1 p1 = (effs', p2)" by fastforce
  have "sync_peer_state (proc_peer_sync ?p) \<noteq> None" "peer_state_contains ''node-b'' (the (sync_peer_state (proc_peer_sync ?p)))"
    by code_simp+
  then have "sync_peer_state (proc_peer_sync ?p) = Some (the (sync_peer_state (proc_peer_sync ?p)))" by simp
  from dropped_peer_not_readmitted [OF this _ closed _ _ again]
    \<open>peer_state_contains ''node-b'' (the (sync_peer_state (proc_peer_sync ?p)))\<close> closed again
  show ?thesis by (auto simp: demo_node_def)
qed

end
