(* ===== verification/Session_Output.thy ===== *)
theory Session_Output
  imports Message_Headers Timer
begin

text \<open>
  What the layers of a session return to its processing loop (\<^verbatim>\<open>crates/session/src/common.rs\<close>):
  messages for the network and results for the application, and the errors of
  \<^verbatim>\<open>crates/session/src/errors.rs\<close> that the modelled layers raise.

  A \<open>oneshot\<close> channel on which the application waits for the outcome of an operation is a number;
  what a handler sends on it, and what it writes to the key-value store, is recorded as an event.
\<close>

record message_context =
  ctx_message_id :: nat
  ctx_session_id :: nat
  ctx_session_message_type :: session_message_type

datatype session_error =
    MessageError message_error
  | MalformedParticipant
  | UnexpectedError session_error
  | MessageLost nat
  | SessionClosed
  | UnknownDestination proto_name
  | SessionMessageInternalUnexpected
  | SessionMessageTypeUnexpected session_message_type
  | SlimSendFailure string "message_context option"
  | SessionDrainingDrop
  | MessageSendRetryFailed nat
  | MessageReceiveRetryFailed nat
  | SessionSenderShutdown
  | SessionReceiverShutdown
  | MissingParticipantNameOnTimer
  | MissingNewParticipantInGroupAdd
  | TimerNotFound nat
  | ModeratorTaskUnsupportedPhase
  | ModeratorTaskUnexpectedTimerId nat
  | ModeratorTaskAddFailed session_error
  | ModeratorTaskRemoveFailed session_error
  | ModeratorTaskUpdateFailed session_error
  | ModeratorTaskCloseFailed session_error

definition session_context :: "session_error \<Rightarrow> message_context option" where
  "session_context e = (case e of SlimSendFailure _ ctx \<Rightarrow> ctx | _ \<Rightarrow> None)"

definition is_command_message_error :: "session_error \<Rightarrow> bool" where
  "is_command_message_error e =
     (case session_context e of
        Some ctx \<Rightarrow> is_command_message (ctx_session_message_type ctx)
      | None \<Rightarrow> False)"

datatype outbound = ToSlim proto_message | ToApp "session_error + proto_message"

type_synonym session_output = "outbound list"

datatype session_event = Notified nat "session_error + unit" | Stored string bytes

type_synonym 's handled = "((session_error + session_output) \<times> session_event list \<times> 's) option"

datatype drain_status = NotDraining | Initiated | Completed

text \<open>\<open>if let Some(tx) = ack_tx { let _ = tx.send(result); }\<close>\<close>

definition signal :: "nat option \<Rightarrow> session_error + unit \<Rightarrow> session_event list" where
  "signal tx r = (case tx of None \<Rightarrow> [] | Some t \<Rightarrow> [Notified t r])"

text \<open>The messages for the application and for the network in an output, in order.\<close>

definition to_app :: "session_output \<Rightarrow> (session_error + proto_message) list" where
  "to_app out = List.map_filter (\<lambda>o'. case o' of ToApp r \<Rightarrow> Some r | ToSlim _ \<Rightarrow> None) out"

definition to_slim :: "session_output \<Rightarrow> proto_message list" where
  "to_slim out = List.map_filter (\<lambda>o'. case o' of ToSlim m \<Rightarrow> Some m | ToApp _ \<Rightarrow> None) out"

lemma to_app_simps [simp]:
  "to_app [] = []" "to_app (ToApp r # out) = r # to_app out" "to_app (ToSlim m # out) = to_app out"
  "to_app (out @ out') = to_app out @ to_app out'"
  by (simp_all add: to_app_def map_filter_def)

lemma to_slim_simps [simp]:
  "to_slim [] = []" "to_slim (ToSlim m # out) = m # to_slim out" "to_slim (ToApp r # out) = to_slim out"
  "to_slim (out @ out') = to_slim out @ to_slim out'"
  by (simp_all add: to_slim_def map_filter_def)

lemma to_app_map [simp]: "to_app (map ToApp rs) = rs" "to_app (map ToSlim ms) = []"
  by (simp_all add: to_app_def map_filter_def filter_map comp_def)

lemma to_slim_map [simp]: "to_slim (map ToSlim ms) = ms" "to_slim (map ToApp rs) = []"
  by (simp_all add: to_slim_def map_filter_def filter_map comp_def)

text \<open>The headers of a control or data message as the session layers build them.\<close>

definition session_builder ::
  "proto_name \<Rightarrow> proto_name \<Rightarrow> session_type \<Rightarrow> session_message_type \<Rightarrow> nat \<Rightarrow> nat \<Rightarrow> message_builder" where
  "session_builder src dst st mt session_id message_id =
     builder_new\<lparr>b_source := Some src, b_destination := Some dst, b_identity := Some '''',
       b_session_type := Some st, b_session_message_type := Some mt, b_session_id := Some session_id,
       b_message_id := Some message_id\<rparr>"

definition empty_payload :: "message_builder \<Rightarrow> message_builder" where
  "empty_payload b = b\<lparr>b_payload := Some (AppPayload '''' [])\<rparr>"

definition builder_forward_to :: "nat \<Rightarrow> message_builder \<Rightarrow> message_builder" where
  "builder_forward_to c b = with_flags (\<lambda>f. f\<lparr>fl_forward_to := Some c\<rparr>) b"

end
