(* ===== verification/Session_Sender.thy ===== *)
theory Session_Sender
  imports Session_Output Producer_Buffer
begin

text \<open>
  The sending half of a session (\<^verbatim>\<open>crates/session/src/session_sender.rs\<close>): it numbers the messages
  of the application, keeps them for retransmission, and tracks which endpoints still owe an
  acknowledgement of which message.

  The random id of a message to a single endpoint is a parameter \<open>rnd\<close>; what the key-value store
  returned when the sequence number was loaded is one of \<open>attach_seq_persistence\<close>. A timer stops when
  its entry is removed.
\<close>

section \<open>Model\<close>

definition FIRST_MESSAGE_ID :: nat where "FIRST_MESSAGE_ID = 1"

definition MAX_FANOUT :: nat where "MAX_FANOUT = 256"

record group_timer =
  gt_missing :: "encoded_name list"
  gt_timer :: timer

type_synonym ack_map = "(nat, group_timer \<times> proto_message option) hmap"

record session_sender =
  snd_buffer :: producer_buffer
  snd_timer_factory :: "timer_settings option"
  snd_pending_acks :: ack_map
  snd_acks_per_endpoint :: "(encoded_name, nat list) hmap"
  snd_endpoints :: "(encoded_name, proto_name) hmap"
  snd_next_id :: nat
  snd_session_id :: nat
  snd_session_type :: session_type
  snd_to_flush :: bool
  snd_draining :: drain_status
  snd_notifiers :: "(nat, nat) hmap"
  snd_seq_persist :: "string option"

definition sender_new :: "externs \<Rightarrow> timer_settings option \<Rightarrow> nat \<Rightarrow> session_type \<Rightarrow> bool \<Rightarrow> session_sender" where
  "sender_new x settings session_id st signals =
     \<lparr>snd_buffer = pb_with_capacity x 512, snd_timer_factory = (if signals then settings else None),
      snd_pending_acks = [], snd_acks_per_endpoint = [], snd_endpoints = [],
      snd_next_id = FIRST_MESSAGE_ID - 1, snd_session_id = session_id, snd_session_type = st,
      snd_to_flush = False, snd_draining = NotDraining, snd_notifiers = [], snd_seq_persist = None\<rparr>"

text \<open>\<open>u32::to_le_bytes\<close> and \<open>u32::from_le_bytes\<close>.\<close>

definition to_le_bytes :: "nat \<Rightarrow> bytes" where
  "to_le_bytes n = map (\<lambda>i. word_of_nat (n div 256 ^ i mod 256)) [0, 1, 2, 3]"

definition from_le_bytes :: "bytes \<Rightarrow> nat option" where
  "from_le_bytes bs =
     (case bs of [b0, b1, b2, b3] \<Rightarrow> Some (unat b0 + 256 * unat b1 + 256 ^ 2 * unat b2 + 256 ^ 3 * unat b3) | _ \<Rightarrow> None)"

definition attach_seq_persistence :: "'e + bytes option \<Rightarrow> string \<Rightarrow> session_sender \<Rightarrow> session_sender" where
  "attach_seq_persistence loaded key s =
     (case loaded of
        Inr (Some bs) \<Rightarrow> (case from_le_bytes bs of Some n \<Rightarrow> s\<lparr>snd_next_id := n\<rparr> | None \<Rightarrow> s)
      | _ \<Rightarrow> s)\<lparr>snd_seq_persist := Some key\<rparr>"

definition id_and_fanout ::
  "bool \<Rightarrow> nat \<Rightarrow> session_sender \<Rightarrow> (nat \<times> nat) \<times> session_event list \<times> session_sender" where
  "id_and_fanout is_publish_to rnd s =
     (if is_publish_to then ((rnd, 1), [], s)
      else
        (let i = (snd_next_id s + 1) mod 2 ^ 32 mod (MAX_PUBLISH_ID + 1);
             fanout = (if snd_session_type s = Multicast then MAX_FANOUT else 1);
             evs = (case snd_seq_persist s of Some key \<Rightarrow> [Stored key (to_le_bytes i)] | None \<Rightarrow> [])
         in ((i, fanout), evs, s\<lparr>snd_next_id := i\<rparr>)))"

definition track_ack :: "nat \<Rightarrow> encoded_name \<Rightarrow> (encoded_name, nat list) hmap \<Rightarrow> (encoded_name, nat list) hmap" where
  "track_ack i e m =
     (case hget m e of Some acks \<Rightarrow> hput e (List.insert i acks) m | None \<Rightarrow> hput e [i] m)"

definition untrack_ack :: "nat \<Rightarrow> encoded_name \<Rightarrow> (encoded_name, nat list) hmap \<Rightarrow> (encoded_name, nat list) hmap" where
  "untrack_ack i e m = (case hget m e of Some acks \<Rightarrow> hput e (removeAll i acks) m | None \<Rightarrow> m)"

definition set_timer_and_send :: "proto_message \<Rightarrow> session_sender \<Rightarrow> (session_output \<times> session_sender) option" where
  "set_timer_and_send m s =
     do {
       i \<leftarrow> get_id m;
       let to_one = contains_metadata PUBLISH_TO m;
       case snd_timer_factory s of
         None \<Rightarrow> Some ([ToSlim m], s)
       | Some factory \<Rightarrow>
           do {
             missing \<leftarrow> (if to_one then map_option (\<lambda>e. [e]) (get_encoded_dst m)
                        else Some (hkeys (snd_endpoints s)));
             mt \<leftarrow> get_session_message_type m;
             let gt = \<lparr>gt_missing = missing, gt_timer = create_and_start_timer factory i mt None\<rparr>;
             Some ([ToSlim m],
               s\<lparr>snd_pending_acks := hput i (gt, if to_one then Some m else None) (snd_pending_acks s),
                 snd_acks_per_endpoint := fold (track_ack i) missing (snd_acks_per_endpoint s)\<rparr>)
           }
     }"

text \<open>The headers \<open>on_publish_message\<close> sets on a message before it is sent.\<close>

definition stamp_message :: "nat \<Rightarrow> nat \<Rightarrow> session_sender \<Rightarrow> proto_message \<Rightarrow> proto_message option" where
  "stamp_message i fanout s m =
     do {
       m1 \<leftarrow> update_session_header
              (\<lambda>h. h\<lparr>sh_message_id := i, sh_session_id := snd_session_id s, sh_session_type := snd_session_type s\<rparr>) m;
       update_slim_header (\<lambda>h. h\<lparr>hdr_fanout := fanout\<rparr>) m1
     }"

definition register_notifier ::
  "nat option \<Rightarrow> nat \<Rightarrow> session_sender \<Rightarrow> session_event list \<times> session_sender" where
  "register_notifier ack_tx i s =
     (case ack_tx of
        None \<Rightarrow> ([], s)
      | Some tx \<Rightarrow>
          if snd_timer_factory s = None then ([Notified tx (Inr ())], s)
          else ([], s\<lparr>snd_notifiers := hput i tx (snd_notifiers s)\<rparr>))"

definition sender_on_publish :: "nat \<Rightarrow> proto_message \<Rightarrow> nat option \<Rightarrow> session_sender \<Rightarrow> session_sender handled" where
  "sender_on_publish rnd m ack_tx s =
     do {
       let to_one = contains_metadata PUBLISH_TO m;
       known \<leftarrow> (if to_one then map_option (\<lambda>e. hget (snd_endpoints s) e \<noteq> None) (get_encoded_dst m)
                else Some True);
       if \<not> known then map_option (\<lambda>dst. (Inl (UnknownDestination dst), [], s)) (get_dst m)
       else
         (case id_and_fanout to_one rnd s of
            ((i, fanout), stored, s1) \<Rightarrow>
              do {
                m1 \<leftarrow> stamp_message i fanout s1 m;
                case register_notifier ack_tx i s1 of
                  (sent, s2) \<Rightarrow>
                    if snd_endpoints s2 = [] then
                      do {
                        b \<leftarrow> (if to_one then Some (snd_buffer s2) else pb_push m1 (snd_buffer s2));
                        Some (Inr [], stored @ sent, s2\<lparr>snd_buffer := b, snd_to_flush := True\<rparr>)
                      }
                    else
                      do {
                        b \<leftarrow> (if snd_timer_factory s2 \<noteq> None \<and> \<not> to_one then pb_push m1 (snd_buffer s2)
                             else Some (snd_buffer s2));
                        (out, s3) \<leftarrow> set_timer_and_send m1 (s2\<lparr>snd_buffer := b\<rparr>);
                        Some (Inr out, stored @ sent, s3)
                      }
              })
     }"

text \<open>An acknowledgement: \<open>ack_pending\<close> is its effect on \<open>pending_acks\<close> and the notifiers.\<close>

definition ack_pending :: "nat \<Rightarrow> encoded_name \<Rightarrow> session_sender \<Rightarrow> session_event list \<times> session_sender" where
  "ack_pending i src s =
     (case hget (snd_pending_acks s) i of
        None \<Rightarrow> ([], s)
      | Some (gt, stored) \<Rightarrow>
          (let missing = removeAll src (gt_missing gt) in
           if missing = [] then
             (signal (hget (snd_notifiers s) i) (Inr ()),
              s\<lparr>snd_pending_acks := hdel i (snd_pending_acks s), snd_notifiers := hdel i (snd_notifiers s)\<rparr>)
           else ([], s\<lparr>snd_pending_acks := hput i (gt\<lparr>gt_missing := missing\<rparr>, stored) (snd_pending_acks s)\<rparr>)))"

definition sender_on_ack :: "proto_message \<Rightarrow> session_sender \<Rightarrow> (session_event list \<times> session_sender) option" where
  "sender_on_ack m s =
     do {
       src \<leftarrow> get_encoded_source m;
       i \<leftarrow> get_id m;
       case ack_pending i src s of
         (evs, s1) \<Rightarrow> Some (evs, s1\<lparr>snd_acks_per_endpoint := untrack_ack i src (snd_acks_per_endpoint s1)\<rparr>)
     }"

definition rtx_error_reply :: "externs \<Rightarrow> proto_message \<Rightarrow> session_sender \<Rightarrow> (message_error + proto_message) option" where
  "rtx_error_reply x m s =
     do {
       src \<leftarrow> get_source m;
       dst \<leftarrow> get_dst m;
       i \<leftarrow> get_id m;
       conn \<leftarrow> get_incoming_conn m;
       st \<leftarrow> get_session_type m;
       Some (build_publish x 0
         (with_flags (\<lambda>f. f\<lparr>fl_error := Some True\<rparr>)
           (empty_payload (builder_forward_to conn (session_builder dst src st RtxReply (snd_session_id s) i)))))
     }"

definition rtx_reply :: "proto_name option \<Rightarrow> nat \<Rightarrow> proto_message \<Rightarrow> proto_message option" where
  "rtx_reply src conn msg =
     do {
       m1 \<leftarrow> update_slim_header (\<lambda>h. h\<lparr>hdr_destination := src, hdr_forward_to := Some conn\<rparr>) msg;
       update_session_header (\<lambda>h. h\<lparr>sh_message_type := RtxReply\<rparr>) m1
     }"

definition sender_on_rtx :: "externs \<Rightarrow> proto_message \<Rightarrow> session_sender \<Rightarrow> (session_error + session_output) option" where
  "sender_on_rtx x m s =
     do {
       h \<leftarrow> get_slim_header m;
       i \<leftarrow> get_id m;
       conn \<leftarrow> get_incoming_conn m;
       _ \<leftarrow> get_source m;
       case pb_get (snd_buffer s) i of
         Some msg \<Rightarrow> map_option (\<lambda>m'. Inr [ToSlim m']) (rtx_reply (hdr_source h) conn msg)
       | None \<Rightarrow> map_option (\<lambda>r. case r of Inl e \<Rightarrow> Inl (MessageError e) | Inr m' \<Rightarrow> Inr [ToSlim m']) (rtx_error_reply x m s)
     }"

definition sender_on_message ::
  "externs \<Rightarrow> nat \<Rightarrow> proto_message \<Rightarrow> nat option \<Rightarrow> session_sender \<Rightarrow> session_sender handled" where
  "sender_on_message x rnd m ack_tx s =
     (if snd_draining s = Completed
      then Some (Inl SessionDrainingDrop, signal ack_tx (Inl SessionDrainingDrop), s)
      else do {
        mt \<leftarrow> get_session_message_type m;
        case mt of
          Msg \<Rightarrow>
            if snd_draining s = Initiated
            then Some (Inl SessionDrainingDrop, signal ack_tx (Inl SessionDrainingDrop), s)
            else sender_on_publish rnd
                   (if snd_session_type s = PointToPoint then remove_metadata PUBLISH_TO m else m) ack_tx s
        | MsgAck \<Rightarrow>
            if snd_timer_factory s = None then Some (Inr [], signal ack_tx (Inr ()), s)
            else map_option (\<lambda>(evs, s1). (Inr [], signal ack_tx (Inr ()) @ evs, s1)) (sender_on_ack m s)
        | RtxRequest \<Rightarrow>
            if snd_timer_factory s = None then Some (Inr [], signal ack_tx (Inr ()), s)
            else do {
              (evs, s1) \<leftarrow> sender_on_ack m s;
              r \<leftarrow> sender_on_rtx x m s1;
              Some (r, signal ack_tx (Inr ()) @ evs, s1)
            }
        | _ \<Rightarrow> Some (Inr [], signal ack_tx (Inr ()), s)
      })"

definition sender_on_failure :: "nat \<Rightarrow> session_error \<Rightarrow> session_sender \<Rightarrow> session_event list \<times> session_sender" where
  "sender_on_failure i err s =
     (let tracked = (case hget (snd_pending_acks s) i of
                       Some (gt, _) \<Rightarrow> fold (untrack_ack i) (gt_missing gt) (snd_acks_per_endpoint s)
                     | None \<Rightarrow> snd_acks_per_endpoint s);
          outcome = (case err of UnexpectedError _ \<Rightarrow> Inl err | _ \<Rightarrow> Inr ())
      in (signal (hget (snd_notifiers s) i) outcome,
          s\<lparr>snd_acks_per_endpoint := tracked, snd_pending_acks := hdel i (snd_pending_acks s),
            snd_notifiers := hdel i (snd_notifiers s)\<rparr>))"

definition sender_timer_failure :: "nat \<Rightarrow> session_sender \<Rightarrow> session_event list \<times> session_sender" where
  "sender_timer_failure i s = sender_on_failure i (MessageSendRetryFailed i) s"

definition sender_slim_failure :: "session_error \<Rightarrow> session_sender \<Rightarrow> session_sender handled" where
  "sender_slim_failure err s =
     (case session_context err of
        None \<Rightarrow> Some (Inl (UnexpectedError err), [], s)
      | Some ctx \<Rightarrow>
          (case sender_on_failure (ctx_message_id ctx) err s of (evs, s1) \<Rightarrow> Some (Inr [], evs, s1)))"

text \<open>The copies of a group message that go to the endpoints still missing.\<close>

fun resend_to :: "proto_message \<Rightarrow> encoded_name list \<Rightarrow> (encoded_name, proto_name) hmap \<Rightarrow> session_output option" where
  "resend_to m [] eps = Some []"
| "resend_to m (e # es) eps =
     (case hget eps e of
        None \<Rightarrow> resend_to m es eps
      | Some name \<Rightarrow>
          do {
            m1 \<leftarrow> update_slim_header (\<lambda>h. h\<lparr>hdr_destination := Some name\<rparr>) m;
            rest \<leftarrow> resend_to m es eps;
            Some (ToSlim m1 # rest)
          })"

definition sender_timer_timeout :: "nat \<Rightarrow> session_sender \<Rightarrow> session_sender handled" where
  "sender_timer_timeout i s =
     (let failed = (case sender_timer_failure i s of (evs, s1) \<Rightarrow> Some (Inr [], evs, s1)) in
      if i > MAX_PUBLISH_ID then
        (case hget (snd_pending_acks s) i of
           Some (_, Some msg) \<Rightarrow> Some (Inr [ToSlim msg], [], s)
         | _ \<Rightarrow> failed)
      else
        (case pb_get (snd_buffer s) i of
           None \<Rightarrow> failed
         | Some msg \<Rightarrow>
             (case hget (snd_pending_acks s) i of
                None \<Rightarrow> Some (Inr [], [], s)
              | Some (gt, _) \<Rightarrow>
                  map_option (\<lambda>out. (Inr out, [], s)) (resend_to msg (gt_missing gt) (snd_endpoints s)))))"

fun flush_messages :: "proto_message list \<Rightarrow> session_sender \<Rightarrow> (session_output \<times> session_sender) option" where
  "flush_messages [] s = Some ([], s)"
| "flush_messages (p # ps) s =
     do {
       (out, s1) \<leftarrow> set_timer_and_send p s;
       (rest, s2) \<leftarrow> flush_messages ps s1;
       Some (out @ rest, s2)
     }"

definition sender_add_endpoint :: "participant \<Rightarrow> session_sender \<Rightarrow> session_sender handled" where
  "sender_add_endpoint p s =
     (case (part_settings p, part_name p) of
        (Some settings, Some name) \<Rightarrow>
          if \<not> receives_data settings then Some (Inr [], [], s)
          else do {
            e \<leftarrow> enc_name name;
            let s1 = s\<lparr>snd_endpoints := hput e name (snd_endpoints s)\<rparr>;
            if snd_to_flush s1 \<and> length (snd_endpoints s1) = 1 then
              map_option (\<lambda>(out, s2). (Inr out, [], s2))
                (flush_messages (pb_iter (snd_buffer s1)) (s1\<lparr>snd_to_flush := False\<rparr>))
            else Some (Inr [], [], s1)
          }
      | _ \<Rightarrow> Some (Inl MalformedParticipant, [], s))"

text \<open>\<open>drop_missing\<close> is the body of the loop of \<open>remove_endpoint\<close>.\<close>

definition drop_missing :: "encoded_name \<Rightarrow> nat \<Rightarrow> ack_map \<Rightarrow> ack_map" where
  "drop_missing e i m =
     (case hget m i of
        None \<Rightarrow> m
      | Some (gt, stored) \<Rightarrow>
          (let missing = removeAll e (gt_missing gt) in
           if missing = [] then hdel i m else hput i (gt\<lparr>gt_missing := missing\<rparr>, stored) m))"

definition sender_remove_endpoint :: "proto_name \<Rightarrow> session_sender \<Rightarrow> session_sender option" where
  "sender_remove_endpoint n s =
     map_option (\<lambda>e.
       let pending = (case hget (snd_acks_per_endpoint s) e of
                        Some ids \<Rightarrow> fold (drop_missing e) ids (snd_pending_acks s)
                      | None \<Rightarrow> snd_pending_acks s)
       in s\<lparr>snd_pending_acks := pending, snd_acks_per_endpoint := hdel e (snd_acks_per_endpoint s),
            snd_endpoints := hdel e (snd_endpoints s)\<rparr>)
     (enc_name n)"

definition sender_start_drain :: "session_sender \<Rightarrow> session_sender" where
  "sender_start_drain s = s\<lparr>snd_draining := (if snd_pending_acks s = [] then Completed else Initiated)\<rparr>"

definition sender_drain_completed :: "session_sender \<Rightarrow> bool" where
  "sender_drain_completed s \<longleftrightarrow>
     snd_draining s = Completed \<or> snd_draining s = Initiated \<and> snd_pending_acks s = []"

definition sender_missing_acks_for :: "nat \<Rightarrow> session_sender \<Rightarrow> proto_name list" where
  "sender_missing_acks_for i s =
     (case hget (snd_pending_acks s) i of
        None \<Rightarrow> []
      | Some (gt, _) \<Rightarrow> List.map_filter (hget (snd_endpoints s)) (gt_missing gt))"

definition sender_close :: "session_sender \<Rightarrow> session_event list \<times> session_sender" where
  "sender_close s =
     (map (\<lambda>tx. Notified tx (Inl SessionClosed)) (hvalues (snd_notifiers s)),
      s\<lparr>snd_pending_acks := [], snd_acks_per_endpoint := [], snd_notifiers := [], snd_draining := Completed\<rparr>)"

end
