(* ===== verification/Session_Sender_Run.thy ===== *)
theory Session_Sender_Run
  imports Session_Sender
begin

text \<open>
  The sending half of a session in operation: its invariant, that no call with a validated message
  panics or breaks it, and what the bookkeeping of acknowledgements amounts to.
\<close>

section \<open>Bookkeeping\<close>

text \<open>An endpoint owes the acknowledgement of a message.\<close>

definition owes :: "(encoded_name, nat list) hmap \<Rightarrow> encoded_name \<Rightarrow> nat \<Rightarrow> bool" where
  "owes m e i \<longleftrightarrow> (\<exists>ids. hget m e = Some ids \<and> i \<in> set ids)"

lemma owes_track [simp]: "owes (track_ack i e m) f j \<longleftrightarrow> owes m f j \<or> f = e \<and> j = i"
  by (cases "hget m e") (auto simp: owes_def track_ack_def)

lemma owes_fold_track [simp]: "owes (fold (track_ack i) es m) f j \<longleftrightarrow> owes m f j \<or> f \<in> set es \<and> j = i"
  by (induction es arbitrary: m) auto

lemma owes_untrack [simp]: "owes (untrack_ack i e m) f j \<longleftrightarrow> owes m f j \<and> \<not> (f = e \<and> j = i)"
  by (cases "hget m e") (auto simp: owes_def untrack_ack_def)

lemma owes_fold_untrack [simp]: "owes (fold (untrack_ack i) es m) f j \<longleftrightarrow> owes m f j \<and> \<not> (f \<in> set es \<and> j = i)"
  by (induction es arbitrary: m) auto

lemma owes_hdel [simp]: "owes (hdel e m) f j \<longleftrightarrow> owes m f j \<and> f \<noteq> e"
  by (auto simp: owes_def)

lemma wf_track: "hmap_wf m \<Longrightarrow> hmap_wf (track_ack i e m)"
  by (simp add: track_ack_def split: option.split)

lemma wf_fold_track [simp]: "hmap_wf m \<Longrightarrow> hmap_wf (fold (track_ack i) es m)"
  by (induction es arbitrary: m) (simp_all add: wf_track)

lemma wf_untrack [simp]: "hmap_wf m \<Longrightarrow> hmap_wf (untrack_ack i e m)"
  by (simp add: untrack_ack_def split: option.split)

lemma wf_fold_untrack [simp]: "hmap_wf m \<Longrightarrow> hmap_wf (fold (untrack_ack i) es m)"
  by (induction es arbitrary: m) simp_all

text \<open>What remains of the entry of a message when one endpoint no longer counts.\<close>

definition without_endpoint ::
  "encoded_name \<Rightarrow> (group_timer \<times> proto_message option) option \<Rightarrow> (group_timer \<times> proto_message option) option" where
  "without_endpoint e v =
     (case v of
        None \<Rightarrow> None
      | Some (gt, stored) \<Rightarrow>
          if removeAll e (gt_missing gt) = [] then None
          else Some (gt\<lparr>gt_missing := removeAll e (gt_missing gt)\<rparr>, stored))"

lemma without_endpoint_idem [simp]: "without_endpoint e (without_endpoint e v) = without_endpoint e v"
  by (auto simp: without_endpoint_def split: option.splits)

lemma hget_drop_missing: "hget (drop_missing e i m) = (hget m)(i := without_endpoint e (hget m i))"
  by (cases "hget m i") (auto simp: drop_missing_def without_endpoint_def Let_def fun_eq_iff)

lemma hget_fold_drop:
  "hget (fold (drop_missing e) ids m) = (\<lambda>i. if i \<in> set ids then without_endpoint e (hget m i) else hget m i)"
  by (induction ids arbitrary: m) (auto simp: hget_drop_missing fun_eq_iff)

lemma wf_drop_missing: "hmap_wf m \<Longrightarrow> hmap_wf (drop_missing e i m)"
  by (auto simp: drop_missing_def Let_def split: option.split)

lemma wf_fold_drop [simp]: "hmap_wf m \<Longrightarrow> hmap_wf (fold (drop_missing e) ids m)"
  by (induction ids arbitrary: m) (simp_all add: wf_drop_missing)

lemma without_endpoint_Some:
  "without_endpoint e v = Some (gt, stored) \<longleftrightarrow>
     (\<exists>gt0. v = Some (gt0, stored) \<and> gt = gt0\<lparr>gt_missing := removeAll e (gt_missing gt0)\<rparr> \<and>
       removeAll e (gt_missing gt0) \<noteq> [])"
  by (auto simp: without_endpoint_def split: option.splits)

lemma hget_ack_pending:
  "hget (snd_pending_acks (snd (ack_pending i src s))) =
     (hget (snd_pending_acks s))(i := without_endpoint src (hget (snd_pending_acks s) i))"
  by (cases "hget (snd_pending_acks s) i")
     (auto simp: ack_pending_def without_endpoint_def Let_def fun_eq_iff)

lemma ack_pending_other:
  "snd_buffer (snd (ack_pending i src s)) = snd_buffer s"
  "snd_endpoints (snd (ack_pending i src s)) = snd_endpoints s"
  "snd_timer_factory (snd (ack_pending i src s)) = snd_timer_factory s"
  "snd_acks_per_endpoint (snd (ack_pending i src s)) = snd_acks_per_endpoint s"
  "snd_next_id (snd (ack_pending i src s)) = snd_next_id s"
  "snd_session_type (snd (ack_pending i src s)) = snd_session_type s"
  "snd_session_id (snd (ack_pending i src s)) = snd_session_id s"
  "hmap_wf (snd_pending_acks s) \<Longrightarrow> hmap_wf (snd_pending_acks (snd (ack_pending i src s)))"
  "hmap_wf (snd_notifiers s) \<Longrightarrow> hmap_wf (snd_notifiers (snd (ack_pending i src s)))"
  "snd_draining (snd (ack_pending i src s)) = snd_draining s"
  by (simp_all add: ack_pending_def Let_def split: option.split prod.split)

section \<open>The invariant\<close>

text \<open>
  An entry of \<open>pending_acks\<close> waits for at least one endpoint, only for endpoints of the session, and each of
  them is known to owe it; a session without timers has no entry. What the buffer holds can be
  sent again, to the whole group.
\<close>

definition entry_ok :: "(encoded_name, proto_name) hmap \<Rightarrow> (encoded_name, nat list) hmap \<Rightarrow> nat \<Rightarrow> group_timer \<Rightarrow> bool" where
  "entry_ok eps per i gt \<longleftrightarrow>
     gt_missing gt \<noteq> [] \<and> (\<forall>e\<in>set (gt_missing gt). hget eps e \<noteq> None \<and> owes per e i)"

definition buffered_ok :: "proto_message \<Rightarrow> bool" where
  "buffered_ok m \<longleftrightarrow> publish_ok m \<and> \<not> contains_metadata PUBLISH_TO m"

definition sender_inv :: "session_sender \<Rightarrow> bool" where
  "sender_inv s \<longleftrightarrow>
     pb_inv (snd_buffer s) \<and> (\<forall>i m. pb_get (snd_buffer s) i = Some m \<longrightarrow> buffered_ok m) \<and>
     hmap_wf (snd_pending_acks s) \<and> hmap_wf (snd_acks_per_endpoint s) \<and> hmap_wf (snd_endpoints s) \<and>
     hmap_wf (snd_notifiers s) \<and>
     (\<forall>e n. hget (snd_endpoints s) e = Some n \<longrightarrow> enc_name n = Some e) \<and>
     (\<forall>i gt stored. hget (snd_pending_acks s) i = Some (gt, stored) \<longrightarrow>
        entry_ok (snd_endpoints s) (snd_acks_per_endpoint s) i gt) \<and>
     (snd_timer_factory s = None \<longrightarrow> snd_pending_acks s = [])"

lemma sender_invD:
  assumes "sender_inv s"
  shows "pb_inv (snd_buffer s)" "pb_get (snd_buffer s) i = Some m \<Longrightarrow> buffered_ok m"
    "hmap_wf (snd_pending_acks s)" "hmap_wf (snd_acks_per_endpoint s)" "hmap_wf (snd_endpoints s)"
    "hmap_wf (snd_notifiers s)" "hget (snd_endpoints s) e = Some n \<Longrightarrow> enc_name n = Some e"
    "hget (snd_pending_acks s) i = Some (gt, stored) \<Longrightarrow> entry_ok (snd_endpoints s) (snd_acks_per_endpoint s) i gt"
    "snd_timer_factory s = None \<Longrightarrow> snd_pending_acks s = []"
  using assms unfolding sender_inv_def by blast+

lemma sender_new_inv: "sender_inv (sender_new x settings session_id st signals)"
proof -
  have "pb_inv (pb_with_capacity x 512)" by (rule pb_with_capacity_inv) simp
  then show ?thesis by (simp add: sender_inv_def sender_new_def pb_get_def pb_with_capacity_def)
qed

lemma sender_inv_other [simp]:
  "sender_inv (s\<lparr>snd_next_id := n\<rparr>) = sender_inv s" "sender_inv (s\<lparr>snd_to_flush := t\<rparr>) = sender_inv s"
  "sender_inv (s\<lparr>snd_draining := dr\<rparr>) = sender_inv s"
  by (simp_all add: sender_inv_def)

lemma sender_inv_notifiers: "sender_inv s \<Longrightarrow> hmap_wf ns \<Longrightarrow> sender_inv (s\<lparr>snd_notifiers := ns\<rparr>)"
  by (simp add: sender_inv_def)

lemma sender_inv_buffer:
  "sender_inv s \<Longrightarrow> pb_inv b \<Longrightarrow> \<forall>i m. pb_get b i = Some m \<longrightarrow> buffered_ok m \<Longrightarrow> sender_inv (s\<lparr>snd_buffer := b\<rparr>)"
  by (simp add: sender_inv_def)

lemma ack_inv:
  assumes inv: "sender_inv s" and m: "publish_ok m"
  shows "\<exists>evs s'. sender_on_ack m s = Some (evs, s') \<and> sender_inv s' \<and> snd_buffer s' = snd_buffer s"
proof -
  from m obtain src i where src: "get_encoded_source m = Some src" "get_id m = Some i"
    by (auto simp: publish_ok_def get_id_def)
  obtain evs s1 where s1: "ack_pending i src s = (evs, s1)" by fastforce
  let ?s' = "s1\<lparr>snd_acks_per_endpoint := untrack_ack i src (snd_acks_per_endpoint s1)\<rparr>"
  note d = sender_invD [OF inv] and other = ack_pending_other [where i = i and src = src and s = s, unfolded s1 snd_conv]
  have pend: "hget (snd_pending_acks s1) = (hget (snd_pending_acks s))(i := without_endpoint src (hget (snd_pending_acks s) i))"
    using hget_ack_pending [of i src s] s1 by simp
  have "entry_ok (snd_endpoints s) (untrack_ack i src (snd_acks_per_endpoint s)) j gt"
    if "hget (snd_pending_acks s1) j = Some (gt, stored)" for j gt stored
    using that d(8) unfolding pend entry_ok_def
    by (fastforce simp: without_endpoint_Some split: if_splits)
  moreover have "snd_pending_acks s1 = []" if "snd_timer_factory s = None"
    using pend d(9) [OF that] by (simp add: hmap_empty_iff without_endpoint_def)
  ultimately have "sender_inv ?s'"
    using d other unfolding sender_inv_def by simp
  with s1 src other(1) show ?thesis by (auto simp: sender_on_ack_def)
qed

section \<open>Sending\<close>

text \<open>What the application put into a message.\<close>

definition get_content :: "proto_message \<Rightarrow> content option" where
  "get_content m = (case message_type m of Some (Publish p) \<Rightarrow> pub_msg p | _ \<Rightarrow> None)"

lemma stamp_message_ok:
  assumes "publish_ok m"
  shows "\<exists>m1. stamp_message i f s m = Some m1 \<and> publish_ok m1 \<and> get_id m1 = Some i \<and> metadata m1 = metadata m \<and>
    get_encoded_dst m1 = get_encoded_dst m \<and> get_dst m1 = get_dst m \<and> get_source m1 = get_source m \<and>
    get_session_message_type m1 = get_session_message_type m \<and> get_content m1 = get_content m \<and>
    get_error m1 = get_error m"
  using assms
  by (elim publish_okE)
     (simp add: stamp_message_def update_session_header_def update_slim_header_def publish_ok_def accessor_defs get_content_def)

lemma entry_ok_mono:
  "entry_ok eps per i gt \<Longrightarrow> (\<And>e. owes per e i \<Longrightarrow> owes per' e i) \<Longrightarrow> entry_ok eps per' i gt"
  by (auto simp: entry_ok_def)

lemma hkeys_get: "e \<in> set (hkeys m) \<longleftrightarrow> hget m e \<noteq> None"
  by (simp add: hget_None_iff)

lemma send_inv:
  assumes inv: "sender_inv s" and m: "publish_ok m" and eps: "snd_endpoints s \<noteq> []"
    and one: "contains_metadata PUBLISH_TO m \<Longrightarrow> \<exists>e. get_encoded_dst m = Some e \<and> hget (snd_endpoints s) e \<noteq> None"
  shows "\<exists>s'. set_timer_and_send m s = Some ([ToSlim m], s') \<and> sender_inv s' \<and>
    snd_buffer s' = snd_buffer s \<and> snd_endpoints s' = snd_endpoints s"
proof -
  note d = sender_invD [OF inv]
  from m obtain i mt where i: "get_id m = Some i" "get_session_message_type m = Some mt"
    by (auto simp: publish_ok_def get_id_def get_session_message_type_def)
  show ?thesis
  proof (cases "snd_timer_factory s")
    case None
    then show ?thesis using i inv by (simp add: set_timer_and_send_def)
  next
    case (Some factory)
    define missing where "missing = (if contains_metadata PUBLISH_TO m then [the (get_encoded_dst m)] else hkeys (snd_endpoints s))"
    define gt where "gt = \<lparr>gt_missing = missing, gt_timer = create_and_start_timer factory i mt None\<rparr>"
    let ?s' = "s\<lparr>snd_pending_acks := hput i (gt, if contains_metadata PUBLISH_TO m then Some m else None) (snd_pending_acks s),
      snd_acks_per_endpoint := fold (track_ack i) missing (snd_acks_per_endpoint s)\<rparr>"
    have new: "entry_ok (snd_endpoints s) (fold (track_ack i) missing (snd_acks_per_endpoint s)) i gt"
      using one eps by (auto simp: entry_ok_def gt_def missing_def dest: weak_map_of_SomeI)
    have "entry_ok (snd_endpoints s) (fold (track_ack i) missing (snd_acks_per_endpoint s)) j g"
      if "hget (snd_pending_acks ?s') j = Some (g, stored)" for j g stored
      using that new entry_ok_mono [OF d(8), of j g stored "fold (track_ack i) missing (snd_acks_per_endpoint s)"]
      by (auto split: if_splits)
    then have "sender_inv ?s'" using d Some unfolding sender_inv_def by simp
    moreover have "set_timer_and_send m s = Some ([ToSlim m], ?s')"
      using i Some one by (auto simp: set_timer_and_send_def missing_def gt_def)
    ultimately show ?thesis by simp
  qed
qed

lemma buffer_push_ok:
  assumes "pb_inv b" "\<forall>i m. pb_get b i = Some m \<longrightarrow> buffered_ok m" "buffered_ok m" "get_id m = Some i" "i < 2 ^ 32"
  shows "\<exists>b'. pb_push m b = Some b' \<and> pb_inv b' \<and> (\<forall>i m. pb_get b' i = Some m \<longrightarrow> buffered_ok m)"
proof -
  have dst: "get_dst m \<noteq> None" using assms(3) by (auto simp: buffered_ok_def publish_ok_def get_encoded_dst_def bind_eq_Some_conv)
  show ?thesis
  proof (cases "pb_get b i = None")
    case True
    moreover have "i < usize_MAX" using assms(5) by (simp add: usize_MAX_def)
    ultimately show ?thesis
      using pb_push_new [OF assms(1) dst assms(4)] assms(2,3) by fastforce
  next
    case False
    then show ?thesis using pb_push_old [OF assms(1) dst assms(4)] assms(1,2) by blast
  qed
qed

lemma notifier_inv:
  assumes "sender_inv s" "register_notifier tx i s = (evs, s')"
  shows "sender_inv s' \<and> snd_buffer s' = snd_buffer s \<and> snd_endpoints s' = snd_endpoints s \<and>
    snd_timer_factory s' = snd_timer_factory s"
  using assms sender_inv_notifiers [OF assms(1), of "hput i (the tx) (snd_notifiers s)"] sender_invD(6) [OF assms(1)]
  by (auto simp: register_notifier_def split: option.splits if_splits)

lemma numbered:
  assumes "id_and_fanout one rnd s = ((i, f), evs, s')" "rnd < 2 ^ 32"
  shows "i < 2 ^ 32 \<and> (\<not> one \<longrightarrow> i < 2 ^ 31) \<and> (\<exists>n. s' = s\<lparr>snd_next_id := n\<rparr>)"
proof (cases one)
  case True
  then have "s' = s\<lparr>snd_next_id := snd_next_id s\<rparr>" "i = rnd" using assms by (simp_all add: id_and_fanout_def)
  with True assms(2) show ?thesis by blast
next
  case False
  then have "i < 2 ^ 31" "s' = s\<lparr>snd_next_id := i\<rparr>"
    using assms by (auto simp: id_and_fanout_def Let_def MAX_PUBLISH_ID_def)
  with False show ?thesis by auto
qed

lemma publish_inv:
  assumes inv: "sender_inv s" and m: "publish_ok m" and rnd: "rnd < 2 ^ 32"
  shows "\<exists>r evs s'. sender_on_publish rnd m tx s = Some (r, evs, s') \<and> sender_inv s'"
proof -
  define one where "one = contains_metadata PUBLISH_TO m"
  obtain dst n where dst: "get_encoded_dst m = Some dst" "get_dst m = Some n"
    using m by (auto simp: publish_ok_def get_encoded_dst_def bind_eq_Some_conv)
  obtain i f evs s1 where num: "id_and_fanout one rnd s = ((i, f), evs, s1)" by (metis prod.collapse)
  note num' = numbered [OF num rnd]
  then have s1: "sender_inv s1" "snd_endpoints s1 = snd_endpoints s" using inv by auto
  obtain sent s2 where reg: "register_notifier tx i s1 = (sent, s2)" by fastforce
  note s2 = notifier_inv [OF s1(1) reg]
  obtain m1 where stamp: "stamp_message i f s1 m = Some m1" and m1: "publish_ok m1" "get_id m1 = Some i"
      "metadata m1 = metadata m" "get_encoded_dst m1 = get_encoded_dst m"
    using stamp_message_ok [OF m] by blast
  have meta: "contains_metadata PUBLISH_TO m1 \<longleftrightarrow> one" using m1(3) by (simp add: contains_metadata_def one_def)
  have push: "\<exists>b. pb_push m1 (snd_buffer s2) = Some b \<and> sender_inv (s2\<lparr>snd_buffer := b\<rparr>)" if "\<not> one"
  proof -
    have d: "pb_inv (snd_buffer s2)" "\<forall>i m. pb_get (snd_buffer s2) i = Some m \<longrightarrow> buffered_ok m"
      using sender_invD(1,2) s2 by blast+
    have "buffered_ok m1" using m1(1) meta that by (simp add: buffered_ok_def)
    from buffer_push_ok [OF d this m1(2)] num' sender_inv_buffer s2 show ?thesis by blast
  qed
  show ?thesis
  proof (cases "one \<and> hget (snd_endpoints s) dst = None")
    case True
    then show ?thesis using dst inv by (auto simp: sender_on_publish_def one_def)
  next
    case False
    define b where "b = (if one then snd_buffer s2 else the (pb_push m1 (snd_buffer s2)))"
    have b: "sender_inv (s2\<lparr>snd_buffer := b\<rparr>)" "\<not> one \<Longrightarrow> pb_push m1 (snd_buffer s2) = Some b"
      using push conjunct1 [OF s2] by (auto simp: b_def)
    define s3 where "s3 = (if snd_timer_factory s2 \<noteq> None \<and> \<not> one then s2\<lparr>snd_buffer := b\<rparr> else s2)"
    have s3: "sender_inv s3" "snd_endpoints s3 = snd_endpoints s2" using b s2 by (auto simp: s3_def)
    have known: "\<exists>e. get_encoded_dst m1 = Some e \<and> hget (snd_endpoints s3) e \<noteq> None" if "contains_metadata PUBLISH_TO m1"
      using that False dst m1(4) meta s1(2) s2 s3(2) by auto
    have dst_known: "(if one then map_option (\<lambda>e. hget (snd_endpoints s) e \<noteq> None) (get_encoded_dst m) else Some True) = Some True"
      using False dst by auto
    have go: "sender_on_publish rnd m tx s =
        (if snd_endpoints s2 = []
         then Option.bind (if one then Some (snd_buffer s2) else pb_push m1 (snd_buffer s2))
                (\<lambda>b. Some (Inr [], evs @ sent, s2\<lparr>snd_buffer := b, snd_to_flush := True\<rparr>))
         else Option.bind (if snd_timer_factory s2 \<noteq> None \<and> \<not> one then pb_push m1 (snd_buffer s2) else Some (snd_buffer s2))
                (\<lambda>b. Option.bind (set_timer_and_send m1 (s2\<lparr>snd_buffer := b\<rparr>)) (\<lambda>(out, s3). Some (Inr out, evs @ sent, s3))))"
      unfolding sender_on_publish_def one_def [symmetric] Let_def dst_known by (simp add: num stamp reg)
    show ?thesis
    proof (cases "snd_endpoints s2 = []")
      case True
      then show ?thesis
        using b conjunct1 [OF s2] by (simp add: go)
    next
      case ne: False
      then obtain s' where "set_timer_and_send m1 s3 = Some ([ToSlim m1], s')" "sender_inv s'"
        using send_inv [OF s3(1) m1(1) _ known] s3(2) by auto
      then show ?thesis
        using b(2) ne by (auto simp: go s3_def split: if_splits)
    qed
  qed
qed

section \<open>The other calls\<close>

lemma failure_inv:
  assumes "sender_inv s"
  shows "sender_inv (snd (sender_on_failure i err s))"
proof -
  note d = sender_invD [OF assms]
  define per where "per = (case hget (snd_pending_acks s) i of
      Some (gt, _) \<Rightarrow> fold (untrack_ack i) (gt_missing gt) (snd_acks_per_endpoint s) | None \<Rightarrow> snd_acks_per_endpoint s)"
  have "owes per e j" if "owes (snd_acks_per_endpoint s) e j" "j \<noteq> i" for e j
    using that by (auto simp: per_def split: option.splits)
  then have "entry_ok (snd_endpoints s) per j gt" if "hget (hdel i (snd_pending_acks s)) j = Some (gt, st)" for j gt st
    using that entry_ok_mono [OF d(8), of j gt st per] by (auto split: if_splits)
  moreover have "hmap_wf per" using d(4) by (auto simp: per_def split: option.split)
  ultimately show ?thesis
    using d unfolding sender_inv_def by (simp add: sender_on_failure_def Let_def flip: per_def)
qed

lemma resend_to_ok:
  assumes "publish_ok m"
  shows "\<exists>out. resend_to m es eps = Some out"
  using assms by (induction es) (auto elim!: publish_okE simp: update_slim_header_def split: option.split)

lemma buffered_get: "sender_inv s \<Longrightarrow> pb_get (snd_buffer s) i = Some m \<Longrightarrow> publish_ok m"
  using sender_invD(2) by (auto simp: buffered_ok_def)

lemma timeout_inv:
  assumes "sender_inv s"
  shows "\<exists>r evs s'. sender_timer_timeout i s = Some (r, evs, s') \<and> sender_inv s'"
proof -
  have fail: "\<exists>evs s'. sender_timer_failure i s = (evs, s') \<and> sender_inv s'"
    using failure_inv [OF assms] by (metis prod.collapse sender_timer_failure_def)
  have "\<exists>out. resend_to m es (snd_endpoints s) = Some out" if "pb_get (snd_buffer s) i = Some m" for m es
    using resend_to_ok buffered_get [OF assms that] by blast
  with fail assms show ?thesis
    unfolding sender_timer_timeout_def Let_def
    by (fastforce split: option.split prod.split)
qed

lemma flush_inv:
  assumes "sender_inv s" "snd_endpoints s \<noteq> []" "\<forall>m\<in>set ps. buffered_ok m"
  shows "\<exists>s'. flush_messages ps s = Some (map ToSlim ps, s') \<and> sender_inv s' \<and> snd_endpoints s' = snd_endpoints s"
  using assms
proof (induction ps arbitrary: s)
  case (Cons p ps)
  then obtain s1 where "set_timer_and_send p s = Some ([ToSlim p], s1)" "sender_inv s1" "snd_endpoints s1 = snd_endpoints s"
    using send_inv [of s p] by (auto simp: buffered_ok_def)
  with Cons.IH [of s1] Cons.prems show ?case by auto
qed simp

lemma add_endpoint_inv:
  assumes inv: "sender_inv s" and name: "\<And>n. part_name p = Some n \<Longrightarrow> enc_name n \<noteq> None"
  shows "\<exists>r evs s'. sender_add_endpoint p s = Some (r, evs, s') \<and> sender_inv s'"
proof (cases "(part_settings p, part_name p)")
  case (Pair a b)
  consider "a = None \<or> b = None" | settings n where "a = Some settings" "b = Some n" by (cases a; cases b) auto
  then show ?thesis
  proof cases
    case 1
    then show ?thesis using inv Pair by (auto simp: sender_add_endpoint_def split: option.splits)
  next
    case 2
    then obtain e where e: "enc_name n = Some e" using name Pair by auto
    let ?s = "s\<lparr>snd_endpoints := hput e n (snd_endpoints s)\<rparr>"
    note d = sender_invD [OF inv]
    have s1: "sender_inv ?s"
      using d e unfolding sender_inv_def by (auto simp: entry_ok_def split: if_splits)
    have "\<forall>m\<in>set (pb_iter (snd_buffer s)). buffered_ok m"
      using pb_iter_correct [OF d(1)] pb_get_ids [OF d(1)] d(2) by fastforce
    moreover have "hput e n (snd_endpoints s) \<noteq> []" by (metis hget_hput fun_upd_same hmap_empty_iff option.distinct(1))
    ultimately obtain s2 where "flush_messages (pb_iter (snd_buffer s)) (?s\<lparr>snd_to_flush := False\<rparr>) = Some (map ToSlim (pb_iter (snd_buffer s)), s2)"
      "sender_inv s2"
      using flush_inv [of "?s\<lparr>snd_to_flush := False\<rparr>"] s1 by auto
    then show ?thesis using 2 Pair e s1 inv by (simp add: sender_add_endpoint_def Let_def)
  qed
qed

lemma remove_endpoint_inv:
  assumes inv: "sender_inv s" and name: "enc_name n = Some e"
  shows "\<exists>s'. sender_remove_endpoint n s = Some s' \<and> sender_inv s' \<and>
    hget (snd_pending_acks s') = (\<lambda>i. without_endpoint e (hget (snd_pending_acks s) i)) \<and>
    snd_notifiers s' = snd_notifiers s \<and> snd_endpoints s' = hdel e (snd_endpoints s)"
proof -
  note d = sender_invD [OF inv]
  define pending where "pending = (case hget (snd_acks_per_endpoint s) e of
      Some ids \<Rightarrow> fold (drop_missing e) ids (snd_pending_acks s) | None \<Rightarrow> snd_pending_acks s)"
  let ?s' = "s\<lparr>snd_pending_acks := pending, snd_acks_per_endpoint := hdel e (snd_acks_per_endpoint s),
    snd_endpoints := hdel e (snd_endpoints s)\<rparr>"
  have same: "without_endpoint e (hget (snd_pending_acks s) i) = hget (snd_pending_acks s) i"
    if "\<not> owes (snd_acks_per_endpoint s) e i" for i
  proof (cases "hget (snd_pending_acks s) i")
    case (Some v)
    moreover obtain gt st where "v = (gt, st)" by fastforce
    ultimately have "e \<notin> set (gt_missing gt)" "gt_missing gt \<noteq> []"
      using d(8) [of i gt st] that by (auto simp: entry_ok_def)
    with Some \<open>v = (gt, st)\<close> show ?thesis by (simp add: without_endpoint_def)
  qed (simp add: without_endpoint_def)
  have get: "hget pending = (\<lambda>i. without_endpoint e (hget (snd_pending_acks s) i))"
    using same by (auto simp: pending_def hget_fold_drop owes_def fun_eq_iff split: option.splits)
  have "entry_ok (hdel e (snd_endpoints s)) (hdel e (snd_acks_per_endpoint s)) i gt"
    if "hget pending i = Some (gt, st)" for i gt st
    using that d(8) unfolding get by (fastforce simp: without_endpoint_Some entry_ok_def)
  moreover have "hmap_wf pending" using d(3) by (auto simp: pending_def split: option.split)
  moreover have "pending = []" if "snd_timer_factory s = None"
    using d(9) [OF that] get by (simp add: hmap_empty_iff without_endpoint_def)
  ultimately have "sender_inv ?s'" using d unfolding sender_inv_def by (auto split: if_splits)
  with get name show ?thesis by (simp add: sender_remove_endpoint_def pending_def)
qed

lemma rtx_reply_ok:
  assumes "publish_ok msg"
  shows "\<exists>m'. rtx_reply src c msg = Some m' \<and> get_id m' = get_id msg \<and> get_content m' = get_content msg \<and>
    get_source m' = get_source msg \<and> get_dst m' = src \<and> get_session_message_type m' = Some RtxReply \<and>
    metadata m' = metadata msg \<and> get_error m' = get_error msg \<and> get_incoming_conn m' = get_incoming_conn msg"
  using assms
  by (elim publish_okE)
     (simp add: rtx_reply_def update_slim_header_def update_session_header_def accessor_defs get_content_def)

lemma rtx_ok:
  assumes inv: "sender_inv s" and m: "publish_ok m" "get_incoming_conn m \<noteq> None"
  shows "sender_on_rtx x m s \<noteq> None"
proof -
  from m obtain h i c src dst st where m': "get_slim_header m = Some h" "get_id m = Some i" "get_incoming_conn m = Some c"
      "get_source m = Some src" "get_dst m = Some dst" "get_session_type m = Some st"
    by (elim publish_okE) (auto simp: accessor_defs)
  with rtx_reply_ok [of _ "hdr_source h" c] buffered_get [OF inv, of i] show ?thesis
    by (cases "pb_get (snd_buffer s) i") (fastforce simp: sender_on_rtx_def rtx_error_reply_def)+
qed

text \<open>
  A call of the sender is in order when its message is a valid publish message that came in on a
  connection, its random id is 32 bits wide, and the name of its endpoint is complete.
\<close>

datatype sender_call =
    Call_Message nat proto_message "nat option"
  | Call_Timeout nat
  | Call_Timer_Failure nat
  | Call_Slim_Failure session_error
  | Call_Add participant
  | Call_Remove proto_name
  | Call_Drain
  | Call_Close

fun call_ok :: "sender_call \<Rightarrow> bool" where
  "call_ok (Call_Message rnd m _) \<longleftrightarrow>
     rnd < 2 ^ 32 \<and> publish_ok m \<and> (get_session_message_type m = Some RtxRequest \<longrightarrow> get_incoming_conn m \<noteq> None)"
| "call_ok (Call_Add p) \<longleftrightarrow> (\<forall>n. part_name p = Some n \<longrightarrow> enc_name n \<noteq> None)"
| "call_ok (Call_Remove n) \<longleftrightarrow> enc_name n \<noteq> None"
| "call_ok _ \<longleftrightarrow> True"

fun do_call :: "externs \<Rightarrow> sender_call \<Rightarrow> session_sender \<Rightarrow> session_sender handled" where
  "do_call x (Call_Message rnd m tx) s = sender_on_message x rnd m tx s"
| "do_call x (Call_Timeout i) s = sender_timer_timeout i s"
| "do_call x (Call_Timer_Failure i) s = (case sender_timer_failure i s of (evs, s') \<Rightarrow> Some (Inr [], evs, s'))"
| "do_call x (Call_Slim_Failure e) s = sender_slim_failure e s"
| "do_call x (Call_Add p) s = sender_add_endpoint p s"
| "do_call x (Call_Remove n) s = map_option (\<lambda>s'. (Inr [], [], s')) (sender_remove_endpoint n s)"
| "do_call x Call_Drain s = Some (Inr [], [], sender_start_drain s)"
| "do_call x Call_Close s = (case sender_close s of (evs, s') \<Rightarrow> Some (Inr [], evs, s'))"

lemma publish_ok_remove [simp]: "publish_ok (remove_metadata k m) = publish_ok m"
  by (simp add: publish_ok_def remove_metadata_def accessor_defs cong: option.case_cong)

lemma message_inv:
  assumes "sender_inv s" "call_ok (Call_Message rnd m tx)"
  shows "\<exists>r evs s'. sender_on_message x rnd m tx s = Some (r, evs, s') \<and> sender_inv s'"
proof (cases "snd_draining s = Completed")
  case True
  then show ?thesis using assms by (simp add: sender_on_message_def)
next
  case False
  from assms(2) have m: "publish_ok m" "rnd < 2 ^ 32" by simp_all
  then obtain mt where mt: "get_session_message_type m = Some mt"
    by (auto simp: publish_ok_def get_session_message_type_def)
  note pub = publish_inv [OF assms(1) _ m(2), of "if snd_session_type s = PointToPoint then remove_metadata PUBLISH_TO m else m" tx]
  obtain evs s1 where ack: "sender_on_ack m s = Some (evs, s1)" "sender_inv s1" using ack_inv [OF assms(1) m(1)] by blast
  have rtx: "\<exists>r. sender_on_rtx x m s1 = Some r" if "mt = RtxRequest"
    using rtx_ok [OF ack(2) m(1)] assms(2) mt that by auto
  show ?thesis
    using False mt pub m ack rtx assms(1) by (cases mt) (auto simp add: sender_on_message_def)
qed

lemma call_inv:
  assumes inv: "sender_inv s" and ok: "call_ok c"
  shows "\<exists>r evs s'. do_call x c s = Some (r, evs, s') \<and> sender_inv s'"
proof (cases c)
  case (Call_Timer_Failure i)
  then show ?thesis using failure_inv [OF inv, of i "MessageSendRetryFailed i"]
    by (cases "sender_on_failure i (MessageSendRetryFailed i) s") (simp add: sender_timer_failure_def)
next
  case (Call_Slim_Failure e)
  have "\<exists>evs s'. sender_on_failure j e s = (evs, s') \<and> sender_inv s'" for j
    using failure_inv [OF inv] by (metis prod.collapse)
  with Call_Slim_Failure inv show ?thesis
    by (auto simp: sender_slim_failure_def split: option.split prod.split)
next
  case (Call_Add p)
  then show ?thesis using add_endpoint_inv [OF inv, of p] ok by auto
next
  case (Call_Remove n)
  then show ?thesis using remove_endpoint_inv [OF inv] ok by fastforce
next
  case Call_Close
  then show ?thesis using sender_invD [OF inv] unfolding sender_inv_def by (simp add: sender_close_def)
qed (use message_inv [OF inv] timeout_inv [OF inv] inv ok in \<open>auto simp: sender_start_drain_def\<close>)

fun sender_run ::
  "externs \<Rightarrow> sender_call list \<Rightarrow> session_sender \<Rightarrow> ((session_output \<times> session_event list) list \<times> session_sender) option" where
  "sender_run x [] s = Some ([], s)"
| "sender_run x (c # cs) s =
     do {
       (r, evs, s1) \<leftarrow> do_call x c s;
       (rest, s2) \<leftarrow> sender_run x cs s1;
       Some ((case r of Inr out \<Rightarrow> out | Inl _ \<Rightarrow> [], evs) # rest, s2)
     }"

lemma run_inv:
  assumes "sender_inv s" "\<forall>c\<in>set cs. call_ok c"
  shows "\<exists>trace s'. sender_run x cs s = Some (trace, s') \<and> sender_inv s'"
  using assms
proof (induction cs arbitrary: s)
  case (Cons c cs)
  then obtain r evs s1 where "do_call x c s = Some (r, evs, s1)" "sender_inv s1" using call_inv [of s c x] by auto
  with Cons.IH [of s1] Cons.prems show ?case by auto
qed simp

section \<open>Collecting acknowledgements\<close>

text \<open>
  The channel \<open>tx\<close> waits for message \<open>i\<close>, which the endpoints in \<open>missing\<close> still owe; or nothing
  will ever be sent on it again.
\<close>

definition awaits :: "nat \<Rightarrow> nat \<Rightarrow> encoded_name set \<Rightarrow> session_sender \<Rightarrow> bool" where
  "awaits tx i missing s \<longleftrightarrow>
     (\<exists>gt stored. hget (snd_pending_acks s) i = Some (gt, stored) \<and> set (gt_missing gt) = missing) \<and>
     hget (snd_notifiers s) i = Some tx \<and> (\<forall>j. hget (snd_notifiers s) j = Some tx \<longrightarrow> j = i)"

definition silent :: "nat \<Rightarrow> session_sender \<Rightarrow> bool" where
  "silent tx s \<longleftrightarrow> (\<forall>j. hget (snd_notifiers s) j \<noteq> Some tx)"

definition outcomes :: "nat \<Rightarrow> session_event list \<Rightarrow> (session_error + unit) list" where
  "outcomes tx evs = List.map_filter (\<lambda>e. case e of Notified t r \<Rightarrow> if t = tx then Some r else None | _ \<Rightarrow> None) evs"

lemma outcomes_simps [simp]:
  "outcomes tx [] = []" "outcomes tx (Notified t r # evs) = (if t = tx then [r] else []) @ outcomes tx evs"
  "outcomes tx (Stored k v # evs) = outcomes tx evs"
  "outcomes tx (evs @ evs') = outcomes tx evs @ outcomes tx evs'"
  by (simp_all add: outcomes_def map_filter_def)

lemma outcomes_signal: "outcomes tx (signal t r) = (if t = Some tx then [r] else [])"
  by (simp add: signal_def split: option.split)

lemma ack_silent:
  assumes "silent tx s" "sender_on_ack a s = Some (evs, s')"
  shows "silent tx s' \<and> outcomes tx evs = []"
  using assms
  by (auto simp: sender_on_ack_def ack_pending_def silent_def bind_eq_Some_conv Let_def outcomes_signal
      split: prod.splits option.splits if_splits)

lemma ack_awaits:
  assumes aw: "awaits tx i missing s" and ack: "sender_on_ack a s = Some (evs, s')"
    and a: "get_id a = Some k" "get_encoded_source a = Some src"
  defines "left \<equiv> (if k = i then missing - {src} else missing)"
  shows "(left = {} \<and> silent tx s' \<and> outcomes tx evs = [Inr ()]) \<or>
    ((left \<noteq> {} \<or> missing = {}) \<and> awaits tx i left s' \<and> outcomes tx evs = [])"
proof -
  from aw have uniq: "\<forall>j. hget (snd_notifiers s) j = Some tx \<longrightarrow> j = i" unfolding awaits_def by blast
  from aw obtain gt stored where gt: "hget (snd_pending_acks s) i = Some (gt, stored)" "set (gt_missing gt) = missing"
      "hget (snd_notifiers s) i = Some tx"
    unfolding awaits_def by blast
  obtain s1 where s1: "ack_pending k src s = (evs, s1)" and s': "snd_pending_acks s' = snd_pending_acks s1"
      "snd_notifiers s' = snd_notifiers s1"
    using ack a by (auto simp: sender_on_ack_def split: prod.splits)
  have left: "k = i \<Longrightarrow> left = set (removeAll src (gt_missing gt))" using gt(2) by (simp add: left_def)
  show ?thesis
  proof (cases "k = i \<and> removeAll src (gt_missing gt) = []")
    case True
    then have "evs = [Notified tx (Inr ())]" "snd_notifiers s1 = hdel i (snd_notifiers s)"
      using s1 gt(1,3) by (auto simp: ack_pending_def signal_def)
    moreover have "left = {}" using True left by simp
    ultimately show ?thesis using uniq s'(2) by (auto simp: silent_def)
  next
    case False
    have "hget (snd_pending_acks s1) i = (if k = i then Some (gt\<lparr>gt_missing := removeAll src (gt_missing gt)\<rparr>, stored)
        else hget (snd_pending_acks s) i)"
      using s1 gt(1) False hget_ack_pending [of k src s] by (auto simp: without_endpoint_def)
    then have "\<exists>g st. hget (snd_pending_acks s1) i = Some (g, st) \<and> set (gt_missing g) = left"
      using gt(1,2) by (auto simp: left_def)
    moreover have "k = i \<Longrightarrow> left \<noteq> {}" using False left by (simp del: set_removeAll)
    moreover have "outcomes tx evs = [] \<and> hget (snd_notifiers s1) i = Some tx \<and> (\<forall>j. hget (snd_notifiers s1) j = Some tx \<longrightarrow> j = i)"
    proof (cases "k = i")
      case True
      then have "evs = []" "snd_notifiers s1 = snd_notifiers s"
        using s1 gt(1) False by (auto simp: ack_pending_def Let_def)
      then show ?thesis using gt(3) uniq by (metis outcomes_simps(1))
    next
      case other: False
      then have k: "hget (snd_notifiers s) k \<noteq> Some tx" using uniq by blast
      then have "outcomes tx evs = []" "\<forall>j. j \<noteq> k \<longrightarrow> hget (snd_notifiers s1) j = hget (snd_notifiers s) j"
          "hget (snd_notifiers s1) k \<noteq> Some tx"
        using s1 by (auto simp: ack_pending_def Let_def outcomes_signal split: option.splits if_splits)
      with other gt(3) uniq show ?thesis by metis
    qed
    ultimately show ?thesis using s' by (auto simp: awaits_def left_def)
  qed
qed

text \<open>The endpoints that acknowledged message \<open>i\<close>.\<close>

definition acked_by :: "nat \<Rightarrow> proto_message list \<Rightarrow> encoded_name set" where
  "acked_by i acks = {e. \<exists>a\<in>set acks. get_id a = Some i \<and> get_encoded_source a = Some e}"

definition is_ack :: "proto_message \<Rightarrow> bool" where
  "is_ack a \<longleftrightarrow> publish_ok a \<and> get_session_message_type a = Some MsgAck"

lemma ack_call:
  assumes "is_ack a" "sender_inv s" "snd_timer_factory s \<noteq> None" "snd_draining s \<noteq> Completed"
  shows "\<exists>evs s'. do_call x (Call_Message rnd a None) s = Some (Inr [], evs, s') \<and> sender_on_ack a s = Some (evs, s') \<and>
    sender_inv s' \<and> snd_timer_factory s' = snd_timer_factory s \<and> snd_draining s' = snd_draining s"
proof -
  obtain evs s' where ack: "sender_on_ack a s = Some (evs, s')" "sender_inv s'"
    using ack_inv [OF assms(2), of a] assms(1) by (auto simp: is_ack_def)
  from ack(1) obtain src i where
    "s' = (snd (ack_pending i src s))\<lparr>snd_acks_per_endpoint := untrack_ack i src (snd_acks_per_endpoint (snd (ack_pending i src s)))\<rparr>"
    by (auto simp: sender_on_ack_def bind_eq_Some_conv split_beta)
  then have "snd_timer_factory s' = snd_timer_factory s" "snd_draining s' = snd_draining s"
    by (simp_all add: ack_pending_other)
  moreover have "do_call x (Call_Message rnd a None) s = Some (Inr [], evs, s')"
    using ack(1) assms(1,3,4) by (simp add: is_ack_def sender_on_message_def signal_def del: not_None_eq)
  ultimately show ?thesis using ack by blast
qed

lemma acks_silent:
  assumes "\<forall>a\<in>set acks. is_ack a" "sender_inv s" "snd_timer_factory s \<noteq> None" "snd_draining s \<noteq> Completed" "silent tx s"
  shows "\<exists>trace s'. sender_run x (map (\<lambda>a. Call_Message rnd a None) acks) s = Some (trace, s') \<and>
    outcomes tx (concat (map snd trace)) = []"
  using assms
proof (induction acks arbitrary: s)
  case (Cons a acks)
  then obtain evs s1 where s1: "do_call x (Call_Message rnd a None) s = Some (Inr [], evs, s1)" "sender_on_ack a s = Some (evs, s1)"
      "sender_inv s1" "snd_timer_factory s1 = snd_timer_factory s" "snd_draining s1 = snd_draining s"
    using ack_call [of a s x rnd] by auto
  have quiet: "silent tx s1" "outcomes tx evs = []" using ack_silent [OF Cons.prems(5) s1(2)] by simp_all
  obtain trace s' where "sender_run x (map (\<lambda>a. Call_Message rnd a None) acks) s1 = Some (trace, s')"
      "outcomes tx (concat (map snd trace)) = []"
    using Cons.IH [OF _ s1(3) _ _ quiet(1)] Cons.prems(1,3,4) s1(4,5) by auto
  with s1(1) quiet(2) show ?case by simp
qed simp

lemma acks_collected:
  assumes "\<forall>a\<in>set acks. is_ack a" "sender_inv s" "snd_timer_factory s \<noteq> None" "snd_draining s \<noteq> Completed"
    and "awaits tx i missing s" "missing \<noteq> {}"
  shows "\<exists>trace s'. sender_run x (map (\<lambda>a. Call_Message rnd a None) acks) s = Some (trace, s') \<and>
    outcomes tx (concat (map snd trace)) = (if missing \<subseteq> acked_by i acks then [Inr ()] else [])"
  using assms
proof (induction acks arbitrary: s missing)
  case Nil
  then show ?case by (simp add: acked_by_def)
next
  case (Cons a acks)
  then obtain evs s1 where s1: "do_call x (Call_Message rnd a None) s = Some (Inr [], evs, s1)" "sender_on_ack a s = Some (evs, s1)"
      "sender_inv s1" "snd_timer_factory s1 = snd_timer_factory s" "snd_draining s1 = snd_draining s"
    using ack_call [of a s x rnd] by auto
  obtain k src where a: "get_id a = Some k" "get_encoded_source a = Some src"
    using Cons.prems(1) by (auto simp: is_ack_def publish_ok_def get_id_def)
  define left where "left = (if k = i then missing - {src} else missing)"
  have iff: "missing \<subseteq> acked_by i (a # acks) \<longleftrightarrow> left \<subseteq> acked_by i acks"
    using a by (auto simp: acked_by_def left_def)
  from ack_awaits [OF Cons.prems(5) s1(2) a] consider
      "left = {}" "silent tx s1" "outcomes tx evs = [Inr ()]" | "left \<noteq> {}" "awaits tx i left s1" "outcomes tx evs = []"
    using Cons.prems(6) unfolding left_def by auto
  then show ?case
  proof cases
    case 1
    then obtain trace s' where "sender_run x (map (\<lambda>a. Call_Message rnd a None) acks) s1 = Some (trace, s')"
        "outcomes tx (concat (map snd trace)) = []"
      using acks_silent [of acks s1 tx x rnd] Cons.prems s1 by auto
    with 1 s1(1) show ?thesis unfolding iff by simp
  next
    case 2
    then obtain trace s' where "sender_run x (map (\<lambda>a. Call_Message rnd a None) acks) s1 = Some (trace, s')"
        "outcomes tx (concat (map snd trace)) = (if left \<subseteq> acked_by i acks then [Inr ()] else [])"
      using Cons.IH [OF _ s1(3) _ _ 2(2,1)] Cons.prems s1 by auto
    with 2 s1(1) show ?thesis unfolding iff by simp
  qed
qed

section \<open>Publishing to the group\<close>

lemma publish_awaits:
  assumes inv: "sender_inv s" and s: "snd_timer_factory s \<noteq> None" "snd_endpoints s \<noteq> []"
    and m: "publish_ok m" "\<not> contains_metadata PUBLISH_TO m" and tx: "silent tx s" and rnd: "rnd < 2 ^ 32"
  shows "\<exists>i m1 evs s1. sender_on_publish rnd m (Some tx) s = Some (Inr [ToSlim m1], evs, s1) \<and> get_id m1 = Some i \<and>
    i = (snd_next_id s + 1) mod 2 ^ 32 mod 2 ^ 31 \<and> get_content m1 = get_content m \<and> sender_inv s1 \<and>
    awaits tx i (set (hkeys (snd_endpoints s))) s1 \<and>
    snd_timer_factory s1 = snd_timer_factory s \<and> snd_draining s1 = snd_draining s \<and> outcomes tx evs = []"
proof -
  obtain i f evs s1 where num: "id_and_fanout False rnd s = ((i, f), evs, s1)" by (metis prod.collapse)
  then have i: "i = (snd_next_id s + 1) mod 2 ^ 32 mod 2 ^ 31" "s1 = s\<lparr>snd_next_id := i\<rparr>" "outcomes tx evs = []"
    by (auto simp: id_and_fanout_def Let_def MAX_PUBLISH_ID_def split: option.splits)
  obtain factory where factory: "snd_timer_factory s = Some factory" using s by auto
  let ?s2 = "s1\<lparr>snd_notifiers := hput i tx (snd_notifiers s1)\<rparr>"
  have reg: "register_notifier (Some tx) i s1 = ([], ?s2)" using i(2) factory by (simp add: register_notifier_def)
  have inv2: "sender_inv ?s2" using inv sender_invD(6) [OF inv] i(2) by (intro sender_inv_notifiers) simp_all
  obtain m1 where stamp: "stamp_message i f s1 m = Some m1" and m1: "publish_ok m1" "get_id m1 = Some i" "metadata m1 = metadata m"
      "get_content m1 = get_content m"
    using stamp_message_ok [OF m(1)] by blast
  have one: "\<not> contains_metadata PUBLISH_TO m1" using m(2) m1(3) by (simp add: contains_metadata_def)
  obtain mt where mt: "get_session_message_type m1 = Some mt"
    using m1(1) by (auto simp: publish_ok_def get_session_message_type_def)
  have "i < 2 ^ 32" using i(1) by simp
  then obtain b where b: "pb_push m1 (snd_buffer s) = Some b" "pb_inv b" "\<forall>j p. pb_get b j = Some p \<longrightarrow> buffered_ok p"
    using buffer_push_ok [OF sender_invD(1) [OF inv] _ _ m1(2)] sender_invD(2) [OF inv] m1(1) one
    by (auto simp: buffered_ok_def)
  let ?s3 = "?s2\<lparr>snd_buffer := b\<rparr>"
  have inv3: "sender_inv ?s3" using sender_inv_buffer [OF inv2 b(2,3)] .
  obtain s4 where send: "set_timer_and_send m1 ?s3 = Some ([ToSlim m1], s4)" "sender_inv s4"
    using send_inv [OF inv3 m1(1)] one s(2) i(2) by auto
  then have s4: "hget (snd_pending_acks s4) i = Some (\<lparr>gt_missing = hkeys (snd_endpoints s),
        gt_timer = create_and_start_timer factory i mt None\<rparr>, None)" "snd_notifiers s4 = hput i tx (snd_notifiers s)"
      "snd_timer_factory s4 = snd_timer_factory s" "snd_draining s4 = snd_draining s"
    using one m1(2) mt factory i(2) by (auto simp: set_timer_and_send_def)
  have "awaits tx i (set (hkeys (snd_endpoints s))) s4"
    using s4(1,2) tx by (auto simp: awaits_def silent_def)
  moreover have "sender_on_publish rnd m (Some tx) s = Some (Inr [ToSlim m1], evs, s4)"
    using m(2) s(2) b(1) factory send(1) unfolding i(2)
    by (simp add: sender_on_publish_def num [unfolded i(2)] stamp [unfolded i(2)] reg [unfolded i(2)])
  ultimately show ?thesis using m1(2,4) send(2) s4(3,4) i by blast
qed

section \<open>A notifier nobody will answer\<close>

text \<open>Message \<open>j\<close> is no longer pending, although \<open>tx\<close> still waits for it.\<close>

definition stranded :: "nat \<Rightarrow> nat \<Rightarrow> session_sender \<Rightarrow> bool" where
  "stranded tx j s \<longleftrightarrow> hget (snd_pending_acks s) j = None \<and> hget (snd_notifiers s) j = Some tx \<and>
     (\<forall>k. hget (snd_notifiers s) k = Some tx \<longrightarrow> k = j)"

lemma ack_stranded:
  assumes str: "stranded tx j s" and ack: "sender_on_ack a s = Some (evs, s')"
  shows "stranded tx j s' \<and> outcomes tx evs = []"
proof -
  obtain k src where k: "get_id a = Some k" "get_encoded_source a = Some src"
    using ack by (auto simp: sender_on_ack_def bind_eq_Some_conv)
  obtain s1 where s1: "ack_pending k src s = (evs, s1)" and s': "snd_pending_acks s' = snd_pending_acks s1"
      "snd_notifiers s' = snd_notifiers s1"
    using ack k by (auto simp: sender_on_ack_def split: prod.splits)
  have uniq: "\<forall>k. hget (snd_notifiers s) k = Some tx \<longrightarrow> k = j" and j: "hget (snd_pending_acks s) j = None" "hget (snd_notifiers s) j = Some tx"
    using str unfolding stranded_def by blast+
  have pend: "hget (snd_pending_acks s1) j = None"
    using hget_ack_pending [of k src s] s1 j(1) by (auto simp: without_endpoint_def)
  show ?thesis
  proof (cases "k = j")
    case True
    then have "evs = []" "s1 = s" using s1 j(1) by (simp_all add: ack_pending_def)
    then show ?thesis unfolding stranded_def s' using j uniq by (metis outcomes_simps(1))
  next
    case False
    then have "hget (snd_notifiers s) k \<noteq> Some tx" using uniq by blast
    then have quiet: "outcomes tx evs = []" and same: "\<And>l. l \<noteq> k \<Longrightarrow> hget (snd_notifiers s1) l = hget (snd_notifiers s) l"
        and k: "hget (snd_notifiers s1) k \<noteq> Some tx"
      using s1 by (auto simp: ack_pending_def Let_def outcomes_signal split: option.splits if_splits)
    have "l = j" if "hget (snd_notifiers s1) l = Some tx" for l
      using that same [of l] k uniq by (cases "l = k") auto
    moreover have "hget (snd_notifiers s1) j = Some tx" using same [of j] False j(2) by simp
    ultimately show ?thesis unfolding stranded_def s' using pend quiet by blast
  qed
qed

lemma acks_stranded:
  assumes "\<forall>a\<in>set acks. is_ack a" "sender_inv s" "snd_timer_factory s \<noteq> None" "snd_draining s \<noteq> Completed" "stranded tx j s"
  shows "\<exists>trace s'. sender_run x (map (\<lambda>a. Call_Message rnd a None) acks) s = Some (trace, s') \<and>
    outcomes tx (concat (map snd trace)) = [] \<and> stranded tx j s'"
  using assms
proof (induction acks arbitrary: s)
  case (Cons a acks)
  then obtain evs s1 where s1: "do_call x (Call_Message rnd a None) s = Some (Inr [], evs, s1)" "sender_on_ack a s = Some (evs, s1)"
      "sender_inv s1" "snd_timer_factory s1 = snd_timer_factory s" "snd_draining s1 = snd_draining s"
    using ack_call [of a s x rnd] by auto
  have quiet: "stranded tx j s1" "outcomes tx evs = []" using ack_stranded [OF Cons.prems(5) s1(2)] by simp_all
  obtain trace s' where "sender_run x (map (\<lambda>a. Call_Message rnd a None) acks) s1 = Some (trace, s')"
      "outcomes tx (concat (map snd trace)) = []" "stranded tx j s'"
    using Cons.IH [OF _ s1(3) _ _ quiet(1)] Cons.prems(1,3,4) s1(4,5) by auto
  with s1(1) quiet(2) show ?case by simp
qed simp

text \<open>That is what removing the last endpoint leaves behind; only closing the session answers.\<close>

lemma remove_strands:
  assumes inv: "sender_inv s" and aw: "awaits tx j {e} s" and n: "enc_name n = Some e"
  shows "\<exists>s1. sender_remove_endpoint n s = Some s1 \<and> stranded tx j s1 \<and> sender_inv s1 \<and>
    snd_timer_factory s1 = snd_timer_factory s \<and> snd_draining s1 = snd_draining s"
proof -
  obtain s1 where s1: "sender_remove_endpoint n s = Some s1" "sender_inv s1" "snd_notifiers s1 = snd_notifiers s"
      and left: "hget (snd_pending_acks s1) = (\<lambda>i. without_endpoint e (hget (snd_pending_acks s) i))"
    using remove_endpoint_inv [OF inv n] by blast
  from aw obtain gt stored where gt: "hget (snd_pending_acks s) j = Some (gt, stored)" "set (gt_missing gt) = {e}"
    unfolding awaits_def by blast
  have "removeAll e (gt_missing gt) = []" using gt(2) by (metis Diff_cancel set_empty set_removeAll)
  then have "hget (snd_pending_acks s1) j = None" using left gt(1) by (simp add: without_endpoint_def)
  moreover have "snd_timer_factory s1 = snd_timer_factory s" "snd_draining s1 = snd_draining s"
    using s1(1) n by (auto simp: sender_remove_endpoint_def Let_def)
  ultimately show ?thesis using s1 aw unfolding stranded_def awaits_def by metis
qed

lemma hvalues_once:
  assumes wf: "hmap_wf m" and j: "hget m j = Some v" and uniq: "\<forall>k. hget m k = Some v \<longrightarrow> k = j"
  shows "filter (\<lambda>w. w = v) (hvalues m) = [v]"
proof -
  let ?ps = "filter (\<lambda>p. snd p = v) m"
  have one: "p = (j, v)" if "p \<in> set ?ps" for p
  proof -
    have "(fst p, v) \<in> set m" using that by auto
    then have "hget m (fst p) = Some v" using wf by (intro map_of_is_SomeI) simp_all
    then have "fst p = j" using uniq by blast
    then show ?thesis using that by (cases p) simp
  qed
  moreover have "(j, v) \<in> set ?ps" using j by (simp add: map_of_SomeD)
  ultimately have "set ?ps = {(j, v)}" by blast
  moreover have "distinct ?ps" using wf by (simp add: distinct_map)
  ultimately have "length ?ps = 1" using distinct_card by fastforce
  then obtain p where "?ps = [p]" by (cases ?ps) auto
  then have "?ps = [(j, v)]" using one by simp
  then show ?thesis by (simp add: filter_map comp_def)
qed

lemma outcomes_all: "outcomes tx (map (\<lambda>t. Notified t r) txs) = map (\<lambda>_. r) (filter (\<lambda>t. t = tx) txs)"
  by (induction txs) auto

lemma close_stranded:
  assumes "sender_inv s" "stranded tx j s"
  shows "outcomes tx (fst (sender_close s)) = [Inl SessionClosed]"
proof -
  have "filter (\<lambda>t. t = tx) (hvalues (snd_notifiers s)) = [tx]"
    using hvalues_once [OF sender_invD(6) [OF assms(1)]] assms(2) unfolding stranded_def by blast
  then show ?thesis using outcomes_all [of tx "Inl SessionClosed" "hvalues (snd_notifiers s)"] by (simp add: sender_close_def comp_def)
qed

end
