(* ===== verification/Session_Receiver.thy ===== *)
theory Session_Receiver
  imports Session_Sender Receiver_Buffer
begin

text \<open>
  The receiving half of a session (\<^verbatim>\<open>crates/session/src/session_receiver.rs\<close>): it acknowledges
  messages, keeps one reorder buffer per sender, asks for the retransmission of what is missing and
  hands the messages to the application in order. A timer stops when its entry is removed.
\<close>

section \<open>Model\<close>

record session_receiver =
  rcv_buffer :: "(encoded_name, proto_message receiver_buffer) hmap"
  rcv_pending_rtxs :: "(encoded_name \<times> nat, timer \<times> proto_message) hmap"
  rcv_timer_factory :: "timer_settings option"
  rcv_session_id :: nat
  rcv_local_name :: proto_name
  rcv_session_type :: session_type
  rcv_stream_start :: "nat option"
  rcv_draining :: drain_status

type_synonym received = "((session_error + session_output) \<times> session_receiver) option"

definition receiver_new ::
  "timer_settings option \<Rightarrow> nat \<Rightarrow> proto_name \<Rightarrow> session_type \<Rightarrow> bool \<Rightarrow> session_receiver" where
  "receiver_new settings session_id local_name st signals =
     \<lparr>rcv_buffer = [], rcv_pending_rtxs = [], rcv_timer_factory = (if signals then settings else None),
      rcv_session_id = session_id, rcv_local_name = local_name, rcv_session_type = st,
      rcv_stream_start = (if st = PointToPoint then Some FIRST_MESSAGE_ID else None),
      rcv_draining = NotDraining\<rparr>"

definition resume_streams :: "session_receiver \<Rightarrow> session_receiver" where
  "resume_streams r = r\<lparr>rcv_stream_start := None\<rparr>"

definition retire_pending_retry :: "encoded_name \<Rightarrow> nat \<Rightarrow> session_receiver \<Rightarrow> session_receiver" where
  "retire_pending_retry name i r = r\<lparr>rcv_pending_rtxs := hdel (name, i) (rcv_pending_rtxs r)\<rparr>"

text \<open>What the application gets for an entry the buffer released.\<close>

definition app_result :: "nat \<Rightarrow> proto_message option \<Rightarrow> session_error + proto_message" where
  "app_result session_id recv = (case recv of Some m \<Rightarrow> Inr m | None \<Rightarrow> Inl (MessageLost session_id))"

definition rtx_request ::
  "externs \<Rightarrow> proto_name \<Rightarrow> nat \<Rightarrow> nat \<Rightarrow> session_receiver \<Rightarrow> message_error + proto_message" where
  "rtx_request x source in_conn i r =
     build_publish x 0 (empty_payload (builder_forward_to in_conn
       (session_builder (rcv_local_name r) source (rcv_session_type r) RtxRequest (rcv_session_id r) i)))"

fun send_rtxs :: "externs \<Rightarrow> proto_name \<Rightarrow> nat \<Rightarrow> nat list \<Rightarrow> session_receiver \<Rightarrow> received" where
  "send_rtxs x source in_conn [] r = Some (Inr [], r)"
| "send_rtxs x source in_conn (i # is) r =
     do {
       encoded \<leftarrow> enc_name source;
       case rtx_request x source in_conn i r of
         Inl e \<Rightarrow> Some (Inl (MessageError e), r)
       | Inr rtx \<Rightarrow>
           do {
             factory \<leftarrow> rcv_timer_factory r;
             let timer = create_and_start_timer factory i RtxRequest (Some encoded);
             (rest, r1) \<leftarrow> send_rtxs x source in_conn is
                  (r\<lparr>rcv_pending_rtxs := hput (encoded, i) (timer, rtx) (rcv_pending_rtxs r)\<rparr>);
             Some (map_sum id (\<lambda>out. ToSlim rtx # out) rest, r1)
           }
     }"

definition handle_recv_and_rtx_vectors ::
  "externs \<Rightarrow> proto_name \<Rightarrow> nat \<Rightarrow> proto_message option list \<Rightarrow> nat list \<Rightarrow> session_receiver \<Rightarrow> received" where
  "handle_recv_and_rtx_vectors x source in_conn recv_vec rtx_vec r =
     map_option (\<lambda>(rest, r1). (map_sum id (\<lambda>out. map (ToApp \<circ> app_result (rcv_session_id r)) recv_vec @ out) rest, r1))
       (send_rtxs x source in_conn rtx_vec r)"

definition fresh_buffer :: "session_receiver \<Rightarrow> proto_message receiver_buffer" where
  "fresh_buffer r = (case rcv_stream_start r of Some first \<Rightarrow> rb_starting_at first | None \<Rightarrow> rb_default)"

definition deliver_publish_message :: "externs \<Rightarrow> proto_message \<Rightarrow> session_receiver \<Rightarrow> received" where
  "deliver_publish_message x m r =
     (if rcv_timer_factory r = None \<or> contains_metadata PUBLISH_TO m then Some (Inr [ToApp (Inr m)], r)
      else do {
        source \<leftarrow> get_source m;
        encoded \<leftarrow> enc_name source;
        in_conn \<leftarrow> get_incoming_conn m;
        let b = (case hget (rcv_buffer r) encoded of Some b \<Rightarrow> b | None \<Rightarrow> fresh_buffer r);
        ((recv_vec, rtx_vec), b1) \<leftarrow> on_received_message m b;
        handle_recv_and_rtx_vectors x source in_conn recv_vec rtx_vec (r\<lparr>rcv_buffer := hput encoded b1 (rcv_buffer r)\<rparr>)
      })"

definition receiver_on_publish :: "externs \<Rightarrow> proto_message \<Rightarrow> session_receiver \<Rightarrow> received" where
  "receiver_on_publish x m r =
     do {
       r1 \<leftarrow> (if rcv_timer_factory r \<noteq> None \<and> \<not> contains_metadata PUBLISH_TO m
             then do { e \<leftarrow> get_encoded_source m; i \<leftarrow> get_id m; Some (retire_pending_retry e i r) }
             else Some r);
       deliver_publish_message x m r1
     }"

definition build_ack :: "externs \<Rightarrow> proto_message \<Rightarrow> session_receiver \<Rightarrow> (session_error + session_output) option" where
  "build_ack x m r =
     (if rcv_timer_factory r = None then Some (Inr [])
      else do {
        source \<leftarrow> get_source m;
        in_conn \<leftarrow> get_incoming_conn m;
        sh \<leftarrow> get_session_header m;
        let b = empty_payload (builder_forward_to in_conn
                  (session_builder (rcv_local_name r) source (rcv_session_type r) MsgAck (sh_session_id sh) (sh_message_id sh)));
        let b' = (if contains_metadata PUBLISH_TO m
                  then b\<lparr>b_metadata := hput PUBLISH_TO TRUE_VAL (b_metadata b)\<rparr> else b);
        Some (map_sum MessageError (\<lambda>a. [ToSlim a]) (build_publish x 0 b'))
      })"

definition receiver_on_rtx :: "externs \<Rightarrow> proto_message \<Rightarrow> session_receiver \<Rightarrow> received" where
  "receiver_on_rtx x m r =
     do {
       source \<leftarrow> get_source m;
       encoded \<leftarrow> enc_name source;
       i \<leftarrow> get_id m;
       in_conn \<leftarrow> get_incoming_conn m;
       err \<leftarrow> get_error m;
       let r1 = retire_pending_retry encoded i r;
       if err = None then deliver_publish_message x m r1
       else
         (case hget (rcv_buffer r1) encoded of
            None \<Rightarrow> Some (Inr [], r1)
          | Some b \<Rightarrow>
              (case on_lost_message i b of
                 (recv_vec, b1) \<Rightarrow>
                   handle_recv_and_rtx_vectors x source in_conn recv_vec [] (r1\<lparr>rcv_buffer := hput encoded b1 (rcv_buffer r1)\<rparr>)))
     }"

definition receiver_on_message :: "externs \<Rightarrow> proto_message \<Rightarrow> session_receiver \<Rightarrow> received" where
  "receiver_on_message x m r =
     (if rcv_draining r = Completed then Some (Inl SessionDrainingDrop, r)
      else do {
        mt \<leftarrow> get_session_message_type m;
        case mt of
          Msg \<Rightarrow>
            if rcv_draining r = Initiated then Some (Inl SessionDrainingDrop, r)
            else
              (let m1 = (if rcv_session_type r = PointToPoint then remove_metadata PUBLISH_TO m else m) in
               do {
                 ack \<leftarrow> build_ack x m1 r;
                 case ack of
                   Inl e \<Rightarrow> Some (Inl e, r)
                 | Inr out \<Rightarrow> map_option (\<lambda>(res, r1). (map_sum id (\<lambda>out'. out @ out') res, r1)) (receiver_on_publish x m1 r)
               })
        | RtxReply \<Rightarrow> receiver_on_rtx x m r
        | _ \<Rightarrow> Some (Inr [], r)
      })"

text \<open>The timer of a retransmission request; \<open>log_missing_retry\<close> only writes to the log.\<close>

definition receiver_timer_timeout :: "nat \<Rightarrow> encoded_name \<Rightarrow> session_receiver \<Rightarrow> session_output" where
  "receiver_timer_timeout i name r =
     (case hget (rcv_pending_rtxs r) (name, i) of None \<Rightarrow> [] | Some (_, rtx) \<Rightarrow> [ToSlim rtx])"

definition receiver_timer_failure :: "nat \<Rightarrow> encoded_name \<Rightarrow> session_receiver \<Rightarrow> session_output \<times> session_receiver" where
  "receiver_timer_failure i name r =
     (case hget (rcv_pending_rtxs r) (name, i) of
        None \<Rightarrow> ([], r)
      | Some _ \<Rightarrow>
          (let r1 = retire_pending_retry name i r;
               failed = ToApp (Inl (MessageReceiveRetryFailed i))
           in case hget (rcv_buffer r1) name of
                None \<Rightarrow> ([failed], r1)
              | Some b \<Rightarrow>
                  (case on_lost_message i b of
                     (released, b1) \<Rightarrow>
                       (failed # map (ToApp \<circ> app_result (rcv_session_id r)) (tl released),
                        r1\<lparr>rcv_buffer := hput name b1 (rcv_buffer r1)\<rparr>))))"

definition receiver_remove_endpoint :: "proto_name \<Rightarrow> session_receiver \<Rightarrow> session_receiver option" where
  "receiver_remove_endpoint n r =
     map_option (\<lambda>e. r\<lparr>rcv_buffer := hdel e (rcv_buffer r),
                       rcv_pending_rtxs := filter (\<lambda>((name, _), _). name \<noteq> e) (rcv_pending_rtxs r)\<rparr>) (enc_name n)"

definition receiver_start_drain :: "session_receiver \<Rightarrow> session_receiver" where
  "receiver_start_drain r = r\<lparr>rcv_draining := (if rcv_pending_rtxs r = [] then Completed else Initiated)\<rparr>"

definition receiver_drain_completed :: "session_receiver \<Rightarrow> bool" where
  "receiver_drain_completed r \<longleftrightarrow>
     rcv_draining r = Completed \<or> rcv_draining r = Initiated \<and> rcv_pending_rtxs r = []"

definition receiver_close :: "session_receiver \<Rightarrow> session_receiver" where
  "receiver_close r = r\<lparr>rcv_pending_rtxs := [], rcv_draining := Completed\<rparr>"

end
