(* ===== verification/Session_Receiver_Run.thy ===== *)
theory Session_Receiver_Run
  imports Session_Receiver
begin

text \<open>
  The receiving half of a session in operation: a receiver with several senders behaves as one
  independent reorder buffer per sender.
\<close>

section \<open>One sender\<close>

text \<open>
  The messages that carry data: a message, or the reply to a retransmission request, which came in on
  a connection.
\<close>

definition data_ok :: "proto_message \<Rightarrow> bool" where
  "data_ok m \<longleftrightarrow> publish_ok m \<and> get_incoming_conn m \<noteq> None \<and> \<not> contains_metadata PUBLISH_TO m \<and>
     get_session_message_type m \<in> {Some Msg, Some RtxReply}"

text \<open>The sender could not retransmit the message.\<close>

definition is_refusal :: "proto_message \<Rightarrow> bool" where
  "is_refusal m \<longleftrightarrow> get_session_message_type m = Some RtxReply \<and> get_error m \<noteq> Some None"

text \<open>What one message does to the buffer of its sender, which is made when first needed.\<close>

definition buffer_step ::
  "proto_message receiver_buffer \<Rightarrow> proto_message \<Rightarrow> proto_message receiver_buffer option \<Rightarrow>
   (proto_message option list \<times> proto_message receiver_buffer option) option" where
  "buffer_step fresh m ob =
     (if is_refusal m then
        (case ob of
           None \<Rightarrow> Some ([], None)
         | Some b \<Rightarrow> map_option (\<lambda>i. map_prod id Some (on_lost_message i b)) (get_id m))
      else
        map_option (\<lambda>((out, _), b1). (out, Some b1))
          (on_received_message m (case ob of Some b \<Rightarrow> b | None \<Rightarrow> fresh)))"

fun buffer_steps ::
  "proto_message receiver_buffer \<Rightarrow> proto_message list \<Rightarrow> proto_message receiver_buffer option \<Rightarrow>
   (proto_message option list \<times> proto_message receiver_buffer option) option" where
  "buffer_steps fresh [] ob = Some ([], ob)"
| "buffer_steps fresh (m # ms) ob =
     do {
       (out, ob1) \<leftarrow> buffer_step fresh m ob;
       (outs, ob2) \<leftarrow> buffer_steps fresh ms ob1;
       Some (out @ outs, ob2)
     }"

section \<open>All senders\<close>

lemma rtx_request_ok: "\<exists>rtx. rtx_request x source in_conn i r = Inr rtx"
  by (simp add: rtx_request_def build_publish_def empty_payload_def builder_forward_to_def with_flags_def
      session_builder_def builder_new_def)

lemma send_rtxs_ok:
  assumes "enc_name source \<noteq> None" "rcv_timer_factory r \<noteq> None"
  shows "\<exists>out p. send_rtxs x source in_conn is r = Some (Inr out, r\<lparr>rcv_pending_rtxs := p\<rparr>) \<and> to_app out = [] \<and>
    length (to_slim out) = length is"
  using assms
proof (induction "is" arbitrary: r)
  case Nil
  then show ?case by (auto intro: exI [of _ "rcv_pending_rtxs r"])
next
  case (Cons i "is")
  obtain rtx where rtx: "rtx_request x source in_conn i r = Inr rtx" using rtx_request_ok by blast
  obtain e f where ef: "enc_name source = Some e" "rcv_timer_factory r = Some f" using Cons.prems by auto
  let ?r = "r\<lparr>rcv_pending_rtxs := hput (e, i) (create_and_start_timer f i RtxRequest (Some e), rtx) (rcv_pending_rtxs r)\<rparr>"
  obtain out p where "send_rtxs x source in_conn is ?r = Some (Inr out, ?r\<lparr>rcv_pending_rtxs := p\<rparr>)" "to_app out = []"
      "length (to_slim out) = length is"
    using Cons.IH [of ?r] Cons.prems by auto
  with rtx ef show ?case by auto
qed

lemma handle_vectors_ok:
  assumes "enc_name source \<noteq> None" "rcv_timer_factory r \<noteq> None"
  shows "\<exists>out p. handle_recv_and_rtx_vectors x source in_conn recv rtx r = Some (Inr out, r\<lparr>rcv_pending_rtxs := p\<rparr>) \<and>
    to_app out = map (app_result (rcv_session_id r)) recv \<and> length (to_slim out) = length rtx"
proof -
  obtain out p where "send_rtxs x source in_conn rtx r = Some (Inr out, r\<lparr>rcv_pending_rtxs := p\<rparr>)" "to_app out = []"
      "length (to_slim out) = length rtx"
    using send_rtxs_ok [OF assms] by blast
  then show ?thesis by (auto simp: handle_recv_and_rtx_vectors_def simp flip: map_map)
qed

text \<open>The part of the receiver that data messages leave alone.\<close>

definition same_session :: "session_receiver \<Rightarrow> session_receiver \<Rightarrow> bool" where
  "same_session r r' \<longleftrightarrow>
     rcv_timer_factory r' = rcv_timer_factory r \<and> rcv_session_id r' = rcv_session_id r \<and>
     rcv_stream_start r' = rcv_stream_start r \<and> rcv_draining r' = rcv_draining r \<and>
     rcv_session_type r' = rcv_session_type r \<and> rcv_local_name r' = rcv_local_name r"

text \<open>The result of the whole handler, in terms of the buffer of the sender \<open>e\<close>.\<close>

definition handles_as ::
  "session_receiver \<Rightarrow> encoded_name \<Rightarrow> (proto_message option list \<times> proto_message receiver_buffer option) option \<Rightarrow>
   received \<Rightarrow> bool" where
  "handles_as r e step res \<longleftrightarrow>
     (case step of
        None \<Rightarrow> res = None
      | Some (out, ob) \<Rightarrow>
          \<exists>o' r'. res = Some (Inr o', r') \<and> same_session r r' \<and> to_app o' = map (app_result (rcv_session_id r)) out \<and>
            hget (rcv_buffer r') = (hget (rcv_buffer r))(e := ob))"

lemma deliver_handles:
  assumes m: "data_ok m" "get_encoded_source m = Some e" "\<not> is_refusal m" and r: "rcv_timer_factory r \<noteq> None"
  shows "handles_as r e (buffer_step (fresh_buffer r) m (hget (rcv_buffer r) e)) (deliver_publish_message x m r)"
proof -
  obtain source c where src: "get_source m = Some source" "enc_name source = Some e" "get_incoming_conn m = Some c"
    using m(1,2) by (auto simp: data_ok_def get_encoded_source_def bind_eq_Some_conv)
  have meta: "\<not> contains_metadata PUBLISH_TO m" using m(1) by (simp add: data_ok_def)
  let ?b = "case hget (rcv_buffer r) e of Some b \<Rightarrow> b | None \<Rightarrow> fresh_buffer r"
  show ?thesis
  proof (cases "on_received_message m ?b")
    case None
    then show ?thesis
      using m(3) src meta r by (simp add: handles_as_def buffer_step_def deliver_publish_message_def Let_def)
  next
    case (Some res)
    then obtain recv rtx b1 where b1: "on_received_message m ?b = Some ((recv, rtx), b1)" by (metis prod.collapse)
    let ?r = "r\<lparr>rcv_buffer := hput e b1 (rcv_buffer r)\<rparr>"
    obtain out p where "handle_recv_and_rtx_vectors x source c recv rtx ?r = Some (Inr out, ?r\<lparr>rcv_pending_rtxs := p\<rparr>)"
        "to_app out = map (app_result (rcv_session_id r)) recv"
      using handle_vectors_ok [of source ?r x c recv rtx] src(2) r by auto
    then show ?thesis
      using b1 m(3) src meta r
      by (auto simp: handles_as_def buffer_step_def deliver_publish_message_def Let_def same_session_def)
  qed
qed

lemma same_session_retire: "same_session r (retire_pending_retry e i r)" "rcv_buffer (retire_pending_retry e i r) = rcv_buffer r"
  by (simp_all add: same_session_def retire_pending_retry_def)

lemma handles_retire:
  "handles_as (retire_pending_retry e i r) e' step res \<Longrightarrow> handles_as r e' step res"
  by (auto simp: handles_as_def same_session_def retire_pending_retry_def split: option.splits)

lemma fresh_buffer_retire [simp]: "fresh_buffer (retire_pending_retry e i r) = fresh_buffer r"
  by (simp add: fresh_buffer_def retire_pending_retry_def)

lemma rtx_handles:
  assumes m: "data_ok m" "get_encoded_source m = Some e" "get_session_message_type m = Some RtxReply"
    and r: "rcv_timer_factory r \<noteq> None"
  shows "handles_as r e (buffer_step (fresh_buffer r) m (hget (rcv_buffer r) e)) (receiver_on_rtx x m r)"
proof -
  obtain source c i err where src: "get_source m = Some source" "enc_name source = Some e" "get_incoming_conn m = Some c"
      "get_id m = Some i" "get_error m = Some err"
    using m(1,2)
    by (auto simp: data_ok_def get_encoded_source_def bind_eq_Some_conv publish_ok_def get_id_def get_error_def get_source_def)
  let ?r = "retire_pending_retry e i r"
  have r': "rcv_timer_factory ?r \<noteq> None" using r by (simp add: retire_pending_retry_def)
  show ?thesis
  proof (cases "is_refusal m")
    case False
    then have "receiver_on_rtx x m r = deliver_publish_message x m ?r"
      using src m(3) by (simp add: receiver_on_rtx_def is_refusal_def Let_def)
    then show ?thesis
      using deliver_handles [OF m(1,2) False r', of x] handles_retire by (simp add: same_session_retire)
  next
    case refused: True
    show ?thesis
    proof (cases "hget (rcv_buffer r) e")
      case None
      then show ?thesis
        using refused src same_session_retire
        by (auto simp: handles_as_def buffer_step_def receiver_on_rtx_def is_refusal_def Let_def fun_eq_iff)
    next
      case (Some b)
      obtain recv b1 where b1: "on_lost_message i b = (recv, b1)" by fastforce
      let ?r1 = "?r\<lparr>rcv_buffer := hput e b1 (rcv_buffer ?r)\<rparr>"
      obtain out p where "handle_recv_and_rtx_vectors x source c recv [] ?r1 = Some (Inr out, ?r1\<lparr>rcv_pending_rtxs := p\<rparr>)"
          "to_app out = map (app_result (rcv_session_id ?r1)) recv"
        using handle_vectors_ok [of source ?r1 x c recv "[]"] src(2) r' by auto
      then show ?thesis
        using refused src Some b1
        by (auto simp: handles_as_def buffer_step_def receiver_on_rtx_def is_refusal_def Let_def same_session_def retire_pending_retry_def)
    qed
  qed
qed

lemma remove_metadata_absent: "\<not> contains_metadata k m \<Longrightarrow> remove_metadata k m = m"
  by (simp add: contains_metadata_def remove_metadata_def map_of_eq_None_iff delete_id)

lemma build_ack_ok:
  assumes "data_ok m"
  shows "\<exists>out. build_ack x m r = Some (Inr out) \<and> to_app out = []"
proof -
  obtain source c sh where "get_source m = Some source" "get_incoming_conn m = Some c" "get_session_header m = Some sh"
    using assms by (auto simp: data_ok_def publish_ok_def get_encoded_source_def bind_eq_Some_conv)
  then show ?thesis
    by (simp add: build_ack_def Let_def build_publish_def empty_payload_def builder_forward_to_def with_flags_def
        session_builder_def builder_new_def)
qed

lemma message_handles:
  assumes m: "data_ok m" "get_encoded_source m = Some e" and r: "rcv_timer_factory r \<noteq> None" "rcv_draining r = NotDraining"
  shows "handles_as r e (buffer_step (fresh_buffer r) m (hget (rcv_buffer r) e)) (receiver_on_message x m r)"
proof -
  from m(1) consider (msg) "get_session_message_type m = Some Msg" | (rtx) "get_session_message_type m = Some RtxReply"
    by (auto simp: data_ok_def)
  then show ?thesis
  proof cases
    case rtx
    then show ?thesis using rtx_handles [OF m rtx r(1), of x] r(2) by (simp add: receiver_on_message_def)
  next
    case msg
    have meta: "\<not> contains_metadata PUBLISH_TO m" using m(1) by (simp add: data_ok_def)
    obtain i where i: "get_id m = Some i" using m(1) by (auto simp: data_ok_def publish_ok_def get_id_def)
    let ?r = "retire_pending_retry e i r"
    obtain ack where ack: "build_ack x m r = Some (Inr ack)" "to_app ack = []" using build_ack_ok [OF m(1)] by blast
    have "receiver_on_publish x m r = deliver_publish_message x m ?r"
      using meta m(2) i r(1) by (simp add: receiver_on_publish_def del: not_None_eq)
    then have whole: "receiver_on_message x m r =
        map_option (\<lambda>(res, r1). (map_sum id (\<lambda>out'. ack @ out') res, r1)) (deliver_publish_message x m ?r)"
      using msg r(2) ack(1) remove_metadata_absent [OF meta] by (simp add: receiver_on_message_def Let_def)
    have "handles_as ?r e (buffer_step (fresh_buffer r) m (hget (rcv_buffer r) e)) (deliver_publish_message x m ?r)"
      using deliver_handles [OF m, of ?r x] r(1) msg
      by (simp add: is_refusal_def same_session_retire) (simp add: retire_pending_retry_def)
    then have "handles_as r e (buffer_step (fresh_buffer r) m (hget (rcv_buffer r) e)) (deliver_publish_message x m ?r)"
      by (rule handles_retire)
    then show ?thesis
      unfolding whole handles_as_def using ack(2) by (auto split: option.splits)
  qed
qed

section \<open>Runs\<close>

fun receiver_run ::
  "externs \<Rightarrow> proto_message list \<Rightarrow> session_receiver \<Rightarrow> ((session_error + proto_message) list list \<times> session_receiver) option" where
  "receiver_run x [] r = Some ([], r)"
| "receiver_run x (m # ms) r =
     do {
       (res, r1) \<leftarrow> receiver_on_message x m r;
       (outs, r2) \<leftarrow> receiver_run x ms r1;
       Some ((case res of Inr out \<Rightarrow> to_app out | Inl e \<Rightarrow> [Inl e]) # outs, r2)
     }"

definition of_sender :: "encoded_name \<Rightarrow> proto_message list \<Rightarrow> proto_message list" where
  "of_sender e ms = filter (\<lambda>m. get_encoded_source m = Some e) ms"

text \<open>What the application got on account of the messages of one sender.\<close>

definition results_of :: "encoded_name \<Rightarrow> proto_message list \<Rightarrow> 'a list list \<Rightarrow> 'a list" where
  "results_of e ms outs = concat (map snd (filter (\<lambda>(m, _). get_encoded_source m = Some e) (zip ms outs)))"

lemma results_of_Cons [simp]:
  "results_of e (m # ms) (out # outs) = (if get_encoded_source m = Some e then out else []) @ results_of e ms outs"
  by (simp add: results_of_def)

lemma of_sender_Cons [simp]:
  "of_sender e (m # ms) = (if get_encoded_source m = Some e then m # of_sender e ms else of_sender e ms)"
  by (simp add: of_sender_def)

lemma run_splits:
  assumes "\<forall>m\<in>set ms. data_ok m" "rcv_timer_factory r \<noteq> None" "rcv_draining r = NotDraining"
  shows "case receiver_run x ms r of
      None \<Rightarrow> \<exists>e. buffer_steps (fresh_buffer r) (of_sender e ms) (hget (rcv_buffer r) e) = None
    | Some (outs, r') \<Rightarrow> length outs = length ms \<and> same_session r r' \<and>
        (\<forall>e. \<exists>out. buffer_steps (fresh_buffer r) (of_sender e ms) (hget (rcv_buffer r) e) = Some (out, hget (rcv_buffer r') e) \<and>
          results_of e ms outs = map (app_result (rcv_session_id r)) out)"
  using assms
proof (induction ms arbitrary: r)
  case Nil
  then show ?case by (simp add: same_session_def of_sender_def results_of_def)
next
  case (Cons m ms)
  obtain e where e: "get_encoded_source m = Some e" using Cons.prems(1) by (auto simp: data_ok_def publish_ok_def)
  have step: "handles_as r e (buffer_step (fresh_buffer r) m (hget (rcv_buffer r) e)) (receiver_on_message x m r)"
    using message_handles [OF _ e Cons.prems(2,3)] Cons.prems(1) by simp
  show ?case
  proof (cases "buffer_step (fresh_buffer r) m (hget (rcv_buffer r) e)")
    case None
    then have "receiver_on_message x m r = None" using step by (simp add: handles_as_def)
    then show ?thesis using None e by (auto intro!: exI [of _ e])
  next
    case (Some res)
    then obtain out ob where ob: "buffer_step (fresh_buffer r) m (hget (rcv_buffer r) e) = Some (out, ob)" by fastforce
    then obtain o' r1 where r1: "receiver_on_message x m r = Some (Inr o', r1)" "same_session r r1"
        "to_app o' = map (app_result (rcv_session_id r)) out" "hget (rcv_buffer r1) = (hget (rcv_buffer r))(e := ob)"
      using step by (auto simp: handles_as_def)
    then have s: "fresh_buffer r1 = fresh_buffer r" "rcv_session_id r1 = rcv_session_id r" "rcv_timer_factory r1 \<noteq> None"
        "rcv_draining r1 = NotDraining"
      using Cons.prems(2,3) by (auto simp: same_session_def fresh_buffer_def)
    have ih: "case receiver_run x ms r1 of
        None \<Rightarrow> \<exists>f. buffer_steps (fresh_buffer r) (of_sender f ms) (hget (rcv_buffer r1) f) = None
      | Some (outs, r') \<Rightarrow> length outs = length ms \<and> same_session r1 r' \<and>
        (\<forall>f. \<exists>out. buffer_steps (fresh_buffer r) (of_sender f ms) (hget (rcv_buffer r1) f) = Some (out, hget (rcv_buffer r') f) \<and>
          results_of f ms outs = map (app_result (rcv_session_id r)) out)"
      by (rule Cons.IH [OF _ s(3,4), unfolded s(1,2)]) (use Cons.prems(1) in simp)
    have split: "buffer_steps (fresh_buffer r) (of_sender f (m # ms)) (hget (rcv_buffer r) f) =
        map_option (\<lambda>(outs, ob2). ((if f = e then out else []) @ outs, ob2))
          (buffer_steps (fresh_buffer r) (of_sender f ms) (hget (rcv_buffer r1) f))" for f
      using e ob r1(4) by (cases "buffer_steps (fresh_buffer r) (of_sender f ms) (hget (rcv_buffer r1) f)") (auto split: prod.splits)
    show ?thesis
    proof (cases "receiver_run x ms r1")
      case None
      then show ?thesis using ih r1(1) split by auto
    next
      case (Some v)
      then obtain outs r' where v: "receiver_run x ms r1 = Some (outs, r')" by fastforce
      then have "length outs = length ms" "same_session r r'" using ih r1(2) by (auto simp: same_session_def)
      moreover have "\<exists>o2. buffer_steps (fresh_buffer r) (of_sender f (m # ms)) (hget (rcv_buffer r) f) = Some (o2, hget (rcv_buffer r') f) \<and>
          results_of f (m # ms) (to_app o' # outs) = map (app_result (rcv_session_id r)) o2" for f
        using ih v r1(3) e unfolding split by fastforce
      ultimately show ?thesis using r1(1) v by simp
    qed
  qed
qed

end
