(* ===== verification/Session_Link.thy ===== *)
theory Session_Link
  imports Session_Sender_Run Session_Receiver_Run
begin

text \<open>
  A sender and a receiver of a point-to-point session, joined by a network that loses, repeats and
  reorders messages: what the sender emits is a copy of something the application published, and what
  the receiver makes of such copies depends on their numbers and contents only.
\<close>

section \<open>The reorder buffer does not look into messages\<close>

definition map_buffer :: "('m \<Rightarrow> 'n) \<Rightarrow> 'm receiver_buffer \<Rightarrow> 'n receiver_buffer" where
  "map_buffer f b =
     \<lparr>rb_last_sent = rb_last_sent b, rb_first_entry = rb_first_entry b, rb_lost_msgs = rb_lost_msgs b,
      rb_buffer = map (map_option f) (rb_buffer b)\<rparr>"

lemma map_buffer_sel [simp]:
  "rb_last_sent (map_buffer f b) = rb_last_sent b" "rb_first_entry (map_buffer f b) = rb_first_entry b"
  "rb_lost_msgs (map_buffer f b) = rb_lost_msgs b" "rb_buffer (map_buffer f b) = map (map_option f) (rb_buffer b)"
  by (simp_all add: map_buffer_def)

lemma map_buffer_upd [simp]:
  "(map_buffer f b)\<lparr>rb_last_sent := l\<rparr> = map_buffer f (b\<lparr>rb_last_sent := l\<rparr>)"
  "(map_buffer f b)\<lparr>rb_first_entry := i\<rparr> = map_buffer f (b\<lparr>rb_first_entry := i\<rparr>)"
  "(map_buffer f b)\<lparr>rb_lost_msgs := ls\<rparr> = map_buffer f (b\<lparr>rb_lost_msgs := ls\<rparr>)"
  "(map_buffer f b)\<lparr>rb_buffer := []\<rparr> = map_buffer f (b\<lparr>rb_buffer := []\<rparr>)"
  by (simp_all add: map_buffer_def)


lemma release_entries_map:
  "release_entries i (map (map_option f) ret) (map_buffer f b) =
     map_prod (map (map_option f)) (map_buffer f) (release_entries i ret b)"
proof (induction i ret b rule: release_entries.induct)
  case (1 i ret b)
  let ?held = "\<lambda>m. b\<lparr>rb_buffer := (rb_buffer b)[i := None], rb_last_sent := add_with_wraparound (rb_last_sent b) 1,
    rb_first_entry := rb_first_entry b + 1\<rparr>"
  let ?next = "add_with_wraparound (rb_last_sent b) 1"
  show ?case
  proof (cases "i < length (rb_buffer b)")
    case len: True
    show ?thesis
    proof (cases "rb_buffer b ! i")
      case (Some m)
      have upd: "(map_buffer f b)\<lparr>rb_buffer := (map (map_option f) (rb_buffer b))[i := None], rb_last_sent := ?next,
          rb_first_entry := rb_first_entry b + 1\<rparr> = map_buffer f (?held m)"
        by (simp add: map_buffer_def map_update)
      show ?thesis
        using 1(2) [OF len Some] len Some upd
        by (subst (1 2) release_entries.simps) simp
    next
      case None
      then show ?thesis
        using 1(1) [OF len None refl] len
        by (subst (1 2) release_entries.simps) (simp add: Let_def)
    qed
  next
    case False
    then show ?thesis by (subst (1 2) release_entries.simps) simp
  qed
qed

lemma release_lost_map:
  "release_lost (map (map_option f) ret) (map_buffer f b) =
     map_prod (map (map_option f)) (map_buffer f) (release_lost ret b)"
proof (induction ret b rule: release_lost.induct)
  case (1 ret b)
  then show ?case
    by (subst (1 2) release_lost.simps) (simp add: Let_def)
qed

lemma release_msgs_map:
  "release_msgs (map_buffer f b) = map_prod (map (map_option f)) (map_buffer f) (release_msgs b)"
proof -
  obtain ret b1 where b1: "release_entries (rb_first_entry b) [] b = (ret, b1)" by fastforce
  then have m: "release_entries (rb_first_entry b) [] (map_buffer f b) = (map (map_option f) ret, map_buffer f b1)"
    using release_entries_map [of "rb_first_entry b" f "[]" b] by simp
  with b1 show ?thesis
    by (simp add: release_msgs_def Let_def release_lost_map)
qed

lemma received_map:
  "internal_on_received_message i (Some (f m)) (map_buffer f b) =
     map_option (map_prod (map_prod (map (map_option f)) id) (map_buffer f)) (internal_on_received_message i (Some m) b)"
proof -
  have first: "(map_buffer f b)\<lparr>rb_first_entry := 0, rb_buffer := replicate n None @ [Some (f m)]\<rparr> =
      map_buffer f (b\<lparr>rb_first_entry := 0, rb_buffer := replicate n None @ [Some m]\<rparr>)" for n
    by (simp add: map_buffer_def)
  have grown: "(map_buffer f b)\<lparr>rb_buffer := map (map_option f) (rb_buffer b) @ replicate n None @ [Some (f m)]\<rparr> =
      map_buffer f (b\<lparr>rb_buffer := rb_buffer b @ replicate n None @ [Some m]\<rparr>)" for n
    by (simp add: map_buffer_def)
  have put: "(map_buffer f b)\<lparr>rb_buffer := (map (map_option f) (rb_buffer b))[p := Some (f m)]\<rparr> =
      map_buffer f (b\<lparr>rb_buffer := (rb_buffer b)[p := Some m]\<rparr>)" for p
    by (simp add: map_buffer_def map_update)
  have some: "(map (map_option f) (rb_buffer b) ! p \<noteq> None) = (rb_buffer b ! p \<noteq> None)" if "p < length (rb_buffer b)" for p
    using that by simp
  show ?thesis
    unfolding internal_on_received_message_def
    by (simp add: Let_def first grown put some release_msgs_map split_beta del: not_None_eq)
qed

lemma lost_map:
  "on_lost_message i (map_buffer f b) = map_prod (map (map_option f)) (map_buffer f) (on_lost_message i b)"
  by (simp add: on_lost_message_def release_msgs_map)

lemma map_buffer_start [simp]: "map_buffer f (rb_starting_at k) = rb_starting_at k"
  by (simp add: map_buffer_def rb_starting_at_def rb_default_def)

section \<open>Arrivals as events of a stream\<close>

text \<open>What an arriving message means to the stream, while the numbers have not wrapped around.\<close>

definition event_of :: "proto_message \<Rightarrow> stream_event" where
  "event_of m = (let i = (case get_id m of Some i \<Rightarrow> i | None \<Rightarrow> 0) in if is_refusal m then Given_Up i else Arrives i)"

text \<open>Arrivals that are copies of the messages with contents \<open>src\<close>.\<close>

definition copy_in :: "(nat \<Rightarrow> content option) \<Rightarrow> proto_message \<Rightarrow> bool" where
  "copy_in src m \<longleftrightarrow> (\<exists>i. get_id m = Some i \<and> i < 2 ^ 31 \<and> (is_refusal m \<or> get_content m = src i))"

lemma buffer_steps_stream:
  assumes "\<forall>m\<in>set ms. copy_in src m" "events_ok src (map event_of ms) s" "represents (map_buffer get_content b) s"
  shows "\<exists>outs b'. buffer_steps fresh ms (Some b) = Some (outs, Some b') \<and>
    buffer_run src (map event_of ms) (map_buffer get_content b) = Some (map (map_option get_content) outs, map_buffer get_content b')"
  using assms
proof (induction ms arbitrary: b s)
  case (Cons m ms)
  from Cons.prems(1) obtain i where i: "get_id m = Some i" "wire i = i" "is_refusal m \<or> get_content m = src i"
    by (auto simp: copy_in_def wire_def)
  have "\<exists>out b1. buffer_step fresh m (Some b) = Some (out, Some b1) \<and>
      represents (map_buffer get_content b1) (snd (stream_step src (event_of m) s)) \<and>
      (\<forall>es. buffer_run src (event_of m # es) (map_buffer get_content b) =
        map_option (\<lambda>(outs, b2). (map (map_option get_content) out @ outs, b2)) (buffer_run src es (map_buffer get_content b1)))"
  proof (cases "is_refusal m")
    case True
    then have ev: "event_of m = Given_Up i" using i by (simp add: event_of_def)
    obtain out b1 where out: "on_lost_message i b = (out, b1)" by fastforce
    then have lost: "on_lost_message i (map_buffer get_content b) = (map (map_option get_content) out, map_buffer get_content b1)"
      by (simp add: lost_map)
    have "represents (map_buffer get_content b1) (snd (stream_step src (event_of m) s))"
      using lost_refines [OF Cons.prems(3), of i] Cons.prems(2) ev i(2) lost by auto
    then show ?thesis using True i out ev lost by (auto simp: buffer_step_def split_beta map_option_case split: option.split)
  next
    case False
    then have ev: "event_of m = Arrives i" "get_content m = src i" using i by (simp_all add: event_of_def)
    have "in_window i s" using Cons.prems(2) ev by simp
    from received_refines [OF Cons.prems(3) this, of "src i"] i(2)
    obtain a b1 where a: "internal_on_received_message i (Some (src i)) (map_buffer get_content b) = Some (a, b1)"
        "represents b1 (snd (arrive i (src i) s))"
      by (auto simp: arrival_refines_def)
    then obtain out rtx b2 where b2: "internal_on_received_message i (Some m) b = Some ((out, rtx), b2)"
        "a = (map (map_option get_content) out, rtx)" "b1 = map_buffer get_content b2"
      using received_map [of i get_content m b] ev(2) by (cases "internal_on_received_message i (Some m) b") auto
    then show ?thesis
      using False i a ev
      by (auto simp: buffer_step_def on_received_message_def split_beta map_option_case split: option.split)
  qed
  then obtain out b1 where step: "buffer_step fresh m (Some b) = Some (out, Some b1)"
      "represents (map_buffer get_content b1) (snd (stream_step src (event_of m) s))"
      "\<And>es. buffer_run src (event_of m # es) (map_buffer get_content b) =
        map_option (\<lambda>(outs, b2). (map (map_option get_content) out @ outs, b2)) (buffer_run src es (map_buffer get_content b1))"
    by blast
  then show ?case using Cons.IH [OF _ _ step(2)] Cons.prems by fastforce
qed simp

section \<open>What the sender emits\<close>

text \<open>A copy of a publication, or the answer that it can no longer be had.\<close>

definition is_copy :: "content option list \<Rightarrow> proto_message \<Rightarrow> bool" where
  "is_copy pubs m \<longleftrightarrow>
     (\<exists>n. get_id m = Some n \<and> 0 < n \<and> n \<le> length pubs \<and> get_content m = pubs ! (n - 1)) \<and> get_error m = Some None"

definition emission :: "content option list \<Rightarrow> proto_message \<Rightarrow> bool" where
  "emission pubs m \<longleftrightarrow> is_copy pubs m \<or> is_refusal m"

text \<open>The state of a sender of a point-to-point session after the publications \<open>pubs\<close>.\<close>

definition sent_so_far :: "content option list \<Rightarrow> session_sender \<Rightarrow> bool" where
  "sent_so_far pubs s \<longleftrightarrow>
     snd_session_type s = PointToPoint \<and> snd_next_id s = length pubs \<and>
     (\<forall>i m. pb_get (snd_buffer s) i = Some m \<longrightarrow> is_copy pubs m) \<and>
     (\<forall>i gt stored. hget (snd_pending_acks s) i = Some (gt, stored) \<longrightarrow> stored = None)"

lemma sent_so_farD:
  assumes "sent_so_far pubs s"
  shows "snd_session_type s = PointToPoint" "snd_next_id s = length pubs"
    "pb_get (snd_buffer s) i = Some m \<Longrightarrow> is_copy pubs m"
    "hget (snd_pending_acks s) i = Some (gt, stored) \<Longrightarrow> stored = None"
  using assms unfolding sent_so_far_def by blast+

lemma is_copy_more: "is_copy pubs m \<Longrightarrow> is_copy (pubs @ ps) m"
  by (auto simp: is_copy_def nth_append)

lemma emission_more: "emission pubs m \<Longrightarrow> emission (pubs @ ps) m"
  by (auto simp: emission_def is_copy_more)

lemma sent_so_far_same:
  assumes "sent_so_far pubs s" "snd_session_type s' = snd_session_type s" "snd_next_id s' = snd_next_id s"
    "snd_buffer s' = snd_buffer s"
    "\<And>i gt stored. hget (snd_pending_acks s') i = Some (gt, stored) \<Longrightarrow> stored = None"
  shows "sent_so_far pubs s'"
  using assms unfolding sent_so_far_def by auto

lemma send_so_far:
  assumes "sent_so_far pubs s" "set_timer_and_send m s = Some (out, s')" "\<not> contains_metadata PUBLISH_TO m"
  shows "sent_so_far pubs s' \<and> out = [ToSlim m] \<and> snd_endpoints s' = snd_endpoints s"
proof (cases "snd_timer_factory s")
  case None
  then show ?thesis using assms by (auto simp: set_timer_and_send_def bind_eq_Some_conv)
next
  case (Some f)
  then obtain i gt per where s': "s' = s\<lparr>snd_pending_acks := hput i (gt, None) (snd_pending_acks s), snd_acks_per_endpoint := per\<rparr>"
      and out: "out = [ToSlim m]"
    using assms(2,3) by (auto simp: set_timer_and_send_def bind_eq_Some_conv Let_def)
  have "sent_so_far pubs s'"
  proof (rule sent_so_far_same [OF assms(1)])
    show "stored = None" if "hget (snd_pending_acks s') j = Some (g, stored)" for j g stored
      using that sent_so_farD(4) [OF assms(1), of j g stored] unfolding s' by (simp split: if_splits)
  qed (simp_all add: s')
  then show ?thesis using out s' by simp
qed

lemma ack_so_far:
  assumes "sent_so_far pubs s" "sender_on_ack m s = Some (evs, s')"
  shows "sent_so_far pubs s'"
proof -
  obtain src i where s': "s' = (snd (ack_pending i src s))\<lparr>snd_acks_per_endpoint := untrack_ack i src (snd_acks_per_endpoint (snd (ack_pending i src s)))\<rparr>"
    using assms(2) by (auto simp: sender_on_ack_def bind_eq_Some_conv split_beta)
  show ?thesis
  proof (rule sent_so_far_same [OF assms(1)])
    show "stored = None" if "hget (snd_pending_acks s') j = Some (g, stored)" for j g stored
    proof -
      from that have "\<exists>g'. hget (snd_pending_acks s) j = Some (g', stored)"
        unfolding s' by (auto simp: hget_ack_pending without_endpoint_Some split: if_splits)
      then show ?thesis using sent_so_farD(4) [OF assms(1)] by blast
    qed
  qed (simp_all add: s' ack_pending_other)
qed

lemma push_so_far:
  assumes inv: "pb_inv b" "\<forall>i m. pb_get b i = Some m \<longrightarrow> is_copy pubs m" and push: "pb_push m b = Some b'"
    and m: "is_copy (pubs @ [c]) m" "get_dst m \<noteq> None" "length pubs < 2 ^ 31"
  shows "\<forall>i m. pb_get b' i = Some m \<longrightarrow> is_copy (pubs @ [c]) m"
proof -
  obtain n where n: "get_id m = Some n" "n \<le> Suc (length pubs)" using m(1) by (auto simp: is_copy_def)
  then have "n < usize_MAX" using m(3) by (simp add: usize_MAX_def)
  show ?thesis
  proof (cases "pb_get b n")
    case None
    with pb_push_new [OF inv(1) m(2) n(1) \<open>n < usize_MAX\<close>] push inv(2) m(1) show ?thesis
      by (auto simp: is_copy_more split: if_splits)
  next
    case (Some v)
    then have "b' = b" using pb_push_old [OF inv(1) m(2) n(1)] push by simp
    then show ?thesis using inv(2) is_copy_more by blast
  qed
qed

lemma publish_so_far:
  assumes inv: "sender_inv s" and far: "sent_so_far pubs s" "length pubs < 2 ^ 31 - 1"
    and m: "publish_ok m" "\<not> contains_metadata PUBLISH_TO m" "get_error m = Some None"
    and run: "sender_on_publish rnd m tx s = Some (r, evs, s')"
  shows "sent_so_far (pubs @ [get_content m]) s' \<and> (\<exists>out. r = Inr out \<and> (\<forall>p\<in>set (to_slim out). emission (pubs @ [get_content m]) p))"
proof -
  note d = sent_so_farD [OF far(1)]
  define i where "i = Suc (length pubs)"
  obtain evs1 where num: "id_and_fanout False rnd s = ((i, 1), evs1, s\<lparr>snd_next_id := i\<rparr>)"
    using far(2) d(1,2) by (simp add: id_and_fanout_def Let_def MAX_PUBLISH_ID_def i_def)
  let ?s1 = "s\<lparr>snd_next_id := i\<rparr>"
  obtain m1 where stamp: "stamp_message i 1 ?s1 m = Some m1" and m1: "publish_ok m1" "get_id m1 = Some i"
      "metadata m1 = metadata m" "get_content m1 = get_content m" "get_error m1 = get_error m"
    using stamp_message_ok [OF m(1)] by blast
  have copy: "is_copy (pubs @ [get_content m]) m1" using m1 m(3) by (simp add: is_copy_def i_def)
  have one: "\<not> contains_metadata PUBLISH_TO m1" using m(2) m1(3) by (simp add: contains_metadata_def)
  obtain sent s2 where reg: "register_notifier tx i ?s1 = (sent, s2)" by fastforce
  then have s2: "snd_buffer s2 = snd_buffer s" "snd_pending_acks s2 = snd_pending_acks s" "snd_next_id s2 = i"
      "snd_session_type s2 = snd_session_type s" "snd_timer_factory s2 = snd_timer_factory s"
    by (auto simp: register_notifier_def split: option.splits if_splits)
  have pushed: "sent_so_far (pubs @ [get_content m]) (s2\<lparr>snd_buffer := b\<rparr>)" if "pb_push m1 (snd_buffer s2) = Some b" for b
  proof -
    have dst: "get_dst m1 \<noteq> None" using m1(1) by (auto simp: publish_ok_def get_encoded_dst_def bind_eq_Some_conv)
    have "\<forall>j p. pb_get b j = Some p \<longrightarrow> is_copy (pubs @ [get_content m]) p"
      using push_so_far [OF sender_invD(1) [OF inv] _ _ copy dst] that s2(1) d(3) far(2) by auto
    then show ?thesis using d s2 by (auto simp: sent_so_far_def i_def)
  qed
  have kept: "sent_so_far (pubs @ [get_content m]) s2"
    using d s2 is_copy_more by (auto simp: sent_so_far_def i_def)
  have go: "sender_on_publish rnd m tx s =
      (if snd_endpoints s2 = []
       then Option.bind (pb_push m1 (snd_buffer s2)) (\<lambda>b. Some (Inr [], evs1 @ sent, s2\<lparr>snd_buffer := b, snd_to_flush := True\<rparr>))
       else Option.bind (if snd_timer_factory s2 \<noteq> None then pb_push m1 (snd_buffer s2) else Some (snd_buffer s2))
              (\<lambda>b. Option.bind (set_timer_and_send m1 (s2\<lparr>snd_buffer := b\<rparr>)) (\<lambda>(out, s3). Some (Inr out, evs1 @ sent, s3))))"
    using m(2) by (simp add: sender_on_publish_def num stamp reg del: One_nat_def)
  show ?thesis
  proof (cases "snd_endpoints s2 = []")
    case True
    then obtain b where "pb_push m1 (snd_buffer s2) = Some b" "r = Inr []" "s' = s2\<lparr>snd_buffer := b, snd_to_flush := True\<rparr>"
      using run go by (auto simp: bind_eq_Some_conv)
    then show ?thesis using pushed [of b] by (auto simp: sent_so_far_def)
  next
    case False
    then obtain b out where b: "(if snd_timer_factory s2 \<noteq> None then pb_push m1 (snd_buffer s2) else Some (snd_buffer s2)) = Some b"
        "set_timer_and_send m1 (s2\<lparr>snd_buffer := b\<rparr>) = Some (out, s')" "r = Inr out"
      using run go by (auto simp: bind_eq_Some_conv)
    then have "sent_so_far (pubs @ [get_content m]) (s2\<lparr>snd_buffer := b\<rparr>)"
      using pushed [of b] kept by (auto split: if_splits)
    from send_so_far [OF this b(2) one] b(3) copy show ?thesis by (auto simp: emission_def)
  qed
qed

lemma redirect_copy:
  assumes "is_copy pubs m" "update_slim_header (\<lambda>h. h\<lparr>hdr_destination := d\<rparr>) m = Some m1"
  shows "is_copy pubs m1"
  using assms
  by (auto simp: is_copy_def accessor_defs get_content_def update_slim_header_def split: option.splits message_type.splits)

lemma resend_emission:
  assumes "is_copy pubs m" "resend_to m es eps = Some out"
  shows "\<forall>p\<in>set (to_slim out). emission pubs p"
  using assms(2)
proof (induction es arbitrary: out)
  case (Cons e es)
  then show ?case
    using redirect_copy [OF assms(1)]
    by (cases "hget eps e") (auto simp: emission_def bind_eq_Some_conv)
qed simp

lemma rtx_error_reply_refuses:
  assumes "rtx_error_reply x m s = Some reply"
  shows "\<exists>p. reply = Inr p \<and> is_refusal p"
  using assms
  by (auto simp: rtx_error_reply_def bind_eq_Some_conv build_publish_def is_refusal_def accessor_defs slim_header_new_def
      with_flags_def Let_def session_builder_def empty_payload_def builder_forward_to_def)

lemma rtx_emission:
  assumes far: "sent_so_far pubs s" and inv: "sender_inv s" and run: "sender_on_rtx x m s = Some (Inr out)"
  shows "\<forall>p\<in>set (to_slim out). emission pubs p"
proof -
  obtain h i c where m: "get_slim_header m = Some h" "get_id m = Some i" "get_incoming_conn m = Some c"
    using run by (auto simp: sender_on_rtx_def bind_eq_Some_conv)
  show ?thesis
  proof (cases "pb_get (snd_buffer s) i")
    case None
    then obtain reply where "rtx_error_reply x m s = Some reply" "(case reply of Inl e \<Rightarrow> Inl (MessageError e) | Inr p \<Rightarrow> Inr [ToSlim p]) = Inr out"
      using run m by (auto simp: sender_on_rtx_def bind_eq_Some_conv)
    then show ?thesis using rtx_error_reply_refuses by (fastforce simp: emission_def)
  next
    case (Some msg)
    then have copy: "is_copy pubs msg" and ok: "publish_ok msg"
      using sent_so_farD(3) [OF far] buffered_get [OF inv] by auto
    obtain m' where m': "rtx_reply (hdr_source h) c msg = Some m'" "get_id m' = get_id msg" "get_content m' = get_content msg"
        "get_error m' = get_error msg"
      using rtx_reply_ok [OF ok] by blast
    then have "out = [ToSlim m']" using run m Some by (auto simp: sender_on_rtx_def bind_eq_Some_conv)
    then show ?thesis using m' copy by (simp add: emission_def is_copy_def)
  qed
qed

text \<open>The contents of the publications a run of calls accepted, and the messages it emitted.\<close>

definition is_data :: "proto_message \<Rightarrow> bool" where
  "is_data m \<longleftrightarrow> get_session_message_type m = Some Msg"

definition published_by :: "sender_call \<Rightarrow> session_error + session_output \<Rightarrow> content option list" where
  "published_by c r =
     (case c of
        Call_Message _ m _ \<Rightarrow> (case r of Inr _ \<Rightarrow> if is_data m then [get_content m] else [] | Inl _ \<Rightarrow> [])
      | _ \<Rightarrow> [])"

fun published :: "externs \<Rightarrow> sender_call list \<Rightarrow> session_sender \<Rightarrow> content option list" where
  "published x [] s = []"
| "published x (c # cs) s =
     (case do_call x c s of None \<Rightarrow> [] | Some (r, _, s1) \<Rightarrow> published_by c r @ published x cs s1)"

definition emitted :: "(session_output \<times> session_event list) list \<Rightarrow> proto_message set" where
  "emitted trace = (\<Union>(out, _)\<in>set trace. set (to_slim out))"

text \<open>Messages of the application carry no error mark.\<close>

fun app_call :: "sender_call \<Rightarrow> bool" where
  "app_call (Call_Message _ m _) \<longleftrightarrow> (is_data m \<longrightarrow> get_error m = Some None)"
| "app_call _ \<longleftrightarrow> True"

definition keeps_so_far :: "content option list \<Rightarrow> sender_call \<Rightarrow> session_error + session_output \<Rightarrow> session_sender \<Rightarrow> bool" where
  "keeps_so_far pubs c r s' \<longleftrightarrow>
     sent_so_far (pubs @ published_by c r) s' \<and>
     (\<forall>out. r = Inr out \<longrightarrow> (\<forall>p\<in>set (to_slim out). emission (pubs @ published_by c r) p))"

lemma keeps_quiet:
  assumes "sent_so_far pubs s'" "r = Inr [] \<or> (\<exists>e. r = Inl e)" "published_by c r = []"
  shows "keeps_so_far pubs c r s'"
  using assms by (auto simp: keeps_so_far_def)

lemma failure_so_far: "sent_so_far pubs s \<Longrightarrow> sender_on_failure i err s = (evs, s') \<Longrightarrow> sent_so_far pubs s'"
  by (auto simp: sender_on_failure_def Let_def sent_so_far_def split: if_splits)

lemma remove_published [simp]:
  "get_content (remove_metadata k m) = get_content m" "get_error (remove_metadata k m) = get_error m"
  "\<not> contains_metadata k (remove_metadata k m)"
  by (simp_all add: get_content_def remove_metadata_def get_error_def get_slim_header_def contains_metadata_def)

lemma message_so_far:
  assumes inv: "sender_inv s" and far: "sent_so_far pubs s" "length pubs < 2 ^ 31 - 1"
    and ok: "call_ok (Call_Message rnd m tx)" "app_call (Call_Message rnd m tx)"
    and run: "sender_on_message x rnd m tx s = Some (r, evs, s')"
  shows "keeps_so_far pubs (Call_Message rnd m tx) r s'"
proof (cases "snd_draining s = Completed")
  case True
  then show ?thesis using run far by (auto simp: sender_on_message_def keeps_so_far_def published_by_def)
next
  case drain: False
  from ok(1) obtain mt where mt: "get_session_message_type m = Some mt"
    by (auto simp: publish_ok_def get_session_message_type_def)
  have p2p: "snd_session_type s = PointToPoint" by (rule sent_so_farD(1) [OF far(1)])
  consider (msg) "mt = Msg" | (ack) "mt = MsgAck" | (rtx) "mt = RtxRequest" | (other) "mt \<notin> {Msg, MsgAck, RtxRequest}" by blast
  then show ?thesis
  proof cases
    case msg
    show ?thesis
    proof (cases "snd_draining s = Initiated")
      case True
      then show ?thesis using run far mt msg by (auto simp: sender_on_message_def keeps_so_far_def published_by_def)
    next
      case False
      then have "sender_on_publish rnd (remove_metadata PUBLISH_TO m) tx s = Some (r, evs, s')"
        using run drain mt msg p2p by (simp add: sender_on_message_def)
      from publish_so_far [OF inv far _ _ _ this] ok mt msg show ?thesis
        by (auto simp: keeps_so_far_def published_by_def is_data_def)
    qed
  next
    case ack
    then have "r = Inr []" "s' = s \<or> (\<exists>e. sender_on_ack m s = Some (e, s'))"
      using run drain mt by (auto simp: sender_on_message_def split: if_splits)
    moreover have "sent_so_far pubs s'" using calculation(2) far(1) ack_so_far by blast
    ultimately show ?thesis using mt ack by (intro keeps_quiet) (simp_all add: published_by_def is_data_def)
  next
    case rtx
    have none: "published_by (Call_Message rnd m tx) r = []" using mt rtx by (simp add: published_by_def is_data_def split: sum.split)
    show ?thesis
    proof (cases "snd_timer_factory s")
      case None
      then show ?thesis using run drain mt rtx far none by (intro keeps_quiet) (simp_all add: sender_on_message_def)
    next
      case (Some f)
      then obtain e where e: "sender_on_ack m s = Some (e, s')" "sender_on_rtx x m s' = Some r"
        using run drain mt rtx by (auto simp: sender_on_message_def bind_eq_Some_conv)
      have far': "sent_so_far pubs s'" by (rule ack_so_far [OF far(1) e(1)])
      have inv': "sender_inv s'" using ack_inv [OF inv, of m] ok(1) e(1) by auto
      show ?thesis
        using far' none rtx_emission [OF far' inv'] e(2) by (auto simp: keeps_so_far_def)
    qed
  next
    case other
    then have "r = Inr []" "s' = s" using run drain mt by (auto simp: sender_on_message_def split: session_message_type.splits)
    then show ?thesis using far(1) mt other by (intro keeps_quiet) (simp_all add: published_by_def is_data_def)
  qed
qed

lemma timeout_so_far:
  assumes far: "sent_so_far pubs s" and run: "sender_timer_timeout i s = Some (r, evs, s')"
  shows "sent_so_far pubs s' \<and> (\<forall>out. r = Inr out \<longrightarrow> (\<forall>p\<in>set (to_slim out). emission pubs p))"
proof -
  obtain e1 s1 where fail: "sender_timer_failure i s = (e1, s1)" by fastforce
  then have s1: "sent_so_far pubs s1"
    using failure_so_far [OF far] by (simp add: sender_timer_failure_def)
  have stored: "stored = None" if "hget (snd_pending_acks s) i = Some (gt, stored)" for gt stored
    using sent_so_farD(4) [OF far that] .
  consider (failed) "r = Inr []" "s' = s1" | (idle) "r = Inr []" "s' = s"
    | (resent) msg es out where "r = Inr out" "s' = s" "pb_get (snd_buffer s) i = Some msg"
        "resend_to msg es (snd_endpoints s) = Some out"
    using run stored by (auto simp: sender_timer_timeout_def fail Let_def split: if_splits option.splits prod.splits)
  then show ?thesis
  proof cases
    case resent
    then show ?thesis using far resend_emission [OF sent_so_farD(3) [OF far resent(3)] resent(4)] by simp
  qed (use far s1 in simp_all)
qed

lemma flush_so_far:
  assumes "sent_so_far pubs s" "flush_messages ps s = Some (out, s')" "\<forall>m\<in>set ps. buffered_ok m"
  shows "sent_so_far pubs s' \<and> to_slim out = ps"
  using assms
proof (induction ps arbitrary: s out)
  case (Cons p ps)
  from Cons.prems(2) obtain out1 s1 rest where step: "set_timer_and_send p s = Some (out1, s1)"
      "flush_messages ps s1 = Some (rest, s')" "out = out1 @ rest"
    by (auto simp: bind_eq_Some_conv)
  from send_so_far [OF Cons.prems(1) step(1)] Cons.prems(3) have "sent_so_far pubs s1" "out1 = [ToSlim p]"
    by (auto simp: buffered_ok_def)
  with Cons.IH [OF _ step(2)] step(3) Cons.prems(3) show ?case by auto
qed simp

lemma add_so_far:
  assumes inv: "sender_inv s" and far: "sent_so_far pubs s" and run: "sender_add_endpoint p s = Some (r, evs, s')"
  shows "sent_so_far pubs s' \<and> (\<forall>out. r = Inr out \<longrightarrow> (\<forall>p\<in>set (to_slim out). emission pubs p))"
proof -
  note d = sender_invD [OF inv]
  have iter: "buffered_ok m \<and> is_copy pubs m" if "m \<in> set (pb_iter (snd_buffer s))" for m
    using that pb_iter_correct [OF d(1)] pb_get_ids [OF d(1)] d(2) sent_so_farD(3) [OF far] by fastforce
  have eps: "sent_so_far pubs (s\<lparr>snd_endpoints := eps, snd_to_flush := t\<rparr>)" "sent_so_far pubs (s\<lparr>snd_endpoints := eps\<rparr>)" for eps t
    using far by (simp_all add: sent_so_far_def)
  consider (quiet) "s' = s \<or> (\<exists>eps. s' = s\<lparr>snd_endpoints := eps\<rparr>)" "r = Inr [] \<or> (\<exists>e. r = Inl e)"
    | (flush) eps out where "r = Inr out"
        "flush_messages (pb_iter (snd_buffer s)) (s\<lparr>snd_endpoints := eps, snd_to_flush := False\<rparr>) = Some (out, s')"
    using run
    by (auto simp: sender_add_endpoint_def Let_def bind_eq_Some_conv split: option.splits if_splits)
  then show ?thesis
  proof cases
    case quiet
    then show ?thesis using far eps(2) by auto
  next
    case flush
    with flush_so_far [OF eps(1) flush(2)] iter show ?thesis by (auto simp: emission_def)
  qed
qed

lemma call_so_far:
  assumes inv: "sender_inv s" and far: "sent_so_far pubs s" "length pubs < 2 ^ 31 - 1" and ok: "call_ok c" "app_call c"
    and run: "do_call x c s = Some (r, evs, s')"
  shows "keeps_so_far pubs c r s'"
proof (cases c)
  case (Call_Message rnd m tx)
  then show ?thesis using message_so_far [OF inv far] ok run by simp
next
  case (Call_Timeout i)
  then show ?thesis using timeout_so_far [OF far(1)] run by (simp add: keeps_so_far_def published_by_def)
next
  case (Call_Add p)
  then show ?thesis using add_so_far [OF inv far(1)] run by (simp add: keeps_so_far_def published_by_def)
next
  case (Call_Remove n)
  then obtain e where e: "enc_name n = Some e" using ok by auto
  have pend: "hget (snd_pending_acks s') = (\<lambda>i. without_endpoint e (hget (snd_pending_acks s) i))" and res: "r = Inr []"
    using remove_endpoint_inv [OF inv e] run Call_Remove by auto
  moreover have "snd_session_type s' = snd_session_type s" "snd_next_id s' = snd_next_id s" "snd_buffer s' = snd_buffer s"
    using run Call_Remove by (auto simp: sender_remove_endpoint_def Let_def)
  moreover have "stored = None" if "hget (snd_pending_acks s') i = Some (gt, stored)" for i gt stored
    using that sent_so_farD(4) [OF far(1)] by (auto simp: pend without_endpoint_Some)
  ultimately have "sent_so_far pubs s'" by (intro sent_so_far_same [OF far(1)]) auto
  then show ?thesis using res Call_Remove by (simp add: keeps_so_far_def published_by_def)
next
  case (Call_Timer_Failure i)
  then show ?thesis
    using run failure_so_far [OF far(1)]
    by (auto simp: keeps_so_far_def published_by_def sender_timer_failure_def split: prod.splits)
next
  case (Call_Slim_Failure e)
  then show ?thesis
    using run far(1) failure_so_far [OF far(1)]
    by (auto simp: keeps_so_far_def published_by_def sender_slim_failure_def split: prod.splits option.splits)
qed (use run far(1) in \<open>auto simp: keeps_so_far_def published_by_def sender_start_drain_def sender_close_def sent_so_far_def\<close>)

lemma run_so_far:
  assumes "sender_inv s" "sent_so_far pubs s" "length pubs + length cs < 2 ^ 31"
    and "\<forall>c\<in>set cs. call_ok c \<and> app_call c" "sender_run x cs s = Some (trace, s')"
  shows "\<forall>p\<in>emitted trace. emission (pubs @ published x cs s) p"
  using assms
proof (induction cs arbitrary: s pubs trace)
  case Nil
  then show ?case by (simp add: emitted_def)
next
  case (Cons c cs)
  from Cons.prems(5) obtain r evs s1 rest where step: "do_call x c s = Some (r, evs, s1)" "sender_run x cs s1 = Some (rest, s')"
      "trace = (case r of Inr out \<Rightarrow> out | Inl _ \<Rightarrow> [], evs) # rest"
    by (auto simp: bind_eq_Some_conv)
  have keep: "keeps_so_far pubs c r s1"
    using call_so_far [OF Cons.prems(1,2) _ _ _ step(1)] Cons.prems(3,4) by simp
  let ?new = "published_by c r"
  have "length ?new \<le> 1" by (auto simp: published_by_def split: sender_call.split sum.split)
  moreover have "sender_inv s1" using call_inv [OF Cons.prems(1), of c x] Cons.prems(4) step(1) by auto
  ultimately have "\<forall>p\<in>emitted rest. emission ((pubs @ ?new) @ published x cs s1) p"
    using Cons.IH [OF _ _ _ _ step(2), of "pubs @ ?new"] keep Cons.prems(3,4) by (auto simp: keeps_so_far_def)
  moreover have "\<forall>out. r = Inr out \<longrightarrow> (\<forall>p\<in>set (to_slim out). emission ((pubs @ ?new) @ published x cs s1) p)"
    using keep emission_more unfolding keeps_so_far_def by blast
  ultimately show ?case using step by (auto simp: emitted_def split: sum.splits)
qed

section \<open>From one end to the other\<close>

text \<open>What the network may change of a message: the routing fields of its header.\<close>

definition travels :: "proto_message \<Rightarrow> proto_message \<Rightarrow> bool" where
  "travels m m' \<longleftrightarrow>
     get_session_header m' = get_session_header m \<and> get_content m' = get_content m \<and> get_error m' = get_error m"

lemma travels_emission: "travels m m' \<Longrightarrow> emission pubs m \<Longrightarrow> emission pubs m'"
  by (simp add: travels_def emission_def is_copy_def is_refusal_def get_id_def get_session_message_type_def)

definition content_at :: "content option list \<Rightarrow> nat \<Rightarrow> content option" where
  "content_at pubs n = pubs ! (n - 1)"

text \<open>An arrival at the receiver: a message of the peer \<open>e\<close>, with an id of the sequence, that was emitted.\<close>

definition arrival_ok :: "encoded_name \<Rightarrow> proto_message set \<Rightarrow> proto_message \<Rightarrow> bool" where
  "arrival_ok e sent m \<longleftrightarrow>
     data_ok m \<and> get_encoded_source m = Some e \<and> (\<exists>i\<le>MAX_PUBLISH_ID. get_id m = Some i) \<and> (\<exists>m0\<in>sent. travels m0 m)"

lemma arrival_copy:
  assumes "arrival_ok e sent m" "\<forall>p\<in>sent. emission pubs p"
  shows "emission pubs m" "copy_in (content_at pubs) m"
proof -
  show em: "emission pubs m" using assms travels_emission by (auto simp: arrival_ok_def)
  from assms(1) obtain i where "get_id m = Some i" "i < 2 ^ 31"
    by (auto simp: arrival_ok_def MAX_PUBLISH_ID_def)
  with em show "copy_in (content_at pubs) m"
    by (auto simp: emission_def copy_in_def is_copy_def content_at_def)
qed

lemma arrives_published:
  assumes "Arrives n \<in> set (map event_of ms)" "\<forall>m\<in>set ms. emission pubs m"
  shows "0 < n \<and> n \<le> length pubs"
  using assms by (fastforce simp: event_of_def emission_def is_copy_def Let_def split: if_splits)

text \<open>The first arrival makes the buffer.\<close>

lemma buffer_steps_start:
  assumes "events_ok src (map event_of ms) (fresh_stream k)"
  shows "ms = [] \<or> buffer_steps fresh ms None = buffer_steps fresh ms (Some fresh)"
proof (cases ms)
  case (Cons m ms')
  then have "\<not> is_refusal m" using assms by (auto simp: event_of_def fresh_stream_def Let_def split: if_splits)
  then show ?thesis using Cons by (simp add: buffer_step_def)
qed simp

lemma single_sender:
  assumes "\<forall>m\<in>set ms. get_encoded_source m = Some e"
  shows "of_sender e ms = ms" "length outs = length ms \<Longrightarrow> results_of e ms outs = concat outs"
proof -
  show "of_sender e ms = ms" using assms by (simp add: of_sender_def)
  show "results_of e ms outs = concat outs" if "length outs = length ms"
    using that assms
  proof (induction ms arbitrary: outs)
    case Nil
    then show ?case by (simp add: results_of_def)
  next
    case (Cons m ms)
    then obtain out outs' where "outs = out # outs'" by (cases outs) auto
    with Cons show ?case by simp
  qed
qed

text \<open>What the receiver hands to the application, one by one.\<close>

definition in_order_of :: "content option list \<Rightarrow> stream_event list \<Rightarrow> nat \<Rightarrow> (session_error + proto_message) list \<Rightarrow> bool" where
  "in_order_of pubs es session_id res \<longleftrightarrow>
     (\<forall>i<length res. case res ! i of
        Inr m \<Rightarrow> i < length pubs \<and> get_content m = pubs ! i
      | Inl err \<Rightarrow> err = MessageLost session_id \<and> Given_Up (i + 1) \<in> set es)"

lemma results_in_order:
  assumes tr: "tracked (content_at pubs) 1 (map event_of ms) s" and ms: "\<forall>m\<in>set ms. emission pubs m"
    and held: "map (map_option get_content) outs = map (st_held s) [1..<st_next s]"
  shows "in_order_of pubs (map event_of ms) session_id (map (app_result session_id) outs)"
proof -
  have "case map (app_result session_id) outs ! i of
      Inr m \<Rightarrow> i < length pubs \<and> get_content m = pubs ! i
    | Inl err \<Rightarrow> err = MessageLost session_id \<and> Given_Up (i + 1) \<in> set (map event_of ms)"
    if "i < length outs" for i
  proof -
    have n: "length outs = st_next s - 1" using arg_cong [OF held, of length] by simp
    have hd: "map_option get_content (outs ! i) = st_held s (1 + i)" "1 + i < st_next s"
      using arg_cong [OF held, of "\<lambda>l. l ! i"] that n by simp_all
    show ?thesis
    proof (cases "outs ! i")
      case None
      then have "Given_Up (1 + i) \<in> set (map event_of ms)" using tr hd unfolding tracked_def by auto
      then show ?thesis using None that by (simp add: app_result_def)
    next
      case (Some m)
      then have "st_held s (1 + i) = Some (get_content m)" using hd(1) by simp
      then have "get_content m = content_at pubs (1 + i)" "Arrives (1 + i) \<in> set (map event_of ms)"
        using tr unfolding tracked_def by blast+
      then show ?thesis
        using arrives_published [OF _ ms, of "1 + i"] Some that by (simp add: app_result_def content_at_def)
    qed
  qed
  then show ?thesis by (simp add: in_order_of_def)
qed

text \<open>Every number up to \<open>j\<close> that arrived or was given up has its result.\<close>

definition releases_all :: "stream_event list \<Rightarrow> (session_error + proto_message) list \<Rightarrow> bool" where
  "releases_all es res \<longleftrightarrow>
     (\<forall>j. (\<forall>n. 1 \<le> n \<and> n \<le> j \<longrightarrow> Arrives n \<in> set es \<or> Given_Up n \<in> set es) \<longrightarrow> j \<le> length res)"

lemma results_complete:
  assumes "tracked src 1 es s" "settled s" "length res = st_next s - 1"
  shows "releases_all es res"
  unfolding releases_all_def
proof (intro allI impI)
  fix j
  assume "\<forall>n. 1 \<le> n \<and> n \<le> j \<longrightarrow> Arrives n \<in> set es \<or> Given_Up n \<in> set es"
  then have "j + 1 \<le> st_next s \<or> j + 1 \<le> 1" by (intro tracked_complete [OF assms(1,2)]) auto
  then show "j \<le> length res" using assms(3) by auto
qed

text \<open>A receiver with a single peer hands on what the buffer of that peer releases.\<close>

lemma single_sender_run:
  assumes ms: "\<forall>m\<in>set ms. data_ok m \<and> get_encoded_source m = Some e"
    and r: "rcv_timer_factory r \<noteq> None" "rcv_draining r = NotDraining"
    and steps: "buffer_steps (fresh_buffer r) ms (hget (rcv_buffer r) e) = Some (out, ob)"
  shows "\<exists>outs r'. receiver_run x ms r = Some (outs, r') \<and> concat outs = map (app_result (rcv_session_id r)) out"
proof -
  have one: "\<forall>m\<in>set ms. get_encoded_source m = Some e" and data: "\<forall>m\<in>set ms. data_ok m" using ms by auto
  have ne: "buffer_steps (fresh_buffer r) (of_sender f ms) (hget (rcv_buffer r) f) \<noteq> None" for f
  proof (cases "f = e")
    case False
    then have "of_sender f ms = []" using one by (auto simp: of_sender_def filter_empty_conv)
    then show ?thesis by simp
  qed (use steps single_sender(1) [OF one] in simp)
  note split = run_splits [OF data r, of x]
  show ?thesis
  proof (cases "receiver_run x ms r")
    case None
    then show ?thesis using split ne by simp
  next
    case (Some v)
    then obtain outs r' where v: "receiver_run x ms r = Some (outs, r')" by fastforce
    then have len: "length outs = length ms" and each: "\<exists>out. buffer_steps (fresh_buffer r) (of_sender e ms) (hget (rcv_buffer r) e) =
        Some (out, hget (rcv_buffer r') e) \<and> results_of e ms outs = map (app_result (rcv_session_id r)) out"
      using split by auto
    have "results_of e ms outs = map (app_result (rcv_session_id r)) out"
      using each steps single_sender(1) [OF one] by auto
    with v single_sender(2) [OF one len] show ?thesis by simp
  qed
qed

lemma received_in_order:
  assumes ms: "\<forall>m\<in>set ms. arrival_ok e sent m" and sent: "\<forall>p\<in>sent. emission pubs p"
    and win: "events_ok (content_at pubs) (map event_of ms) (fresh_stream 1)"
    and r: "r = receiver_new (Some settings) session_id local_name PointToPoint True"
  shows "\<exists>outs r'. receiver_run x ms r = Some (outs, r') \<and> in_order_of pubs (map event_of ms) session_id (concat outs) \<and>
    releases_all (map event_of ms) (concat outs)"
proof (cases "ms = []")
  case True
  have "releases_all [] []" unfolding releases_all_def by (auto simp: Suc_le_eq)
  with True show ?thesis by (simp add: in_order_of_def)
next
  case False
  let ?es = "map event_of ms" and ?f = "rb_starting_at (wire 1) :: proto_message receiver_buffer"
  have fresh: "fresh_buffer r = ?f" "rcv_buffer r = []" "rcv_session_id r = session_id" "rcv_timer_factory r \<noteq> None"
      "rcv_draining r = NotDraining"
    by (simp_all add: r fresh_buffer_def receiver_new_def FIRST_MESSAGE_ID_def wire_def)
  have copies: "\<forall>m\<in>set ms. copy_in (content_at pubs) m" "\<forall>m\<in>set ms. emission pubs m"
    using ms arrival_copy [OF _ sent] by blast+
  have "represents (map_buffer get_content ?f) (fresh_stream 1)" using fresh_represents [of 1] by simp
  then obtain outs b' where steps: "buffer_steps ?f ms (Some ?f) = Some (outs, Some b')"
      and run: "buffer_run (content_at pubs) ?es (map_buffer get_content ?f) = Some (map (map_option get_content) outs, map_buffer get_content b')"
    using buffer_steps_stream [OF copies(1) win] by blast
  obtain couts cb s' where s': "buffer_run (content_at pubs) ?es (rb_starting_at (wire 1)) = Some (couts, cb)" "represents cb s'"
      "tracked (content_at pubs) 1 ?es s'" "settled s'" "couts = map (st_held s') [1..<st_next s']"
    by (rule buffer_run_from [OF zero_less_one win])
  then have held: "map (map_option get_content) outs = map (st_held s') [1..<st_next s']" using run by simp
  then have order: "in_order_of pubs ?es session_id (map (app_result session_id) outs)"
    by (rule results_in_order [OF s'(3) copies(2)])
  have all: "releases_all ?es (map (app_result session_id) outs)"
    using results_complete [OF s'(3,4)] arg_cong [OF held, of length] by simp
  have "buffer_steps (fresh_buffer r) ms (hget (rcv_buffer r) e) = Some (outs, Some b')"
    using buffer_steps_start [OF win, of ?f] False steps fresh(1,2) by simp
  from single_sender_run [OF _ fresh(4,5) this, of x] ms order all fresh(3) show ?thesis
    by (auto simp: arrival_ok_def)
qed

lemma of_sender_twice: "of_sender f (of_sender e ms) = (if f = e then of_sender e ms else [])"
  by (auto simp: of_sender_def filter_empty_conv)

lemma of_sender_set: "m \<in> set (of_sender e ms) \<Longrightarrow> m \<in> set ms \<and> get_encoded_source m = Some e"
  by (simp add: of_sender_def)

text \<open>A receiver that only hears one of the senders fails or hands on what the buffer of that sender does.\<close>

lemma run_of_one:
  assumes "\<forall>m\<in>set ms. data_ok m" "rcv_timer_factory r \<noteq> None" "rcv_draining r = NotDraining"
  shows "case buffer_steps (fresh_buffer r) (of_sender e ms) (hget (rcv_buffer r) e) of
      None \<Rightarrow> receiver_run x (of_sender e ms) r = None
    | Some (out, ob) \<Rightarrow> \<exists>outs r'. receiver_run x (of_sender e ms) r = Some (outs, r') \<and>
        concat outs = map (app_result (rcv_session_id r)) out \<and> hget (rcv_buffer r') e = ob"
proof -
  let ?ms = "of_sender e ms"
  have data: "\<forall>m\<in>set ?ms. data_ok m" and one: "\<forall>m\<in>set ?ms. get_encoded_source m = Some e"
    using assms(1) of_sender_set by blast+
  note split = run_splits [OF data assms(2,3), of x]
  show ?thesis
  proof (cases "receiver_run x ?ms r")
    case None
    then obtain f where "buffer_steps (fresh_buffer r) (of_sender f ?ms) (hget (rcv_buffer r) f) = None" using split by auto
    then have "buffer_steps (fresh_buffer r) ?ms (hget (rcv_buffer r) e) = None" by (simp add: of_sender_twice split: if_splits)
    then show ?thesis using None by simp
  next
    case (Some v)
    then obtain outs r' where v: "receiver_run x ?ms r = Some (outs, r')" by fastforce
    then have len: "length outs = length ?ms" and each: "\<exists>out. buffer_steps (fresh_buffer r) (of_sender e ?ms) (hget (rcv_buffer r) e) =
        Some (out, hget (rcv_buffer r') e) \<and> results_of e ?ms outs = map (app_result (rcv_session_id r)) out"
      using split by auto
    from each show ?thesis using v single_sender(2) [OF one len] by (auto simp: of_sender_twice)
  qed
qed

end
