(* ===== verification/Link_Properties.thy ===== *)
theory Link_Properties
  imports Session_Link Datapath_Properties
begin

text \<open>
  The correctness properties of the two halves of a session: delivery from one end to the other,
  independence of the senders, and the completion of acknowledged messages.
\<close>

section \<open>A concrete session\<close>

definition peer_enc :: "u64 \<Rightarrow> encoded_name" where
  "peer_enc k = \<lparr>component_0 = k, component_1 = 0, component_2 = 0, enc_id = None\<rparr>"

definition peer_name :: "u64 \<Rightarrow> proto_name" where
  "peer_name k = \<lparr>enc_name = Some (peer_enc k), str_name = None\<rparr>"

definition demo_message :: "session_message_type \<Rightarrow> u64 \<Rightarrow> u64 \<Rightarrow> nat \<Rightarrow> string \<Rightarrow> nat option \<Rightarrow> proto_message" where
  "demo_message mt from to i payload conn =
     \<lparr>metadata = [], message_type = Some (Publish
        \<lparr>pub_header = Some \<lparr>hdr_source = Some (peer_name from), hdr_destination = Some (peer_name to), hdr_identity = [],
           hdr_fanout = 1, hdr_version = [], hdr_ttl = 8, hdr_recv_from = None, hdr_forward_to = None,
           hdr_incoming_conn = conn, hdr_error = None, hdr_mac = None, hdr_e2e_sig = None\<rparr>,
         pub_session = Some \<lparr>sh_session_type = PointToPoint, sh_message_type = mt, sh_session_id = 9, sh_message_id = i\<rparr>,
         pub_msg = Some (AppPayload payload [])\<rparr>)\<rparr>"

definition demo_endpoint :: "u64 \<Rightarrow> participant" where
  "demo_endpoint k = participant_new (peer_name k) bidirectional"

lemmas demo_defs = demo_message_def peer_name_def peer_enc_def demo_endpoint_def participant_new_def bidirectional_def

lemma demo_accessors [simp]:
  "publish_ok (demo_message mt from to i payload conn)"
  "get_session_message_type (demo_message mt from to i payload conn) = Some mt"
  "get_id (demo_message mt from to i payload conn) = Some i"
  "get_encoded_source (demo_message mt from to i payload conn) = Some (peer_enc from)"
  "get_encoded_dst (demo_message mt from to i payload conn) = Some (peer_enc to)"
  "get_incoming_conn (demo_message mt from to i payload conn) = conn"
  "get_error (demo_message mt from to i payload conn) = Some None"
  "get_content (demo_message mt from to i payload conn) = Some (AppPayload payload [])"
  "contains_metadata k (demo_message mt from to i payload conn) = False"
  "remove_metadata k (demo_message mt from to i payload conn) = demo_message mt from to i payload conn"
  by (simp_all add: publish_ok_def accessor_defs get_content_def contains_metadata_def remove_metadata_def demo_defs)

lemma peer_enc_eq [simp]: "peer_enc a = peer_enc b \<longleftrightarrow> a = b"
  by (simp add: peer_enc_def)

section \<open>From one end to the other\<close>



lemma demo_stamp [simp]:
  "snd_session_id s = 9 \<Longrightarrow> snd_session_type s = PointToPoint \<Longrightarrow> fanout = 1 \<Longrightarrow>
     stamp_message i fanout s (demo_message mt from to k payload conn) = Some (demo_message mt from to i payload conn)"
  by (simp add: stamp_message_def update_session_header_def update_slim_header_def demo_defs)













definition demo_receiver :: session_receiver where
  "demo_receiver = receiver_new (Some (settings_constant 5)) 9 (peer_name 2) PointToPoint True"


section \<open>Independence of the senders\<close>

text \<open>
  C6. The senders of a session do not disturb one another. A reliable receiver that gets the
  messages of any number of senders interleaved succeeds exactly when, for each sender, the receiver that
  gets the messages of this sender alone succeeds; the application then gets, on account of each sender, the
  very results the lone receiver hands over, and the buffers of that sender end up equal.
\<close>

theorem receivers_independent:
  assumes "\<forall>m\<in>set ms. data_ok m" "rcv_timer_factory r \<noteq> None" "rcv_draining r = NotDraining"
  shows "case receiver_run x ms r of
      None \<Rightarrow> \<exists>e. receiver_run x (of_sender e ms) r = None
    | Some (outs, r') \<Rightarrow> \<forall>e. \<exists>alone re. receiver_run x (of_sender e ms) r = Some (alone, re) \<and>
        results_of e ms outs = concat alone \<and> hget (rcv_buffer r') e = hget (rcv_buffer re) e"
proof (cases "receiver_run x ms r")
  case None
  then obtain e where "buffer_steps (fresh_buffer r) (of_sender e ms) (hget (rcv_buffer r) e) = None"
    using run_splits [OF assms, of x] by auto
  then show ?thesis using None run_of_one [OF assms, where e = e and x = x] by auto
next
  case (Some v)
  then obtain outs r' where v: "receiver_run x ms r = Some (outs, r')" by fastforce
  have "\<exists>alone re. receiver_run x (of_sender e ms) r = Some (alone, re) \<and>
      results_of e ms outs = concat alone \<and> hget (rcv_buffer r') e = hget (rcv_buffer re) e" for e
  proof -
    obtain out where "buffer_steps (fresh_buffer r) (of_sender e ms) (hget (rcv_buffer r) e) = Some (out, hget (rcv_buffer r') e)"
        "results_of e ms outs = map (app_result (rcv_session_id r)) out"
      using run_splits [OF assms, of x] v by auto
    then show ?thesis using run_of_one [OF assms, where e = e and x = x] by auto
  qed
  then show ?thesis using v by simp
qed

text \<open>Two senders, one of them with its messages out of order.\<close>

definition demo_two :: "proto_message list" where
  "demo_two = [demo_message Msg 1 2 2 ''b'' (Some 7), demo_message Msg 3 2 1 ''c'' (Some 8), demo_message Msg 1 2 1 ''a'' (Some 7)]"

theorem receivers_independent_witness:
  "case receiver_run demo_externs demo_two demo_receiver of
     None \<Rightarrow> \<exists>e. receiver_run demo_externs (of_sender e demo_two) demo_receiver = None
   | Some (outs, r') \<Rightarrow> \<forall>e. \<exists>alone re. receiver_run demo_externs (of_sender e demo_two) demo_receiver = Some (alone, re) \<and>
       results_of e demo_two outs = concat alone \<and> hget (rcv_buffer r') e = hget (rcv_buffer re) e"
  by (rule receivers_independent) (simp_all add: demo_two_def data_ok_def demo_receiver_def receiver_new_def)

section \<open>Acknowledged messages\<close>

text \<open>
  C8. The application learns that a message was received once, and exactly when every endpoint has
  acknowledged it. In any reachable state of a sender with timers and endpoints, publish a message with a
  notifier not in use and let any acknowledgements follow, in any order, repeated, of other messages or of
  strangers: the notifier gets no answer while an endpoint is missing and a single \<open>Ok\<close> otherwise.
\<close>

theorem acks_complete:
  assumes "\<forall>c\<in>set cs. call_ok c" "sender_run x cs (sender_new x settings session_id st signals) = Some (before, s)"
    and "snd_timer_factory s \<noteq> None" "snd_endpoints s \<noteq> []" "snd_draining s = NotDraining" "silent tx s"
    and "call_ok (Call_Message rnd m (Some tx))" "get_session_message_type m = Some Msg" "\<not> contains_metadata PUBLISH_TO m"
    and "\<forall>a\<in>set acks. is_ack a"
  shows "\<exists>i m1 evs trace s'. i = (snd_next_id s + 1) mod 2 ^ 32 mod 2 ^ 31 \<and> get_id m1 = Some i \<and> get_content m1 = get_content m \<and>
    sender_run x (Call_Message rnd m (Some tx) # map (\<lambda>a. Call_Message rnd a None) acks) s = Some (([ToSlim m1], evs) # trace, s') \<and>
    outcomes tx (evs @ concat (map snd trace)) = (if set (hkeys (snd_endpoints s)) \<subseteq> acked_by i acks then [Inr ()] else [])"
proof -
  let ?m = "if snd_session_type s = PointToPoint then remove_metadata PUBLISH_TO m else m"
  have inv: "sender_inv s" using run_inv [OF sender_new_inv assms(1), of x x settings session_id st signals] assms(2) by auto
  have "publish_ok ?m" using assms(7) by simp
  moreover have "\<not> contains_metadata PUBLISH_TO ?m" "get_content ?m = get_content m"
    using assms(9) by (auto simp: contains_metadata_def remove_metadata_def get_content_def)
  ultimately have m: "publish_ok ?m" "\<not> contains_metadata PUBLISH_TO ?m" "get_content ?m = get_content m" .
  obtain i m1 evs s1 where pub: "sender_on_publish rnd ?m (Some tx) s = Some (Inr [ToSlim m1], evs, s1)" "get_id m1 = Some i"
      "i = (snd_next_id s + 1) mod 2 ^ 32 mod 2 ^ 31" "get_content m1 = get_content m" "sender_inv s1"
      "awaits tx i (set (hkeys (snd_endpoints s))) s1" "snd_timer_factory s1 = snd_timer_factory s"
      "snd_draining s1 = snd_draining s" "outcomes tx evs = []"
    using publish_awaits [OF inv assms(3,4) m(1,2) assms(6), of rnd] assms(7) m(3) by auto
  have call: "do_call x (Call_Message rnd m (Some tx)) s = Some (Inr [ToSlim m1], evs, s1)"
    using assms(5,8) pub(1) by (simp add: sender_on_message_def)
  obtain trace s' where "sender_run x (map (\<lambda>a. Call_Message rnd a None) acks) s1 = Some (trace, s')"
      "outcomes tx (concat (map snd trace)) = (if set (hkeys (snd_endpoints s)) \<subseteq> acked_by i acks then [Inr ()] else [])"
    using acks_collected [OF assms(10) pub(5) _ _ pub(6), of x rnd] pub(7,8) assms(3-5) by auto
  with call pub(2-4,9) show ?thesis by auto
qed

definition demo_reliable :: session_sender where
  "demo_reliable = sender_new demo_externs (Some (settings_constant 5)) 9 PointToPoint True"

definition demo_joined :: session_sender where
  "demo_joined = demo_reliable\<lparr>snd_endpoints := [(peer_enc 2, peer_name 2)]\<rparr>"

lemma demo_join: "sender_add_endpoint (demo_endpoint 2) demo_reliable = Some (Inr [], [], demo_joined)"
  by (simp add: sender_add_endpoint_def demo_reliable_def demo_joined_def sender_new_def demo_endpoint_def participant_new_def
      bidirectional_def peer_name_def)

lemma demo_joined_run: "sender_run demo_externs [Call_Add (demo_endpoint 2)] demo_reliable = Some ([([], [])], demo_joined)"
  by (simp add: demo_join)

lemma demo_joined_simps [simp]:
  "snd_timer_factory demo_joined \<noteq> None" "snd_endpoints demo_joined = [(peer_enc 2, peer_name 2)]"
  "snd_draining demo_joined = NotDraining" "silent tx demo_joined" "snd_next_id demo_joined = 0"
  by (simp_all add: demo_joined_def demo_reliable_def sender_new_def silent_def FIRST_MESSAGE_ID_def)

definition demo_acks :: "proto_message list" where
  "demo_acks = [demo_message MsgAck 3 1 1 [] (Some 8), demo_message MsgAck 2 1 1 [] (Some 7)]"

lemma demo_acks_ok: "\<forall>a\<in>set demo_acks. is_ack a" "peer_enc 2 \<in> acked_by 1 demo_acks"
  by (simp_all add: demo_acks_def is_ack_def acked_by_def)

theorem acks_complete_witness:
  "\<exists>m1 evs trace s'. get_id m1 = Some 1 \<and>
     sender_run demo_externs (Call_Message 0 (demo_message Msg 1 2 0 ''a'' None) (Some 5) #
       map (\<lambda>a. Call_Message 0 a None) demo_acks) demo_joined = Some (([ToSlim m1], evs) # trace, s') \<and>
     outcomes 5 (evs @ concat (map snd trace)) = [Inr ()]"
proof -
  have ok: "\<forall>c\<in>set [Call_Add (demo_endpoint 2)]. call_ok c"
    by (simp add: demo_endpoint_def participant_new_def peer_name_def)
  show ?thesis
    using acks_complete [OF ok demo_joined_run [unfolded demo_reliable_def], where rnd = 0 and tx = 5 and acks = demo_acks
        and m = "demo_message Msg 1 2 0 ''a'' None"] demo_acks_ok by (auto simp del: One_nat_def)
qed

text \<open>
  C39. A notifier can be left without an answer. If the only endpoint that has not acknowledged a
  message is removed from the session, the message is no longer pending but its notifier stays: removing
  the endpoint does not signal it, no acknowledgement ever will, and the application hears only
  \<open>SessionClosed\<close>, when the session is closed.
\<close>

theorem stranded_notifier:
  assumes "\<forall>c\<in>set cs. call_ok c" "sender_run x cs (sender_new x settings session_id st signals) = Some (before, s)"
    and "snd_timer_factory s \<noteq> None" "snd_draining s \<noteq> Completed" "awaits tx j {e} s" "enc_name n = Some e"
    and "\<forall>a\<in>set acks. is_ack a" "rnd < 2 ^ 32"
  shows "\<exists>trace s'. sender_run x (Call_Remove n # map (\<lambda>a. Call_Message rnd a None) acks) s = Some (trace, s') \<and>
    outcomes tx (concat (map snd trace)) = [] \<and> hget (snd_pending_acks s') j = None \<and> hget (snd_notifiers s') j = Some tx \<and>
    outcomes tx (fst (sender_close s')) = [Inl SessionClosed]"
proof -
  have inv: "sender_inv s" using run_inv [OF sender_new_inv assms(1), of x x settings session_id st signals] assms(2) by auto
  obtain s1 where s1: "sender_remove_endpoint n s = Some s1" "stranded tx j s1" "sender_inv s1"
      "snd_timer_factory s1 = snd_timer_factory s" "snd_draining s1 = snd_draining s"
    using remove_strands [OF inv assms(5,6)] by blast
  obtain trace s' where run: "sender_run x (map (\<lambda>a. Call_Message rnd a None) acks) s1 = Some (trace, s')"
      "outcomes tx (concat (map snd trace)) = []" "stranded tx j s'"
    using acks_stranded [OF assms(7) s1(3) _ _ s1(2), of x rnd] s1(4,5) assms(3,4) by auto
  have "\<forall>c\<in>set (map (\<lambda>a. Call_Message rnd a None) acks). call_ok c" using assms(7,8) by (auto simp: is_ack_def)
  from run_inv [OF s1(3) this, of x] have "sender_inv s'" using run(1) by auto
  then have "outcomes tx (fst (sender_close s')) = [Inl SessionClosed]" using close_stranded run(3) by blast
  moreover have "hget (snd_pending_acks s') j = None" "hget (snd_notifiers s') j = Some tx" using run(3) by (simp_all add: stranded_def)
  ultimately show ?thesis using s1(1) run(1,2) by auto
qed

lemma demo_waiting:
  "\<exists>before s. sender_run demo_externs [Call_Add (demo_endpoint 2), Call_Message 0 (demo_message Msg 1 2 0 ''a'' None) (Some 5)] demo_reliable =
     Some (before, s) \<and> snd_timer_factory s \<noteq> None \<and> snd_draining s = NotDraining \<and> awaits 5 1 {peer_enc 2} s"
proof -
  have inv: "sender_inv demo_joined"
    using run_inv [OF sender_new_inv, of "[Call_Add (demo_endpoint 2)]" demo_externs demo_externs "Some (settings_constant 5)" 9 PointToPoint True]
      demo_joined_run by (simp add: demo_reliable_def demo_endpoint_def participant_new_def peer_name_def del: sender_run.simps)
  obtain m1 evs s1 where pub: "sender_on_publish 0 (demo_message Msg 1 2 0 ''a'' None) (Some 5) demo_joined = Some (Inr [ToSlim m1], evs, s1)"
      "awaits 5 1 {peer_enc 2} s1" "snd_timer_factory s1 = snd_timer_factory demo_joined" "snd_draining s1 = snd_draining demo_joined"
    using publish_awaits [OF inv demo_joined_simps(1), of "demo_message Msg 1 2 0 ''a'' None" 5 0] by (auto simp del: One_nat_def)
  then have "do_call demo_externs (Call_Message 0 (demo_message Msg 1 2 0 ''a'' None) (Some 5)) demo_joined = Some (Inr [ToSlim m1], evs, s1)"
    by (simp add: sender_on_message_def)
  then show ?thesis using pub(2-4) demo_joined_simps(1) by (simp add: demo_join del: not_None_eq)
qed

theorem stranded_notifier_witness:
  "\<exists>before s trace s'. sender_run demo_externs [Call_Add (demo_endpoint 2), Call_Message 0 (demo_message Msg 1 2 0 ''a'' None) (Some 5)] demo_reliable =
     Some (before, s) \<and>
     sender_run demo_externs (Call_Remove (peer_name 2) # map (\<lambda>a. Call_Message 0 a None) demo_acks) s = Some (trace, s') \<and>
     outcomes 5 (concat (map snd trace)) = [] \<and> outcomes 5 (fst (sender_close s')) = [Inl SessionClosed]"
proof -
  let ?cs = "[Call_Add (demo_endpoint 2), Call_Message 0 (demo_message Msg 1 2 0 ''a'' None) (Some 5)]"
  have ok: "\<forall>c\<in>set ?cs. call_ok c" by (simp add: demo_endpoint_def participant_new_def peer_name_def)
  obtain before s where run: "sender_run demo_externs ?cs demo_reliable = Some (before, s)"
    and s: "snd_timer_factory s \<noteq> None" "snd_draining s \<noteq> Completed" "awaits 5 1 {peer_enc 2} s"
    using demo_waiting by (metis drain_status.distinct(3))
  have n: "enc_name (peer_name 2) = Some (peer_enc 2)" by (simp add: peer_name_def)
  show ?thesis
    using stranded_notifier [OF ok run [unfolded demo_reliable_def] s n demo_acks_ok(1), of 0] run
    by (auto simp del: sender_run.simps)
qed

end
