(* ===== verification/Work_Queue.thy ===== *)
theory Work_Queue
  imports Slim_Prelude
begin

text \<open>
  The work queue of the control plane (\<open>control-plane/src/workqueue.rs\<close>), from which the reconcilers of
  \<open>route_service/reconciler.rs\<close> take the nodes to bring up to date. The operations are the sections
  under the lock of the queue; the step relation interleaves them with the notifications, which are sent
  after the lock is released, and with the waiting of the workers and of \<open>shutdown_with_drain\<close>.
\<close>

section \<open>State and operations\<close>

record 'a work_queue =
  wq_queue :: "'a list"
  wq_queued :: "'a set"
  wq_processing :: "'a set"
  wq_dirty :: "'a set"
  wq_shutdown :: bool
  wq_drain :: bool

definition wq_new :: "'a work_queue" where
  "wq_new = \<lparr>wq_queue = [], wq_queued = {}, wq_processing = {}, wq_dirty = {}, wq_shutdown = False, wq_drain = False\<rparr>"

text \<open>\<open>add\<close>; the flag says whether \<open>notify_one\<close> follows.\<close>

definition wq_add :: "'a \<Rightarrow> 'a work_queue \<Rightarrow> bool \<times> 'a work_queue" where
  "wq_add item g =
     (if wq_shutdown g \<or> item \<in> wq_queued g \<or> item \<in> wq_dirty g then (False, g)
      else if item \<in> wq_processing g then (False, g\<lparr>wq_dirty := insert item (wq_dirty g)\<rparr>)
      else (True, g\<lparr>wq_queue := wq_queue g @ [item], wq_queued := insert item (wq_queued g)\<rparr>))"

text \<open>One round of the loop of \<open>pop\<close>: an item, the end of the queue, or nothing yet.\<close>

datatype 'a popped = Popped 'a | Closed | Nothing_Yet

definition wq_pop :: "'a work_queue \<Rightarrow> 'a popped \<times> 'a work_queue" where
  "wq_pop g =
     (case wq_queue g of
        item # rest \<Rightarrow>
          (Popped item, g\<lparr>wq_queue := rest, wq_queued := wq_queued g - {item}, wq_processing := insert item (wq_processing g)\<rparr>)
      | [] \<Rightarrow> (if wq_shutdown g then Closed else Nothing_Yet, g))"

text \<open>\<open>done\<close>; the flags are \<open>re_queued\<close> and \<open>drain_complete\<close>.\<close>

definition wq_done :: "'a \<Rightarrow> 'a work_queue \<Rightarrow> (bool \<times> bool) \<times> 'a work_queue" where
  "wq_done item g =
     (if item \<notin> wq_processing g then ((False, False), g)
      else
        (let g1 = g\<lparr>wq_processing := wq_processing g - {item}\<rparr>;
             re_queued = item \<in> wq_dirty g1;
             g2 = (if re_queued
                   then g1\<lparr>wq_dirty := wq_dirty g1 - {item}, wq_queue := wq_queue g1 @ [item], wq_queued := insert item (wq_queued g1)\<rparr>
                   else g1)
         in ((re_queued, wq_drain g2 \<and> wq_processing g2 = {}), g2)))"

definition wq_close :: "'a work_queue \<Rightarrow> 'a work_queue" where
  "wq_close g = g\<lparr>wq_drain := False, wq_shutdown := True\<rparr>"

definition wq_close_with_drain :: "'a work_queue \<Rightarrow> 'a work_queue" where
  "wq_close_with_drain g = (if wq_shutdown g then g else g\<lparr>wq_drain := True, wq_shutdown := True\<rparr>)"

definition wq_drained :: "'a work_queue \<Rightarrow> bool" where
  "wq_drained g \<longleftrightarrow> \<not> wq_drain g \<or> wq_processing g = {}"

definition wq_len :: "'a work_queue \<Rightarrow> nat" where
  "wq_len g = length (wq_queue g)"

definition wq_is_empty :: "'a work_queue \<Rightarrow> bool" where
  "wq_is_empty g \<longleftrightarrow> wq_queue g = []"

named_theorems wq_defs

lemmas [wq_defs] = wq_add_def wq_pop_def wq_done_def wq_close_def wq_close_with_drain_def

section \<open>Invariant\<close>

text \<open>
  Each item waits at most once in the queue, a queued item is not being processed, and only items being
  processed are dirty.
\<close>

definition wq_inv :: "'a work_queue \<Rightarrow> bool" where
  "wq_inv g \<longleftrightarrow> distinct (wq_queue g) \<and> wq_queued g = set (wq_queue g) \<and> set (wq_queue g) \<inter> wq_processing g = {} \<and>
     wq_dirty g \<subseteq> wq_processing g"

lemma wq_new_inv: "wq_inv wq_new"
  by (simp add: wq_inv_def wq_new_def)

lemma wq_add_inv: "wq_inv g \<Longrightarrow> wq_inv (snd (wq_add item g))"
  by (auto simp: wq_inv_def wq_add_def)

lemma wq_pop_inv: "wq_inv g \<Longrightarrow> wq_inv (snd (wq_pop g))"
  by (auto simp: wq_inv_def wq_pop_def split: list.splits)

lemma wq_done_inv: "wq_inv g \<Longrightarrow> wq_inv (snd (wq_done item g))"
  by (auto simp: wq_inv_def wq_done_def Let_def)

lemma wq_close_inv: "wq_inv g \<Longrightarrow> wq_inv (wq_close g)" "wq_inv g \<Longrightarrow> wq_inv (wq_close_with_drain g)"
  by (simp_all add: wq_inv_def wq_close_def wq_close_with_drain_def)

section \<open>No work is lost\<close>

text \<open>
  The work still to do: what waits in the queue, in the order in which it will be handed out, and what
  was added again while being processed.
\<close>

definition wq_pending :: "'a work_queue \<Rightarrow> 'a set" where
  "wq_pending g = set (wq_queue g) \<union> wq_dirty g"

lemma wq_add_pending: "wq_inv g \<Longrightarrow> wq_pending (snd (wq_add item g)) = (if wq_shutdown g then wq_pending g else insert item (wq_pending g))"
  by (auto simp: wq_inv_def wq_pending_def wq_add_def)

lemma wq_done_pending: "wq_inv g \<Longrightarrow> wq_pending (snd (wq_done item g)) = wq_pending g"
  by (auto simp: wq_inv_def wq_pending_def wq_done_def Let_def)

lemma wq_close_pending: "wq_pending (wq_close g) = wq_pending g" "wq_pending (wq_close_with_drain g) = wq_pending g"
  by (simp_all add: wq_pending_def wq_close_def wq_close_with_drain_def)

lemma wq_pop_pending:
  "wq_inv g \<Longrightarrow> wq_pop g = (r, g') \<Longrightarrow>
     (case r of Popped item \<Rightarrow> item \<in> wq_pending g \<and> wq_pending g' = wq_pending g - {item} | _ \<Rightarrow> wq_pending g' = wq_pending g \<and> wq_queue g = [])"
  by (auto simp: wq_inv_def wq_pending_def wq_pop_def split: list.splits)

datatype 'a queue_call = Q_Add 'a | Q_Pop | Q_Done 'a | Q_Shutdown | Q_Shutdown_With_Drain

fun make_call :: "'a queue_call \<Rightarrow> 'a work_queue \<Rightarrow> 'a option \<times> 'a work_queue" where
  "make_call (Q_Add item) g = (None, snd (wq_add item g))"
| "make_call Q_Pop g = (case wq_pop g of (Popped item, g') \<Rightarrow> (Some item, g') | (_, g') \<Rightarrow> (None, g'))"
| "make_call (Q_Done item) g = (None, snd (wq_done item g))"
| "make_call Q_Shutdown g = (None, wq_close g)"
| "make_call Q_Shutdown_With_Drain g = (None, wq_close_with_drain g)"

fun queue_run :: "'a queue_call list \<Rightarrow> 'a work_queue \<Rightarrow> 'a option list \<times> 'a work_queue" where
  "queue_run [] g = ([], g)"
| "queue_run (c # cs) g = (case make_call c g of (r, g1) \<Rightarrow> (case queue_run cs g1 of (rs, g2) \<Rightarrow> (r # rs, g2)))"

lemma make_call_inv: "wq_inv g \<Longrightarrow> make_call c g = (r, g') \<Longrightarrow> wq_inv g'"
  using wq_add_inv wq_pop_inv wq_done_inv wq_close_inv
  by (cases c) (force split: prod.splits popped.splits)+

lemma make_call_pending:
  assumes "wq_inv g" "make_call c g = (r, g')" "item \<in> wq_pending g"
  shows "item \<in> wq_pending g' \<or> r = Some item"
  using assms wq_pop_pending [OF assms(1)]
  by (cases c) (fastforce simp: wq_add_pending wq_done_pending wq_close_pending split: prod.splits popped.splits)+

lemma queue_run_inv: "wq_inv g \<Longrightarrow> queue_run cs g = (rs, g') \<Longrightarrow> wq_inv g'"
  by (induction cs arbitrary: g rs) (auto split: prod.splits dest: make_call_inv)

lemma queue_run_pending:
  assumes "wq_inv g" "queue_run cs g = (rs, g')" "item \<in> wq_pending g"
  shows "item \<in> wq_pending g' \<or> Some item \<in> set rs"
  using assms
proof (induction cs arbitrary: g rs)
  case (Cons c cs)
  obtain r g1 where c: "make_call c g = (r, g1)" by fastforce
  obtain rs1 where cs: "queue_run cs g1 = (rs1, g')" "rs = r # rs1" using Cons.prems(2) c by (auto split: prod.splits)
  from make_call_pending [OF Cons.prems(1) c Cons.prems(3)] show ?case
  proof
    assume "item \<in> wq_pending g1"
    then show ?thesis using Cons.IH [OF make_call_inv [OF Cons.prems(1) c] cs(1)] cs(2) by auto
  qed (simp add: cs)
qed simp

lemma make_call_source:
  assumes "wq_inv g" "make_call c g = (r, g')"
  shows "wq_pending g' \<subseteq> wq_pending g \<union> {item. c = Q_Add item} \<and> (\<forall>item. r = Some item \<longrightarrow> item \<in> wq_pending g)"
  using assms wq_pop_pending [OF assms(1)]
  by (cases c) (fastforce simp: wq_add_pending wq_done_pending wq_close_pending split: prod.splits popped.splits if_splits)+

lemma queue_run_source:
  assumes "wq_inv g" "queue_run cs g = (rs, g')" "Some item \<in> set rs \<or> item \<in> wq_pending g'"
  shows "item \<in> wq_pending g \<or> Q_Add item \<in> set cs"
  using assms
proof (induction cs arbitrary: g rs)
  case (Cons c cs)
  obtain r g1 where c: "make_call c g = (r, g1)" by fastforce
  obtain rs1 where cs: "queue_run cs g1 = (rs1, g')" "rs = r # rs1" using Cons.prems(2) c by (auto split: prod.splits)
  note src = make_call_source [OF Cons.prems(1) c]
  show ?case
  proof (cases "r = Some item")
    case False
    then have "item \<in> wq_pending g1 \<or> Q_Add item \<in> set cs"
      using Cons.IH [OF make_call_inv [OF Cons.prems(1) c] cs(1)] Cons.prems(3) cs(2) by auto
    then show ?thesis using src by auto
  qed (use src in auto)
qed simp

section \<open>Workers, notifications and draining\<close>

text \<open>
  A worker runs \<open>while let Some(item) = queue.pop().await { ...; queue.done(&item) }\<close>. It is about to lock the
  queue, has found it empty and released the lock, waits on \<open>notify\<close>, processes an item, or has left the
  loop. A caller of \<open>shutdown_with_drain\<close> has enabled its future, which may have been completed in the
  meantime, and is about to check; or it sleeps; or it has returned.
\<close>

datatype 'a worker = Ready | Empty_Seen | Waiting | Working 'a | Returned

datatype drainer = Enabled bool | Sleeping | Drained

record 'a wq_system =
  sys_queue :: "'a work_queue"
  sys_permit :: bool
  sys_owed :: nat
  sys_wake_all :: nat
  sys_drain_owed :: nat
  sys_workers :: "'a worker list"
  sys_drainers :: "drainer list"
  sys_delayed :: "'a list"

text \<open>
  \<open>sys_owed\<close>, \<open>sys_wake_all\<close> and \<open>sys_drain_owed\<close> count the calls of \<open>notify.notify_one\<close>,
  \<open>notify.notify_waiters\<close> and \<open>drain_notify.notify_waiters\<close> still to come from tasks that have released the
  lock. \<open>notify_one\<close> wakes a waiter or else stores a single permit; \<open>notify_waiters\<close> wakes those who wait and
  stores nothing. \<open>sys_delayed\<close> are the tasks of \<open>add_after\<close>.
\<close>

definition sys_start :: "nat \<Rightarrow> 'a wq_system" where
  "sys_start n =
     \<lparr>sys_queue = wq_new, sys_permit = False, sys_owed = 0, sys_wake_all = 0, sys_drain_owed = 0,
      sys_workers = replicate n Ready, sys_drainers = [], sys_delayed = []\<rparr>"

definition sys_add :: "'a \<Rightarrow> 'a wq_system \<Rightarrow> 'a wq_system" where
  "sys_add item s =
     (case wq_add item (sys_queue s) of (notify, g) \<Rightarrow> s\<lparr>sys_queue := g, sys_owed := sys_owed s + of_bool notify\<rparr>)"

definition sys_notify_one :: "nat \<Rightarrow> 'a wq_system \<Rightarrow> 'a wq_system option" where
  "sys_notify_one i s =
     (if sys_owed s = 0 then None
      else if i < length (sys_workers s) \<and> sys_workers s ! i = Waiting
      then Some (s\<lparr>sys_owed := sys_owed s - 1, sys_workers := (sys_workers s)[i := Ready]\<rparr>)
      else if Waiting \<in> set (sys_workers s) then None
      else Some (s\<lparr>sys_owed := sys_owed s - 1, sys_permit := True\<rparr>))"

text \<open>The next action of worker \<open>i\<close>.\<close>

definition sys_work :: "nat \<Rightarrow> 'a wq_system \<Rightarrow> 'a wq_system option" where
  "sys_work i s =
     (if length (sys_workers s) \<le> i then None
      else
        (case sys_workers s ! i of
           Ready \<Rightarrow>
             (case wq_pop (sys_queue s) of
                (r, g) \<Rightarrow>
                  Some (s\<lparr>sys_queue := g,
                    sys_workers := (sys_workers s)[i := (case r of Popped item \<Rightarrow> Working item | Closed \<Rightarrow> Returned | Nothing_Yet \<Rightarrow> Empty_Seen)]\<rparr>))
         | Empty_Seen \<Rightarrow>
             Some (if sys_permit s then s\<lparr>sys_permit := False, sys_workers := (sys_workers s)[i := Ready]\<rparr>
                   else s\<lparr>sys_workers := (sys_workers s)[i := Waiting]\<rparr>)
         | Working item \<Rightarrow>
             (case wq_done item (sys_queue s) of
                ((re_queued, drain_complete), g) \<Rightarrow>
                  Some (s\<lparr>sys_queue := g, sys_owed := sys_owed s + of_bool re_queued,
                    sys_drain_owed := sys_drain_owed s + of_bool drain_complete,
                    sys_workers := (sys_workers s)[i := Ready]\<rparr>))
         | _ \<Rightarrow> None))"

fun awake :: "'a worker \<Rightarrow> 'a worker" where
  "awake Waiting = Ready"
| "awake w = w"

fun drain_wake :: "drainer \<Rightarrow> drainer" where
  "drain_wake (Enabled _) = Enabled True"
| "drain_wake Sleeping = Enabled False"
| "drain_wake Drained = Drained"

definition drain_check :: "'a work_queue \<Rightarrow> drainer \<Rightarrow> drainer" where
  "drain_check g d =
     (case d of Enabled notified \<Rightarrow> if wq_drained g then Drained else if notified then Enabled False else Sleeping | _ \<Rightarrow> d)"

datatype 'a sys_event =
    E_Add 'a | E_Add_After 'a | E_Delay_Over 'a | E_Delay_Cancelled 'a | E_Shutdown | E_Shutdown_With_Drain
  | E_Work nat | E_Notify_One nat | E_Wake_All | E_Drain_Notify | E_Drain_Check nat

fun sys_next :: "'a sys_event \<Rightarrow> 'a wq_system \<Rightarrow> 'a wq_system option" where
  "sys_next (E_Add item) s = Some (sys_add item s)"
| "sys_next (E_Add_After item) s =
     Some (if wq_shutdown (sys_queue s) then s else s\<lparr>sys_delayed := item # sys_delayed s\<rparr>)"
| "sys_next (E_Delay_Over item) s =
     (if item \<in> set (sys_delayed s) then Some (sys_add item (s\<lparr>sys_delayed := remove1 item (sys_delayed s)\<rparr>)) else None)"
| "sys_next (E_Delay_Cancelled item) s =
     (if wq_shutdown (sys_queue s) \<and> item \<in> set (sys_delayed s)
      then Some (s\<lparr>sys_delayed := remove1 item (sys_delayed s)\<rparr>) else None)"
| "sys_next E_Shutdown s =
     Some (s\<lparr>sys_queue := wq_close (sys_queue s), sys_wake_all := sys_wake_all s + 1, sys_drain_owed := sys_drain_owed s + 1\<rparr>)"
| "sys_next E_Shutdown_With_Drain s =
     Some (s\<lparr>sys_queue := wq_close_with_drain (sys_queue s), sys_wake_all := sys_wake_all s + 1,
       sys_drainers := sys_drainers s @ [Enabled False]\<rparr>)"
| "sys_next (E_Work i) s = sys_work i s"
| "sys_next (E_Notify_One i) s = sys_notify_one i s"
| "sys_next E_Wake_All s =
     (if sys_wake_all s = 0 then None
      else Some (s\<lparr>sys_wake_all := sys_wake_all s - 1, sys_workers := map awake (sys_workers s)\<rparr>))"
| "sys_next E_Drain_Notify s =
     (if sys_drain_owed s = 0 then None
      else Some (s\<lparr>sys_drain_owed := sys_drain_owed s - 1, sys_drainers := map drain_wake (sys_drainers s)\<rparr>))"
| "sys_next (E_Drain_Check i) s =
     (if i < length (sys_drainers s)
      then Some (s\<lparr>sys_drainers := (sys_drainers s)[i := drain_check (sys_queue s) (sys_drainers s ! i)]\<rparr>) else None)"

inductive sys_reachable :: "nat \<Rightarrow> 'a wq_system \<Rightarrow> bool" for n where
  start: "sys_reachable n (sys_start n)"
| step: "sys_reachable n s \<Longrightarrow> sys_next e s = Some s' \<Longrightarrow> sys_reachable n s'"

section \<open>The invariant of the system\<close>

text \<open>Some worker will look at the queue again, or a notification is on its way.\<close>

fun at_work :: "'a worker \<Rightarrow> bool" where
  "at_work Ready \<longleftrightarrow> True"
| "at_work (Working _) \<longleftrightarrow> True"
| "at_work _ \<longleftrightarrow> False"

definition attended :: "'a wq_system \<Rightarrow> bool" where
  "attended s \<longleftrightarrow> 0 < sys_owed s \<or> sys_permit s \<or> (\<exists>w\<in>set (sys_workers s). at_work w)"

definition held_once :: "'a worker list \<Rightarrow> 'a set \<Rightarrow> bool" where
  "held_once ws held \<longleftrightarrow> (\<forall>item. item \<in> held \<longleftrightarrow> Working item \<in> set ws) \<and>
     (\<forall>i j item. i < length ws \<longrightarrow> j < length ws \<longrightarrow> ws ! i = Working item \<longrightarrow> ws ! j = Working item \<longrightarrow> i = j)"

definition sys_inv :: "'a wq_system \<Rightarrow> bool" where
  "sys_inv s \<longleftrightarrow> wq_inv (sys_queue s) \<and> held_once (sys_workers s) (wq_processing (sys_queue s)) \<and>
     (wq_queue (sys_queue s) \<noteq> [] \<longrightarrow> attended s) \<and>
     (Sleeping \<in> set (sys_drainers s) \<longrightarrow> \<not> wq_drained (sys_queue s) \<or> 0 < sys_drain_owed s)"

lemma held_idle:
  assumes "held_once ws held" "\<forall>item. ws ! i \<noteq> Working item" "\<forall>item. w \<noteq> Working item"
  shows "held_once (ws[i := w]) held"
proof (cases "i < length ws")
  case True
  have "Working item \<in> set (ws[i := w]) \<longleftrightarrow> Working item \<in> set ws" for item
    using assms(2,3) True by (metis in_set_conv_nth length_list_update nth_list_update)
  then show ?thesis using assms True unfolding held_once_def by (metis length_list_update nth_list_update)
qed (use assms(1) in \<open>simp add: list_update_beyond\<close>)

lemma held_take:
  assumes "held_once ws held" "i < length ws" "\<forall>item. ws ! i \<noteq> Working item" "item \<notin> held"
  shows "held_once (ws[i := Working item]) (insert item held)"
proof -
  have "Working x \<in> set (ws[i := Working item]) \<longleftrightarrow> x = item \<or> Working x \<in> set ws" for x
    using assms(2,3) by (metis in_set_conv_nth length_list_update nth_list_update worker.inject)
  moreover have "ws ! j \<noteq> Working item" if "j < length ws" for j using assms(1,4) that unfolding held_once_def by (metis nth_mem)
  ultimately show ?thesis
    using assms(1,2) unfolding held_once_def by (auto simp: nth_list_update split: if_splits)
qed

lemma held_leave:
  assumes "held_once ws held" "i < length ws" "ws ! i = Working item" "\<forall>x. w \<noteq> Working x"
  shows "held_once (ws[i := w]) (held - {item})"
proof -
  have "Working x \<in> set (ws[i := w]) \<longleftrightarrow> x \<noteq> item \<and> Working x \<in> set ws" for x
    using assms unfolding held_once_def by (metis in_set_conv_nth length_list_update nth_list_update worker.inject)
  then show ?thesis
    using assms(1,2,4) unfolding held_once_def by (auto simp: nth_list_update split: if_splits)
qed

lemma held_awake: "held_once ws held \<Longrightarrow> held_once (map awake ws) held"
proof -
  have aw: "awake w = Working x \<longleftrightarrow> w = Working x" for w :: "'a worker" and x by (cases w) auto
  have "Working x \<in> set (map awake ws) \<longleftrightarrow> Working x \<in> set ws" for x by (auto simp: aw image_iff) (metis aw)+
  then show "held_once ws held \<Longrightarrow> held_once (map awake ws) held" unfolding held_once_def by (simp add: aw)
qed

lemma attended_update:
  assumes "i < length ws" "at_work w" "sys_workers s = ws[i := w]"
  shows "attended s"
  using assms by (auto simp: attended_def intro: bexI [OF _ set_update_memI])

lemma sys_start_inv: "sys_inv (sys_start n)"
proof -
  have "held_once (replicate n Ready) {}" by (simp add: held_once_def)
  then show ?thesis by (simp add: sys_inv_def sys_start_def wq_new_inv) (simp add: wq_new_def)
qed

lemma sys_add_inv:
  assumes "sys_inv s"
  shows "sys_inv (sys_add item s)"
proof -
  obtain notify g where add: "wq_add item (sys_queue s) = (notify, g)" by fastforce
  have "wq_inv g" using wq_add_inv [of "sys_queue s" item] assms add by (simp add: sys_inv_def)
  moreover have "wq_processing g = wq_processing (sys_queue s)" "wq_drained g = wq_drained (sys_queue s)"
      "notify \<or> wq_queue g = wq_queue (sys_queue s)"
    using add by (auto simp: wq_add_def wq_drained_def split: if_splits)
  ultimately show ?thesis using assms by (auto simp: sys_inv_def sys_add_def add attended_def)
qed

lemma sys_work_inv:
  assumes inv: "sys_inv s" and step: "sys_work i s = Some s'"
  shows "sys_inv s'"
proof -
  let ?g = "sys_queue s" and ?ws = "sys_workers s"
  have i: "i < length ?ws" using step by (simp add: sys_work_def split: if_splits)
  have g: "wq_inv ?g" "held_once ?ws (wq_processing ?g)"
      and q: "wq_queue ?g \<noteq> [] \<Longrightarrow> attended s" and d: "Sleeping \<in> set (sys_drainers s) \<Longrightarrow> \<not> wq_drained ?g \<or> 0 < sys_drain_owed s"
    using inv by (simp_all add: sys_inv_def)
  show ?thesis
  proof (cases "?ws ! i")
    case Ready
    then have idle: "\<forall>item. ?ws ! i \<noteq> Working item" by simp
    show ?thesis
    proof (cases "wq_queue ?g")
      case Nil
      then show ?thesis
        using step i Ready g d held_idle [OF g(2) idle] by (auto simp: sys_work_def wq_pop_def sys_inv_def)
    next
      case (Cons item rest)
      then obtain g1 where pop: "wq_pop ?g = (Popped item, g1)" "wq_processing g1 = insert item (wq_processing ?g)"
          "wq_drain g1 = wq_drain ?g" by (simp add: wq_pop_def)
      then have s': "s' = s\<lparr>sys_queue := g1, sys_workers := ?ws[i := Working item]\<rparr>"
        using step i Ready by (simp add: sys_work_def)
      have "item \<notin> wq_processing ?g" using g(1) Cons by (auto simp: wq_inv_def)
      then have "held_once (?ws[i := Working item]) (insert item (wq_processing ?g))" by (rule held_take [OF g(2) i idle])
      moreover have "attended s'" by (rule attended_update [OF i, of "Working item"]) (simp_all add: s')
      ultimately show ?thesis using wq_pop_inv [OF g(1)] pop d by (auto simp: sys_inv_def s' wq_drained_def)
    qed
  next
    case Empty_Seen
    then have idle: "\<forall>item. ?ws ! i \<noteq> Working item" by simp
    show ?thesis
    proof (cases "sys_permit s")
      case True
      then have s': "s' = s\<lparr>sys_permit := False, sys_workers := ?ws[i := Ready]\<rparr>" using step i Empty_Seen by (simp add: sys_work_def)
      have "attended s'" by (rule attended_update [OF i, of Ready]) (simp_all add: s')
      then show ?thesis using g d held_idle [OF g(2) idle, of Ready] by (simp add: sys_inv_def s')
    next
      case False
      then have s': "s' = s\<lparr>sys_workers := ?ws[i := Waiting]\<rparr>" using step i Empty_Seen by (simp add: sys_work_def)
      have "attended s \<Longrightarrow> attended s'"
        using i Empty_Seen unfolding attended_def s' by simp (metis at_work.simps(3) in_set_conv_nth length_list_update nth_list_update_neq)
      then show ?thesis using g d q held_idle [OF g(2) idle, of Waiting] by (simp add: sys_inv_def s')
    qed
  next
    case (Working item)
    obtain rq dc g1 where fin: "wq_done item ?g = ((rq, dc), g1)" by (metis prod.collapse)
    then have s': "s' = s\<lparr>sys_queue := g1, sys_owed := sys_owed s + of_bool rq, sys_drain_owed := sys_drain_owed s + of_bool dc,
        sys_workers := ?ws[i := Ready]\<rparr>" using step i Working by (simp add: sys_work_def)
    have "item \<in> wq_processing ?g" using g(2) i Working unfolding held_once_def by (metis nth_mem)
    then have left: "wq_processing g1 = wq_processing ?g - {item}" and dc: "dc \<longleftrightarrow> wq_drain g1 \<and> wq_processing g1 = {}"
      using fin by (auto simp: wq_done_def Let_def split: if_splits)
    have "held_once (?ws[i := Ready]) (wq_processing g1)" unfolding left by (rule held_leave [OF g(2) i Working]) simp
    moreover have "\<not> wq_drained g1 \<or> 0 < sys_drain_owed s'" if "Sleeping \<in> set (sys_drainers s)"
    proof (cases "wq_drain ?g")
      case True
      then have "wq_drain g1" using fin by (auto simp: wq_done_def Let_def split: if_splits)
      then show ?thesis using dc by (cases "wq_processing g1 = {}") (simp_all add: wq_drained_def s')
    qed (use d [OF that] s' in \<open>simp add: wq_drained_def\<close>)
    moreover have "attended s'" by (rule attended_update [OF i, of Ready]) (simp_all add: s')
    moreover have "wq_inv g1" using wq_done_inv [OF g(1), of item] fin by simp
    ultimately show ?thesis by (simp add: sys_inv_def s')
  qed (use step i in \<open>simp_all add: sys_work_def\<close>)
qed

lemma sys_notify_inv:
  assumes inv: "sys_inv s" and step: "sys_notify_one i s = Some s'"
  shows "sys_inv s'"
proof (cases "i < length (sys_workers s) \<and> sys_workers s ! i = Waiting")
  case True
  then have s': "s' = s\<lparr>sys_owed := sys_owed s - 1, sys_workers := (sys_workers s)[i := Ready]\<rparr>"
    using step by (simp add: sys_notify_one_def split: if_splits)
  have "attended s'" using True by (intro attended_update [of i "sys_workers s" Ready]) (simp_all add: s')
  moreover have "held_once ((sys_workers s)[i := Ready]) (wq_processing (sys_queue s))"
    using inv True by (intro held_idle) (simp_all add: sys_inv_def)
  ultimately show ?thesis using inv by (simp add: sys_inv_def s')
next
  case False
  then have "s' = s\<lparr>sys_owed := sys_owed s - 1, sys_permit := True\<rparr>"
    using step by (auto simp: sys_notify_one_def split: if_splits)
  then show ?thesis using inv by (simp add: sys_inv_def attended_def)
qed

lemma drain_check_inv:
  assumes "Sleeping \<in> set (ds[i := drain_check g (ds ! i)])" "i < length ds"
  shows "Sleeping \<in> set ds \<or> \<not> wq_drained g"
  using assms set_update_subset_insert [of ds i "drain_check g (ds ! i)"]
  by (auto simp: drain_check_def split: drainer.splits if_splits) (metis nth_mem)+

lemma wq_close_same [simp]:
  "wq_processing (wq_close g) = wq_processing g" "wq_queue (wq_close g) = wq_queue g"
  "wq_processing (wq_close_with_drain g) = wq_processing g" "wq_queue (wq_close_with_drain g) = wq_queue g"
  by (simp_all add: wq_close_def wq_close_with_drain_def)

lemma close_with_drain_drained: "wq_drained (wq_close_with_drain g) \<Longrightarrow> wq_drained g"
  by (auto simp: wq_close_with_drain_def wq_drained_def split: if_splits)

lemma not_sleeping: "Sleeping \<notin> set (map drain_wake ds)"
proof -
  have "drain_wake d \<noteq> Sleeping" for d by (cases d) auto
  then show ?thesis by (metis (no_types, lifting) imageE set_map)
qed

lemma awake_attended:
  assumes "attended s" "sys_workers s' = map awake (sys_workers s)" "sys_owed s' = sys_owed s" "sys_permit s' = sys_permit s"
  shows "attended s'"
proof -
  have "at_work (awake w)" if "at_work w" for w :: "'a worker" using that by (cases w) auto
  then show ?thesis using assms by (auto simp: attended_def)
qed

lemma sys_inv_same:
  assumes "sys_inv s" "sys_queue s' = sys_queue s" "sys_workers s' = sys_workers s" "sys_owed s' = sys_owed s"
    "sys_permit s' = sys_permit s" "sys_drain_owed s' = sys_drain_owed s"
    "Sleeping \<in> set (sys_drainers s') \<Longrightarrow> Sleeping \<in> set (sys_drainers s) \<or> \<not> wq_drained (sys_queue s)"
  shows "sys_inv s'"
  using assms(1,7) by (auto simp: sys_inv_def attended_def assms(2-6))

lemma sys_next_inv:
  assumes inv: "sys_inv s" and step: "sys_next e s = Some s'"
  shows "sys_inv s'"
proof -
  note d = inv [unfolded sys_inv_def]
  show ?thesis
  proof (cases e)
    case (E_Add item)
    then show ?thesis using step sys_add_inv [OF inv, of item] by simp
  next
    case (E_Work i)
    then show ?thesis using step sys_work_inv [OF inv] by simp
  next
    case (E_Notify_One i)
    then show ?thesis using step sys_notify_inv [OF inv] by simp
  next
    case (E_Add_After item)
    then show ?thesis using step by (intro sys_inv_same [OF inv]) (auto split: if_splits)
  next
    case (E_Delay_Cancelled item)
    then show ?thesis using step by (intro sys_inv_same [OF inv]) (auto split: if_splits)
  next
    case (E_Delay_Over item)
    have "sys_inv (s\<lparr>sys_delayed := remove1 item (sys_delayed s)\<rparr>)" by (rule sys_inv_same [OF inv]) simp_all
    from sys_add_inv [OF this, of item] show ?thesis using step E_Delay_Over by (simp split: if_splits)
  next
    case E_Shutdown
    then have "s' = s\<lparr>sys_queue := wq_close (sys_queue s), sys_wake_all := sys_wake_all s + 1, sys_drain_owed := sys_drain_owed s + 1\<rparr>"
      using step by simp
    then show ?thesis using d wq_close_inv(1) [of "sys_queue s"] by (simp add: sys_inv_def attended_def)
  next
    case E_Shutdown_With_Drain
    then have "s' = s\<lparr>sys_queue := wq_close_with_drain (sys_queue s), sys_wake_all := sys_wake_all s + 1,
        sys_drainers := sys_drainers s @ [Enabled False]\<rparr>"
      using step by simp
    then show ?thesis
      using d wq_close_inv(2) [of "sys_queue s"] close_with_drain_drained [of "sys_queue s"] by (auto simp: sys_inv_def attended_def)
  next
    case E_Wake_All
    then have "s' = s\<lparr>sys_wake_all := sys_wake_all s - 1, sys_workers := map awake (sys_workers s)\<rparr>"
      using step by (simp split: if_splits)
    then show ?thesis using d held_awake [of "sys_workers s"] awake_attended [of s s'] by (simp add: sys_inv_def)
  next
    case E_Drain_Notify
    then have "s' = s\<lparr>sys_drain_owed := sys_drain_owed s - 1, sys_drainers := map drain_wake (sys_drainers s)\<rparr>"
      using step by (simp split: if_splits)
    then show ?thesis using d not_sleeping [of "sys_drainers s"] by (simp add: sys_inv_def attended_def)
  next
    case (E_Drain_Check i)
    then have "s' = s\<lparr>sys_drainers := (sys_drainers s)[i := drain_check (sys_queue s) (sys_drainers s ! i)]\<rparr>" "i < length (sys_drainers s)"
      using step by (simp_all split: if_splits)
    then show ?thesis using drain_check_inv [of "sys_drainers s" i "sys_queue s"] by (intro sys_inv_same [OF inv]) simp_all
  qed
qed

lemma sys_reachable_inv: "sys_reachable n s \<Longrightarrow> sys_inv s"
  by (induction rule: sys_reachable.induct) (blast intro: sys_start_inv sys_next_inv)+

section \<open>A worker that misses the shutdown\<close>

text \<open>
  The queue is shut down and empty, everybody has been notified, and worker \<open>i\<close> waits: it found
  the queue empty before the shutdown and started to wait after it.
\<close>

definition missed :: "nat \<Rightarrow> 'a wq_system \<Rightarrow> bool" where
  "missed i s \<longleftrightarrow> i < length (sys_workers s) \<and> sys_workers s ! i = Waiting \<and> wq_shutdown (sys_queue s) \<and>
     wq_queue (sys_queue s) = [] \<and> (\<forall>item. Working item \<notin> set (sys_workers s)) \<and>
     sys_owed s = 0 \<and> sys_wake_all s = 0"

fun sys_run :: "'a sys_event list \<Rightarrow> 'a wq_system \<Rightarrow> 'a wq_system option" where
  "sys_run [] s = Some s"
| "sys_run (e # es) s = (case sys_next e s of None \<Rightarrow> None | Some s1 \<Rightarrow> sys_run es s1)"

lemma sys_run_reachable: "sys_reachable n s \<Longrightarrow> sys_run es s = Some s' \<Longrightarrow> sys_reachable n s'"
  by (induction es arbitrary: s) (auto split: option.splits intro: sys_reachable.step)

lemma missed_work:
  assumes m: "missed i s" and step: "sys_work j s = Some s'"
  shows "missed i s'"
proof -
  let ?ws = "sys_workers s"
  have j: "j < length ?ws" using step by (simp add: sys_work_def split: if_splits)
  have idle: "Working item \<notin> set ?ws" for item using m by (simp add: missed_def)
  then have "?ws ! j \<noteq> Working item" for item using j by (metis nth_mem)
  moreover have "j \<noteq> i \<or> ?ws ! j = Waiting" using m by (auto simp: missed_def)
  ultimately consider "?ws ! j = Ready" "j \<noteq> i" | "?ws ! j = Empty_Seen" "j \<noteq> i"
    using step j by (cases "?ws ! j") (auto simp: sys_work_def)
  then obtain w p where s': "s' = s\<lparr>sys_permit := p, sys_workers := ?ws[j := w]\<rparr>" and w: "\<forall>item. w \<noteq> Working item" and "j \<noteq> i"
  proof cases
    case 1
    have "wq_pop (sys_queue s) = (Closed, sys_queue s)" using m by (simp add: missed_def wq_pop_def)
    then have "s' = s\<lparr>sys_permit := sys_permit s, sys_workers := ?ws[j := Returned]\<rparr>" using step j 1 by (simp add: sys_work_def)
    then show thesis using that 1(2) by blast
  next
    case 2
    then have "s' = s\<lparr>sys_permit := False, sys_workers := ?ws[j := Ready]\<rparr> \<or>
        s' = s\<lparr>sys_permit := sys_permit s, sys_workers := ?ws[j := Waiting]\<rparr>"
      using step j by (simp add: sys_work_def split: if_splits)
    then show thesis using that 2(2) by blast
  qed
  have "Working item \<notin> set (?ws[j := w])" for item
    using w idle [of item] set_update_subset_insert [of ?ws j w] by auto
  then show ?thesis using m \<open>j \<noteq> i\<close> by (simp add: missed_def s')
qed

lemma missed_next:
  assumes m: "missed i s" and e: "e \<noteq> E_Shutdown" "e \<noteq> E_Shutdown_With_Drain" and step: "sys_next e s = Some s'"
  shows "missed i s'"
proof -
  have "wq_add item (sys_queue s) = (False, sys_queue s)" for item using m by (simp add: missed_def wq_add_def)
  then have add: "sys_add item s = s" "sys_add item (s\<lparr>sys_delayed := ds\<rparr>) = s\<lparr>sys_delayed := ds\<rparr>" for item ds
    by (simp_all add: sys_add_def)
  show ?thesis
  proof (cases e)
    case (E_Work j)
    then show ?thesis using missed_work [OF m] step by simp
  qed (use m e step in \<open>auto simp: add missed_def sys_notify_one_def split: if_splits\<close>)
qed

lemma missed_run:
  "missed i s \<Longrightarrow> E_Shutdown \<notin> set es \<Longrightarrow> E_Shutdown_With_Drain \<notin> set es \<Longrightarrow> sys_run es s = Some s' \<Longrightarrow> missed i s'"
proof (induction es arbitrary: s)
  case (Cons e es)
  then obtain s1 where "sys_next e s = Some s1" "sys_run es s1 = Some s'" by (auto split: option.splits)
  then show ?case using Cons missed_next [of i s e s1] by auto
qed simp

end
