(* ===== verification/Control_Db.thy ===== *)
theory Control_Db
  imports Slim_Prelude "HOL-Library.Multiset"
begin

text \<open>
  The database of the control plane: the rows of \<open>control-plane/src/db/model.rs\<close> and the in-memory store of
  \<open>db/inmemory.rs\<close>, whose tables of routes and links keep secondary indexes beside the primary map. Each
  call of \<open>SystemTime::now\<close> is an argument. UUIDs are made by a crate: the hash of version 5 and the
  random identifiers are arguments as well.
\<close>

section \<open>Rows\<close>

type_synonym timestamp = nat

definition ALL_NODES_ID :: string where
  "ALL_NODES_ID = ''*''"

datatype cp_auth_method = Auth_None | Auth_Spire | Auth_Basic | Auth_Jwt | Auth_Oidc

record keepalive_config =
  ka_tcp_keepalive :: nat
  ka_http2_keepalive :: nat
  ka_timeout :: nat
  ka_while_idle :: bool

record connection_details =
  cd_endpoint :: string
  cd_external_endpoint :: "string option"
  cd_tls_required :: bool
  cd_auth_method :: cp_auth_method
  cd_spire_trust_domain :: "string option"
  cd_backoff :: "nat option"
  cd_timeout :: "nat option"
  cd_keepalive :: "keepalive_config option"

record cp_node =
  node_id :: string
  node_domain_name :: "string option"
  node_conn_details :: "connection_details list"
  node_created_at :: timestamp
  node_last_updated :: timestamp

text \<open>Both slices are sorted by the derived total order and compared, so only the multiset of the elements counts.\<close>

definition has_connection_details_changed :: "connection_details list \<Rightarrow> connection_details list \<Rightarrow> bool" where
  "has_connection_details_changed existing new \<longleftrightarrow> mset existing \<noteq> mset new"

datatype route_status = Route_Applied | Route_Failed | Route_Pending | Route_Deleted

record cp_route =
  rt_id :: string
  rt_source_node_id :: string
  rt_source_domain :: string
  rt_dest_node_id :: string
  rt_dest_domain :: string
  rt_link_id :: "string option"
  rt_component0 :: string
  rt_component1 :: string
  rt_component2 :: string
  rt_component_id :: "string option"
  rt_status :: route_status
  rt_status_msg :: string
  rt_created_at :: timestamp
  rt_last_updated :: timestamp

definition or_empty :: "string option \<Rightarrow> string" where
  "or_empty opt = (case opt of Some s \<Rightarrow> s | None \<Rightarrow> [])"

definition unique_id ::
  "(string \<Rightarrow> string) \<Rightarrow> string \<Rightarrow> string \<Rightarrow> string \<Rightarrow> string \<Rightarrow> string option \<Rightarrow> string \<Rightarrow> string option \<Rightarrow> string" where
  "unique_id uuid_v5 source c0 c1 c2 comp_id dest link =
     (let sep = [CHR 0x00] in
      uuid_v5 (source @ sep @ c0 @ sep @ c1 @ sep @ c2 @ sep @ or_empty comp_id @ sep @ dest @ sep @ or_empty link))"

definition compute_id :: "(string \<Rightarrow> string) \<Rightarrow> cp_route \<Rightarrow> string" where
  "compute_id uuid_v5 r =
     unique_id uuid_v5 (rt_source_node_id r) (rt_component0 r) (rt_component1 r) (rt_component2 r) (rt_component_id r)
       (rt_dest_node_id r) (rt_link_id r)"

text \<open>\<open>RouteName\<close>, and whether a route is for it.\<close>

record route_name =
  rn_component0 :: string
  rn_component1 :: string
  rn_component2 :: string
  rn_component_id :: "string option"

definition has_name :: "route_name \<Rightarrow> cp_route \<Rightarrow> bool" where
  "has_name n r \<longleftrightarrow> rt_component0 r = rn_component0 n \<and> rt_component1 r = rn_component1 n \<and>
     rt_component2 r = rn_component2 n \<and> rt_component_id r = rn_component_id n"

definition name_of_route :: "cp_route \<Rightarrow> route_name" where
  "name_of_route r = \<lparr>rn_component0 = rt_component0 r, rn_component1 = rt_component1 r, rn_component2 = rt_component2 r,
     rn_component_id = rt_component_id r\<rparr>"

datatype link_status = Link_Pending | Link_Connecting | Link_Applied | Link_Failed | Link_Deleted

datatype required_auth = Required_None | Required_Basic | Required_Jwt | Required_Oidc | Required_Spire "string option"

record server_connection_config =
  sc_endpoint :: string
  sc_tls_required :: bool
  sc_auth_method :: required_auth
  sc_timeout :: "nat option"
  sc_backoff :: "nat option"
  sc_keepalive :: "keepalive_config option"

record cp_link =
  ln_link_id :: string
  ln_source_node_id :: string
  ln_source_domain :: string
  ln_dest_node_id :: string
  ln_dest_domain :: string
  ln_dest_endpoint :: string
  ln_conn_config_data :: server_connection_config
  ln_status :: link_status
  ln_status_msg :: string
  ln_created_at :: timestamp
  ln_last_updated :: timestamp

definition storage_key :: "cp_link \<Rightarrow> string" where
  "storage_key l = ln_source_node_id l @ ''|'' @ ln_dest_node_id l @ ''|'' @ ln_dest_endpoint l @ ''|'' @ ln_link_id l"

record topology_segment =
  seg_id :: string
  seg_name :: string
  seg_created_at :: timestamp

record topology_segment_link =
  sl_segment_id :: string
  sl_source_domain :: string
  sl_dest_domain :: string

text \<open>Errors; \<open>RouteAlreadyExists\<close> prints the route it carries here.\<close>

datatype cp_error =
    Node_Not_Found string | Route_Already_Exists cp_route | Route_Not_Found string | Link_Not_Found string
  | Link_Missing_Fields | Empty_Source_Node_Id | Empty_Dest_Node_Id | Same_Source_And_Dest
  | Invalid_Input string | Unexpected_Response string

section \<open>Secondary indexes\<close>

text \<open>An index maps a field to the ids of the rows with that field.\<close>

type_synonym index = "(string, string list) hmap"

definition index_get :: "index \<Rightarrow> string \<Rightarrow> string list" where
  "index_get idx k = (case hget idx k of Some rows \<Rightarrow> rows | None \<Rightarrow> [])"

text \<open>\<open>entry(k).or_default().insert(id)\<close>, and the removal that drops an empty set.\<close>

definition index_put :: "string \<Rightarrow> string \<Rightarrow> index \<Rightarrow> index" where
  "index_put k row idx = hput k (List.insert row (index_get idx k)) idx"

definition index_drop :: "string \<Rightarrow> string \<Rightarrow> index \<Rightarrow> index" where
  "index_drop k row idx =
     (case hget idx k of
        None \<Rightarrow> idx
      | Some rows \<Rightarrow> (let rows' = removeAll row rows in if rows' = [] then hdel k idx else hput k rows' idx))"

text \<open>The removal in \<open>claim_link\<close>, which leaves an empty set behind.\<close>

definition index_forget :: "string \<Rightarrow> string \<Rightarrow> index \<Rightarrow> index" where
  "index_forget k row idx = (case hget idx k of None \<Rightarrow> idx | Some rows \<Rightarrow> hput k (removeAll row rows) idx)"

text \<open>The rows an index gives for a field: \<open>ids.iter().filter_map(|id| primary.get(id))\<close>.\<close>

definition index_rows :: "(string, 'r) hmap \<Rightarrow> index \<Rightarrow> string \<Rightarrow> 'r list" where
  "index_rows primary idx k = List.map_filter (hget primary) (index_get idx k)"

text \<open>An index is exact for the field \<open>key\<close> of the rows, which some rows may lack.\<close>

definition index_exact :: "('r \<Rightarrow> string option) \<Rightarrow> (string, 'r) hmap \<Rightarrow> index \<Rightarrow> bool" where
  "index_exact key primary idx \<longleftrightarrow>
     hmap_wf primary \<and> (\<forall>k. distinct (index_get idx k)) \<and>
     (\<forall>k row. row \<in> set (index_get idx k) \<longleftrightarrow> (\<exists>r. hget primary row = Some r \<and> key r = Some k))"

lemma index_get_put [simp]: "index_get (index_put k row idx) k' = (if k' = k then List.insert row (index_get idx k) else index_get idx k')"
  by (simp add: index_get_def index_put_def)

lemma index_get_drop [simp]: "index_get (index_drop k row idx) k' = (if k' = k then removeAll row (index_get idx k) else index_get idx k')"
  by (auto simp: index_get_def index_drop_def Let_def split: option.split)

lemma index_get_forget [simp]: "index_get (index_forget k row idx) k' = (if k' = k then removeAll row (index_get idx k) else index_get idx k')"
  by (auto simp: index_get_def index_forget_def split: option.split)

text \<open>The lookup through an exact index is the scan of the whole table.\<close>

lemma mset_map_filter: "mset xs = mset ys \<Longrightarrow> mset (List.map_filter f xs) = mset (List.map_filter f ys)"
  unfolding map_filter_def mset_map mset_filter by simp

lemma map_filter_keys:
  assumes "hmap_wf m" "set ps \<subseteq> set m"
  shows "List.map_filter (hget m) (map fst ps) = map snd ps"
  using assms(2)
proof (induction ps)
  case (Cons p ps)
  then have "hget m (fst p) = Some (snd p)" using assms(1) by simp
  with Cons show ?case by (simp add: map_filter_simps)
qed (simp add: map_filter_simps)

lemma index_rows_exact:
  assumes "index_exact key primary idx"
  shows "mset (index_rows primary idx k) = mset (filter (\<lambda>r. key r = Some k) (hvalues primary))"
proof -
  let ?ps = "filter (\<lambda>p. key (snd p) = Some k) primary"
  have wf: "hmap_wf primary" and ids: "distinct (index_get idx k)"
      "\<And>row. row \<in> set (index_get idx k) \<longleftrightarrow> (\<exists>r. hget primary row = Some r \<and> key r = Some k)"
    using assms by (simp_all add: index_exact_def)
  have "row \<in> set (map fst ?ps) \<longleftrightarrow> (\<exists>r. hget primary row = Some r \<and> key r = Some k)" for row
    unfolding hget_mem_iff [OF wf, symmetric] by (auto intro: rev_image_eqI)
  then have "set (index_get idx k) = set (map fst ?ps)" using ids(2) by blast
  moreover have "distinct (map fst ?ps)" using wf by (rule hmap_wf_filter)
  ultimately have "mset (index_get idx k) = mset (map fst ?ps)" using ids(1) by (metis set_eq_iff_mset_eq_distinct)
  then have "mset (index_rows primary idx k) = mset (List.map_filter (hget primary) (map fst ?ps))"
    unfolding index_rows_def by (rule mset_map_filter)
  also have "\<dots> = mset (map snd ?ps)" using map_filter_keys [OF wf, of ?ps] by auto
  also have "map snd ?ps = filter (\<lambda>r. key r = Some k) (hvalues primary)" by (simp add: filter_map comp_def)
  finally show ?thesis .
qed

text \<open>Adding and removing a row; changing a row without changing the field.\<close>

definition index_add_row :: "('r \<Rightarrow> string option) \<Rightarrow> string \<Rightarrow> 'r \<Rightarrow> index \<Rightarrow> index" where
  "index_add_row key row r idx = (case key r of Some k \<Rightarrow> index_put k row idx | None \<Rightarrow> idx)"

definition index_remove_row :: "('r \<Rightarrow> string option) \<Rightarrow> string \<Rightarrow> 'r \<Rightarrow> index \<Rightarrow> index" where
  "index_remove_row key row r idx = (case key r of Some k \<Rightarrow> index_drop k row idx | None \<Rightarrow> idx)"

lemma index_exact_empty: "index_exact key [] []"
  by (simp add: index_exact_def index_get_def)

lemma index_exact_add:
  assumes "index_exact key primary idx" "hget primary row = None"
  shows "index_exact key (hput row r primary) (index_add_row key row r idx)"
  using assms by (cases "key r") (auto simp: index_exact_def index_add_row_def simp del: map_of_eq_Some_iff)

lemma index_exact_remove:
  assumes "index_exact key primary idx" "hget primary row = Some r"
  shows "index_exact key (hdel row primary) (index_remove_row key row r idx)"
  using assms by (cases "key r") (auto simp: index_exact_def index_remove_row_def distinct_removeAll simp del: map_of_eq_Some_iff)

lemma index_exact_change:
  assumes "index_exact key primary idx" "hget primary row = Some r" "key r' = key r"
  shows "index_exact key (hput row r' primary) idx"
  using assms unfolding index_exact_def by (auto simp del: map_of_eq_Some_iff)

section \<open>Routes\<close>

record route_store =
  rs_primary :: "(string, cp_route) hmap"
  rs_by_src :: index
  rs_by_dest :: index
  rs_by_link :: index

definition route_store_new :: route_store where
  "route_store_new = \<lparr>rs_primary = [], rs_by_src = [], rs_by_dest = [], rs_by_link = []\<rparr>"

definition rs_index_add :: "cp_route \<Rightarrow> route_store \<Rightarrow> route_store" where
  "rs_index_add r st =
     st\<lparr>rs_by_src := index_put (rt_source_node_id r) (rt_id r) (rs_by_src st),
       rs_by_dest := index_put (rt_dest_node_id r) (rt_id r) (rs_by_dest st),
       rs_by_link := (case rt_link_id r of Some lid \<Rightarrow> index_put lid (rt_id r) (rs_by_link st) | None \<Rightarrow> rs_by_link st)\<rparr>"

definition rs_index_remove :: "cp_route \<Rightarrow> route_store \<Rightarrow> route_store" where
  "rs_index_remove r st =
     st\<lparr>rs_by_src := index_drop (rt_source_node_id r) (rt_id r) (rs_by_src st),
       rs_by_dest := index_drop (rt_dest_node_id r) (rt_id r) (rs_by_dest st),
       rs_by_link := (case rt_link_id r of Some lid \<Rightarrow> index_drop lid (rt_id r) (rs_by_link st) | None \<Rightarrow> rs_by_link st)\<rparr>"

definition db_add_route ::
  "(string \<Rightarrow> string) \<Rightarrow> timestamp \<Rightarrow> timestamp \<Rightarrow> cp_route \<Rightarrow> route_store \<Rightarrow> (cp_error + cp_route) \<times> route_store" where
  "db_add_route uuid_v5 created updated route st =
     (let row = compute_id uuid_v5 route in
      if hget (rs_primary st) row \<noteq> None then (Inl (Route_Already_Exists route), st)
      else
        (let r = route\<lparr>rt_id := row, rt_created_at := created, rt_last_updated := updated\<rparr>;
             st1 = rs_index_add r st
         in (Inr r, st1\<lparr>rs_primary := hput row r (rs_primary st1)\<rparr>)))"

definition db_get_route_by_id :: "string \<Rightarrow> route_store \<Rightarrow> cp_route option" where
  "db_get_route_by_id row st = hget (rs_primary st) row"

definition db_get_routes_for_node :: "string \<Rightarrow> route_store \<Rightarrow> cp_route list" where
  "db_get_routes_for_node n st = index_rows (rs_primary st) (rs_by_src st) n"

definition db_get_routes_for_dest :: "string \<Rightarrow> route_store \<Rightarrow> cp_route list" where
  "db_get_routes_for_dest n st =
     filter (\<lambda>r. rt_source_node_id r \<noteq> ALL_NODES_ID) (index_rows (rs_primary st) (rs_by_dest st) n)"

definition db_get_routes_for_dest_and_name :: "string \<Rightarrow> route_name \<Rightarrow> route_store \<Rightarrow> cp_route list" where
  "db_get_routes_for_dest_and_name n name st = filter (has_name name) (index_rows (rs_primary st) (rs_by_dest st) n)"

definition db_get_route_for_src_dest_name ::
  "string \<Rightarrow> route_name \<Rightarrow> string \<Rightarrow> string option \<Rightarrow> route_store \<Rightarrow> cp_route option" where
  "db_get_route_for_src_dest_name src name dest link st =
     List.find (\<lambda>r. (dest = [] \<or> rt_dest_node_id r = dest) \<and> (link = None \<or> rt_link_id r = link) \<and> has_name name r)
       (index_rows (rs_primary st) (rs_by_src st) src)"

definition db_filter_routes :: "string \<Rightarrow> string \<Rightarrow> route_store \<Rightarrow> cp_route list" where
  "db_filter_routes src dest st =
     (case (src = [], dest = []) of
        (True, True) \<Rightarrow> hvalues (rs_primary st)
      | (False, True) \<Rightarrow> index_rows (rs_primary st) (rs_by_src st) src
      | (True, False) \<Rightarrow> index_rows (rs_primary st) (rs_by_dest st) dest
      | (False, False) \<Rightarrow>
          (case (hget (rs_by_src st) src, hget (rs_by_dest st) dest) of
             (Some src_ids, Some dest_ids) \<Rightarrow>
               if length src_ids \<le> length dest_ids
               then filter (\<lambda>r. rt_dest_node_id r = dest) (index_rows (rs_primary st) (rs_by_src st) src)
               else filter (\<lambda>r. rt_source_node_id r = src) (index_rows (rs_primary st) (rs_by_dest st) dest)
           | _ \<Rightarrow> []))"

text \<open>\<open>min_by_key(created_at)\<close>: the first of the oldest.\<close>

fun oldest :: "cp_route list \<Rightarrow> cp_route option" where
  "oldest [] = None"
| "oldest (r # rs) = (case oldest rs of Some r' \<Rightarrow> if rt_created_at r' < rt_created_at r then Some r' else Some r | None \<Rightarrow> Some r)"

definition db_get_destination_for_name :: "route_name \<Rightarrow> route_store \<Rightarrow> string option" where
  "db_get_destination_for_name name st =
     map_option rt_dest_node_id
       (oldest (filter (\<lambda>r. rt_status r \<noteq> Route_Deleted \<and> has_name name r) (index_rows (rs_primary st) (rs_by_src st) ALL_NODES_ID)))"

definition db_get_routes_by_link :: "string \<Rightarrow> route_store \<Rightarrow> cp_route list" where
  "db_get_routes_by_link lid st = index_rows (rs_primary st) (rs_by_link st) lid"

definition db_delete_route :: "string \<Rightarrow> route_store \<Rightarrow> (cp_error + unit) \<times> route_store" where
  "db_delete_route row st =
     (case hget (rs_primary st) row of
        None \<Rightarrow> (Inl (Route_Not_Found row), st)
      | Some r \<Rightarrow> (Inr (), rs_index_remove r (st\<lparr>rs_primary := hdel row (rs_primary st)\<rparr>)))"

definition db_mark_route_deleted :: "timestamp \<Rightarrow> string \<Rightarrow> route_store \<Rightarrow> (cp_error + unit) \<times> route_store" where
  "db_mark_route_deleted now row st =
     (case hget (rs_primary st) row of
        None \<Rightarrow> (Inl (Route_Not_Found row), st)
      | Some r \<Rightarrow>
          (Inr (), st\<lparr>rs_primary := hput row (r\<lparr>rt_status := Route_Deleted, rt_last_updated := now\<rparr>) (rs_primary st)\<rparr>))"

definition db_set_route_status ::
  "timestamp \<Rightarrow> string \<Rightarrow> route_status \<Rightarrow> string \<Rightarrow> route_store \<Rightarrow> (cp_error + unit) \<times> route_store" where
  "db_set_route_status now row status msg st =
     (case hget (rs_primary st) row of
        None \<Rightarrow> (Inl (Route_Not_Found row), st)
      | Some r \<Rightarrow>
          if rt_status r = Route_Deleted then (Inr (), st)
          else (Inr (), st\<lparr>rs_primary :=
                  hput row (r\<lparr>rt_status := status, rt_status_msg := msg, rt_last_updated := now\<rparr>) (rs_primary st)\<rparr>))"

definition db_mark_route_applied :: "timestamp \<Rightarrow> string \<Rightarrow> route_store \<Rightarrow> (cp_error + unit) \<times> route_store" where
  "db_mark_route_applied now row st = db_set_route_status now row Route_Applied [] st"

definition db_mark_route_failed :: "timestamp \<Rightarrow> string \<Rightarrow> string \<Rightarrow> route_store \<Rightarrow> (cp_error + unit) \<times> route_store" where
  "db_mark_route_failed now row msg st = db_set_route_status now row Route_Failed msg st"

definition db_update_route_link_id :: "timestamp \<Rightarrow> string \<Rightarrow> string \<Rightarrow> route_store \<Rightarrow> (cp_error + unit) \<times> route_store" where
  "db_update_route_link_id now row lid st =
     (case hget (rs_primary st) row of
        None \<Rightarrow> (Inl (Route_Not_Found row), st)
      | Some old \<Rightarrow>
          (let st1 = rs_index_remove old st;
               r = old\<lparr>rt_link_id := Some lid, rt_status := Route_Pending, rt_last_updated := now\<rparr>
           in (Inr (), rs_index_add r (st1\<lparr>rs_primary := hput row r (rs_primary st1)\<rparr>))))"

text \<open>The tables are consistent: each index is exact, and a row is stored under its own id.\<close>

definition rs_inv :: "route_store \<Rightarrow> bool" where
  "rs_inv st \<longleftrightarrow>
     index_exact (\<lambda>r. Some (rt_source_node_id r)) (rs_primary st) (rs_by_src st) \<and>
     index_exact (\<lambda>r. Some (rt_dest_node_id r)) (rs_primary st) (rs_by_dest st) \<and>
     index_exact rt_link_id (rs_primary st) (rs_by_link st) \<and>
     (\<forall>row r. hget (rs_primary st) row = Some r \<longrightarrow> rt_id r = row)"

lemma rs_index_add_rows:
  "rs_primary (rs_index_add r st) = rs_primary st"
  "rs_by_src (rs_index_add r st) = index_add_row (\<lambda>r. Some (rt_source_node_id r)) (rt_id r) r (rs_by_src st)"
  "rs_by_dest (rs_index_add r st) = index_add_row (\<lambda>r. Some (rt_dest_node_id r)) (rt_id r) r (rs_by_dest st)"
  "rs_by_link (rs_index_add r st) = index_add_row rt_link_id (rt_id r) r (rs_by_link st)"
  by (simp_all add: rs_index_add_def index_add_row_def)

lemma rs_index_remove_rows:
  "rs_primary (rs_index_remove r st) = rs_primary st"
  "rs_by_src (rs_index_remove r st) = index_remove_row (\<lambda>r. Some (rt_source_node_id r)) (rt_id r) r (rs_by_src st)"
  "rs_by_dest (rs_index_remove r st) = index_remove_row (\<lambda>r. Some (rt_dest_node_id r)) (rt_id r) r (rs_by_dest st)"
  "rs_by_link (rs_index_remove r st) = index_remove_row rt_link_id (rt_id r) r (rs_by_link st)"
  by (simp_all add: rs_index_remove_def index_remove_row_def)

lemma route_store_new_inv: "rs_inv route_store_new"
  by (simp add: rs_inv_def route_store_new_def index_exact_empty)

lemma rs_insert_inv:
  assumes "rs_inv st" "hget (rs_primary st) (rt_id r) = None"
  shows "rs_inv ((rs_index_add r st)\<lparr>rs_primary := hput (rt_id r) r (rs_primary st)\<rparr>)"
  using assms by (simp add: rs_inv_def rs_index_add_rows index_exact_add)

lemma rs_delete_inv:
  assumes "rs_inv st" "hget (rs_primary st) row = Some r"
  shows "rs_inv (rs_index_remove r (st\<lparr>rs_primary := hdel row (rs_primary st)\<rparr>))"
proof -
  have "rt_id r = row" using assms unfolding rs_inv_def by blast
  then show ?thesis using assms by (simp add: rs_inv_def rs_index_remove_rows index_exact_remove)
qed

lemma rs_change_inv:
  assumes "rs_inv st" "hget (rs_primary st) row = Some r" "rt_id r' = rt_id r" "rt_source_node_id r' = rt_source_node_id r"
    "rt_dest_node_id r' = rt_dest_node_id r" "rt_link_id r' = rt_link_id r"
  shows "rs_inv (st\<lparr>rs_primary := hput row r' (rs_primary st)\<rparr>)"
proof -
  have "rt_id r' = row" using assms(1-3) unfolding rs_inv_def by metis
  then show ?thesis using assms index_exact_change [where row = row and r = r] by (simp add: rs_inv_def)
qed

lemma rs_relink_inv:
  assumes inv: "rs_inv st" and old: "hget (rs_primary st) row = Some old"
    and r: "rt_id r = rt_id old" "rt_source_node_id r = rt_source_node_id old" "rt_dest_node_id r = rt_dest_node_id old"
  shows "rs_inv (rs_index_add r ((rs_index_remove old st)\<lparr>rs_primary := hput row r (rs_primary st)\<rparr>))"
proof -
  have row: "rt_id old = row" using inv old unfolding rs_inv_def by blast
  have re: "index_exact key (hput row r p) (index_add_row key row r (index_remove_row key row old idx))"
    if "index_exact key p idx" "hget p row = Some old" for key p idx
  proof -
    have "index_exact key (hput row r (hdel row p)) (index_add_row key row r (index_remove_row key row old idx))"
      using index_exact_add [OF index_exact_remove [OF that], of row r] by simp
    moreover have "hget (hput row r (hdel row p)) = hget (hput row r p)" by (simp add: fun_eq_iff)
    moreover have "hmap_wf (hput row r p)" using that(1) by (simp add: index_exact_def)
    ultimately show ?thesis unfolding index_exact_def by metis
  qed
  show ?thesis using inv old r row by (simp add: rs_inv_def rs_index_add_rows rs_index_remove_rows re)
qed

lemma db_route_ops_inv:
  assumes "rs_inv st"
  shows "rs_inv (snd (db_add_route uuid_v5 created updated route st))" "rs_inv (snd (db_delete_route row st))"
    "rs_inv (snd (db_mark_route_deleted now row st))" "rs_inv (snd (db_set_route_status now row status msg st))"
    "rs_inv (snd (db_update_route_link_id now row lid st))"
proof -
  show "rs_inv (snd (db_add_route uuid_v5 created updated route st))"
    using assms rs_insert_inv [OF assms, of "route\<lparr>rt_id := compute_id uuid_v5 route, rt_created_at := created, rt_last_updated := updated\<rparr>"]
    by (simp add: db_add_route_def Let_def rs_index_add_rows(1))
  show "rs_inv (snd (db_delete_route row st))"
    using assms rs_delete_inv [OF assms] by (auto simp: db_delete_route_def simp del: map_of_eq_Some_iff split: option.split)
  show "rs_inv (snd (db_mark_route_deleted now row st))"
    using assms rs_change_inv [OF assms] by (auto simp: db_mark_route_deleted_def simp del: map_of_eq_Some_iff split: option.split)
  show "rs_inv (snd (db_set_route_status now row status msg st))"
    using assms rs_change_inv [OF assms] by (auto simp: db_set_route_status_def simp del: map_of_eq_Some_iff split: option.split)
  show "rs_inv (snd (db_update_route_link_id now row lid st))"
    using assms rs_relink_inv [OF assms]
    by (auto simp: db_update_route_link_id_def Let_def rs_index_remove_rows(1) simp del: map_of_eq_Some_iff split: option.split)
qed

section \<open>Links\<close>

record link_store =
  ls_primary :: "(string, cp_link) hmap"
  ls_by_src :: index
  ls_by_dest :: index
  ls_by_link_id :: index

definition link_store_new :: link_store where
  "link_store_new = \<lparr>ls_primary = [], ls_by_src = [], ls_by_dest = [], ls_by_link_id = []\<rparr>"

definition ls_index_add :: "cp_link \<Rightarrow> link_store \<Rightarrow> link_store" where
  "ls_index_add l st =
     st\<lparr>ls_by_src := index_put (ln_source_node_id l) (storage_key l) (ls_by_src st),
       ls_by_dest := index_put (ln_dest_node_id l) (storage_key l) (ls_by_dest st),
       ls_by_link_id := index_put (ln_link_id l) (storage_key l) (ls_by_link_id st)\<rparr>"

definition ls_index_remove :: "cp_link \<Rightarrow> link_store \<Rightarrow> link_store" where
  "ls_index_remove l st =
     st\<lparr>ls_by_src := index_drop (ln_source_node_id l) (storage_key l) (ls_by_src st),
       ls_by_dest := index_drop (ln_dest_node_id l) (storage_key l) (ls_by_dest st),
       ls_by_link_id := index_drop (ln_link_id l) (storage_key l) (ls_by_link_id st)\<rparr>"

definition link_fields_missing :: "cp_link \<Rightarrow> bool" where
  "link_fields_missing l \<longleftrightarrow> ln_link_id l = [] \<or> ln_source_node_id l = [] \<or> ln_dest_endpoint l = []"

text \<open>Insert under the storage key, entering new keys into the indexes.\<close>

definition ls_insert :: "cp_link \<Rightarrow> link_store \<Rightarrow> link_store" where
  "ls_insert l st =
     (let st1 = (if hget (ls_primary st) (storage_key l) = None then ls_index_add l st else st)
      in st1\<lparr>ls_primary := hput (storage_key l) l (ls_primary st1)\<rparr>)"

definition db_add_link :: "timestamp \<Rightarrow> timestamp \<Rightarrow> cp_link \<Rightarrow> link_store \<Rightarrow> (cp_error + cp_link) \<times> link_store" where
  "db_add_link created updated link st =
     (if link_fields_missing link then (Inl Link_Missing_Fields, st)
      else
        (let l1 = (if hget (ls_primary st) (storage_key link) = None then link\<lparr>ln_created_at := created\<rparr> else link);
             l = l1\<lparr>ln_last_updated := updated\<rparr>
         in (Inr l, ls_insert l st)))"

definition db_update_link :: "timestamp \<Rightarrow> cp_link \<Rightarrow> link_store \<Rightarrow> (cp_error + unit) \<times> link_store" where
  "db_update_link now link st =
     (if link_fields_missing link then (Inl Link_Missing_Fields, st)
      else if hget (ls_primary st) (storage_key link) = None then (Inl (Link_Not_Found (ln_link_id link)), st)
      else (Inr (), st\<lparr>ls_primary := hput (storage_key link) (link\<lparr>ln_last_updated := now\<rparr>) (ls_primary st)\<rparr>))"

definition db_delete_link :: "cp_link \<Rightarrow> link_store \<Rightarrow> (cp_error + unit) \<times> link_store" where
  "db_delete_link link st =
     (case hget (ls_primary st) (storage_key link) of
        None \<Rightarrow> (Inl (Link_Not_Found (ln_link_id link)), st)
      | Some removed \<Rightarrow> (Inr (), ls_index_remove removed (st\<lparr>ls_primary := hdel (storage_key link) (ls_primary st)\<rparr>)))"

text \<open>The loops that keep the link updated last.\<close>

fun latest_link :: "(cp_link \<Rightarrow> bool) \<Rightarrow> cp_link list \<Rightarrow> cp_link option \<Rightarrow> cp_link option" where
  "latest_link P [] latest = latest"
| "latest_link P (l # ls) latest =
     latest_link P ls
       (if P l
        then (case latest of
                None \<Rightarrow> Some l
              | Some prev \<Rightarrow> if ln_last_updated l > ln_last_updated prev then Some l else latest)
        else latest)"

definition db_get_link :: "string \<Rightarrow> string \<Rightarrow> string \<Rightarrow> link_store \<Rightarrow> cp_link option" where
  "db_get_link lid src dest st =
     latest_link
       (\<lambda>l. ln_status l \<noteq> Link_Deleted \<and>
          (src \<noteq> [] \<and> dest \<noteq> [] \<longrightarrow>
             ln_source_node_id l = src \<and> ln_dest_node_id l = dest \<or> ln_source_node_id l = dest \<and> ln_dest_node_id l = src))
       (index_rows (ls_primary st) (ls_by_link_id st) lid) None"

definition find_link_in_store :: "link_store \<Rightarrow> string \<Rightarrow> string \<Rightarrow> cp_link option" where
  "find_link_in_store st src dest =
     latest_link (\<lambda>l. ln_status l \<noteq> Link_Deleted \<and> ln_dest_node_id l = src) (index_rows (ls_primary st) (ls_by_src st) dest)
       (latest_link (\<lambda>l. ln_status l \<noteq> Link_Deleted \<and> ln_dest_node_id l = dest) (index_rows (ls_primary st) (ls_by_src st) src) None)"

definition find_unclaimed_link_in_store :: "link_store \<Rightarrow> string \<Rightarrow> string \<Rightarrow> cp_link option" where
  "find_unclaimed_link_in_store st src dest_domain =
     List.find (\<lambda>l. ln_status l \<noteq> Link_Deleted \<and> ln_dest_node_id l = [] \<and> ln_dest_domain l = dest_domain)
       (index_rows (ls_primary st) (ls_by_src st) src)"

definition db_find_link_between_domains :: "string \<Rightarrow> string \<Rightarrow> link_store \<Rightarrow> cp_link option" where
  "db_find_link_between_domains a b st =
     List.find (\<lambda>l. ln_status l \<noteq> Link_Deleted \<and>
         (ln_source_domain l = a \<and> ln_dest_domain l = b \<or> ln_source_domain l = b \<and> ln_dest_domain l = a))
       (hvalues (ls_primary st))"

definition db_find_or_create_link :: "timestamp \<Rightarrow> cp_link \<Rightarrow> link_store \<Rightarrow> (cp_error + cp_link \<times> bool) \<times> link_store" where
  "db_find_or_create_link now link st =
     (if link_fields_missing link then (Inl Link_Missing_Fields, st)
      else
        (case (if ln_dest_node_id link = []
               then find_unclaimed_link_in_store st (ln_source_node_id link) (ln_dest_domain link)
               else find_link_in_store st (ln_source_node_id link) (ln_dest_node_id link)) of
           Some existing \<Rightarrow> (Inr (existing, False), st)
         | None \<Rightarrow> (let l = link\<lparr>ln_last_updated := now\<rparr> in (Inr (l, True), ls_insert l st))))"

definition db_get_link_for_source_and_endpoint :: "string \<Rightarrow> string \<Rightarrow> link_store \<Rightarrow> cp_link option" where
  "db_get_link_for_source_and_endpoint src endpoint st =
     latest_link (\<lambda>l. ln_status l \<noteq> Link_Deleted \<and> ln_dest_endpoint l = endpoint)
       (index_rows (ls_primary st) (ls_by_src st) src) None"

definition db_get_links_for_node :: "string \<Rightarrow> link_store \<Rightarrow> cp_link list" where
  "db_get_links_for_node n st =
     List.map_filter (hget (ls_primary st)) (List.union (index_get (ls_by_src st) n) (index_get (ls_by_dest st) n))"

definition db_filter_links :: "string \<Rightarrow> string \<Rightarrow> link_store \<Rightarrow> cp_link list" where
  "db_filter_links src dest st =
     (case (src = [], dest = []) of
        (True, True) \<Rightarrow> hvalues (ls_primary st)
      | (False, True) \<Rightarrow> index_rows (ls_primary st) (ls_by_src st) src
      | (True, False) \<Rightarrow> index_rows (ls_primary st) (ls_by_dest st) dest
      | (False, False) \<Rightarrow> filter (\<lambda>l. ln_dest_node_id l = dest) (index_rows (ls_primary st) (ls_by_src st) src))"

definition db_list_all_links :: "link_store \<Rightarrow> cp_link list" where
  "db_list_all_links st = hvalues (ls_primary st)"

text \<open>\<open>claim_link\<close>: the key of the unclaimed link changes, because the destination is part of it.\<close>

definition find_claimable :: "link_store \<Rightarrow> string \<Rightarrow> string \<Rightarrow> string option" where
  "find_claimable st lid dest_domain =
     List.find
       (\<lambda>key. case hget (ls_primary st) key of
                Some l \<Rightarrow> ln_dest_node_id l = [] \<and> ln_dest_domain l = dest_domain \<and> ln_status l \<noteq> Link_Deleted
              | None \<Rightarrow> False)
       (index_get (ls_by_link_id st) lid)"

definition db_claim_link :: "timestamp \<Rightarrow> string \<Rightarrow> string \<Rightarrow> string \<Rightarrow> link_store \<Rightarrow> cp_link option \<times> link_store" where
  "db_claim_link now lid dest_domain claimant st =
     (case find_claimable st lid dest_domain of
        None \<Rightarrow> (None, st)
      | Some old_key \<Rightarrow>
          (case hget (ls_primary st) old_key of
             None \<Rightarrow> (None, st)
           | Some link \<Rightarrow>
               (let l = link\<lparr>ln_dest_node_id := claimant, ln_status := Link_Applied, ln_last_updated := now\<rparr>;
                    new_key = storage_key l
                in (Some l,
                    st\<lparr>ls_primary := hput new_key l (hdel old_key (ls_primary st)),
                      ls_by_src := index_put (ln_source_node_id l) new_key (index_forget (ln_source_node_id link) old_key (ls_by_src st)),
                      ls_by_dest := index_put (ln_dest_node_id l) new_key (index_forget [] old_key (ls_by_dest st)),
                      ls_by_link_id := index_put (ln_link_id l) new_key (index_forget lid old_key (ls_by_link_id st))\<rparr>))))"

subsection \<open>Consistency of the link table\<close>

text \<open>
  The storage key joins four fields with a bar. It identifies them as long as the first three do not
  contain one.
\<close>

definition link_plain :: "cp_link \<Rightarrow> bool" where
  "link_plain l \<longleftrightarrow> (\<forall>s\<in>{ln_source_node_id l, ln_dest_node_id l, ln_dest_endpoint l}. CHR ''|'' \<notin> set s)"

lemma split_unique: "c \<notin> set xs \<Longrightarrow> c \<notin> set ys \<Longrightarrow> xs @ c # us = ys @ c # vs \<longleftrightarrow> xs = ys \<and> us = vs"
proof (induction xs arbitrary: ys)
  case Nil
  then show ?case by (cases ys) auto
next
  case (Cons x xs)
  then show ?case by (cases ys) auto
qed

lemma storage_key_inj:
  assumes "link_plain l" "link_plain l'" "storage_key l = storage_key l'"
  shows "ln_source_node_id l = ln_source_node_id l' \<and> ln_dest_node_id l = ln_dest_node_id l' \<and>
    ln_dest_endpoint l = ln_dest_endpoint l' \<and> ln_link_id l = ln_link_id l'"
  using assms by (simp add: link_plain_def storage_key_def split_unique)

definition ls_inv :: "link_store \<Rightarrow> bool" where
  "ls_inv st \<longleftrightarrow>
     index_exact (\<lambda>l. Some (ln_source_node_id l)) (ls_primary st) (ls_by_src st) \<and>
     index_exact (\<lambda>l. Some (ln_dest_node_id l)) (ls_primary st) (ls_by_dest st) \<and>
     index_exact (\<lambda>l. Some (ln_link_id l)) (ls_primary st) (ls_by_link_id st) \<and>
     (\<forall>row l. hget (ls_primary st) row = Some l \<longrightarrow> storage_key l = row \<and> link_plain l)"

lemma ls_index_add_rows:
  "ls_primary (ls_index_add l st) = ls_primary st"
  "ls_by_src (ls_index_add l st) = index_add_row (\<lambda>l. Some (ln_source_node_id l)) (storage_key l) l (ls_by_src st)"
  "ls_by_dest (ls_index_add l st) = index_add_row (\<lambda>l. Some (ln_dest_node_id l)) (storage_key l) l (ls_by_dest st)"
  "ls_by_link_id (ls_index_add l st) = index_add_row (\<lambda>l. Some (ln_link_id l)) (storage_key l) l (ls_by_link_id st)"
  by (simp_all add: ls_index_add_def index_add_row_def)

lemma ls_index_remove_rows:
  "ls_primary (ls_index_remove l st) = ls_primary st"
  "ls_by_src (ls_index_remove l st) = index_remove_row (\<lambda>l. Some (ln_source_node_id l)) (storage_key l) l (ls_by_src st)"
  "ls_by_dest (ls_index_remove l st) = index_remove_row (\<lambda>l. Some (ln_dest_node_id l)) (storage_key l) l (ls_by_dest st)"
  "ls_by_link_id (ls_index_remove l st) = index_remove_row (\<lambda>l. Some (ln_link_id l)) (storage_key l) l (ls_by_link_id st)"
  by (simp_all add: ls_index_remove_def index_remove_row_def)

lemma link_store_new_inv: "ls_inv link_store_new"
  by (simp add: ls_inv_def link_store_new_def index_exact_empty)

lemma ls_same_key:
  assumes "ls_inv st" "link_plain l" "hget (ls_primary st) (storage_key l) = Some l0"
  shows "ln_source_node_id l = ln_source_node_id l0 \<and> ln_dest_node_id l = ln_dest_node_id l0 \<and> ln_link_id l = ln_link_id l0"
proof -
  have "link_plain l0" "storage_key l0 = storage_key l" using assms(1,3) unfolding ls_inv_def by blast+
  then show ?thesis using storage_key_inj [of l l0] assms(2) by simp
qed

lemma ls_overwrite_inv:
  assumes inv: "ls_inv st" and l: "link_plain l" "hget (ls_primary st) (storage_key l) = Some l0"
  shows "ls_inv (st\<lparr>ls_primary := hput (storage_key l) l (ls_primary st)\<rparr>)"
  using inv ls_same_key [OF assms] l index_exact_change [where row = "storage_key l" and r = l0 and r' = l]
  by (simp add: ls_inv_def)

lemma ls_insert_inv:
  assumes "ls_inv st" "link_plain l"
  shows "ls_inv (ls_insert l st)"
proof (cases "hget (ls_primary st) (storage_key l)")
  case None
  then show ?thesis
    using assms index_exact_add [OF _ None] by (simp add: ls_insert_def ls_inv_def ls_index_add_rows)
next
  case (Some l0)
  then show ?thesis using ls_overwrite_inv [OF assms Some] by (simp add: ls_insert_def Let_def)
qed

lemma ls_delete_inv:
  assumes "ls_inv st" "hget (ls_primary st) row = Some l"
  shows "ls_inv (ls_index_remove l (st\<lparr>ls_primary := hdel row (ls_primary st)\<rparr>))"
proof -
  have "storage_key l = row" using assms unfolding ls_inv_def by blast
  then show ?thesis using assms by (simp add: ls_inv_def ls_index_remove_rows index_exact_remove)
qed

lemma index_exact_cong:
  "index_exact key primary idx \<Longrightarrow> (\<And>k. index_get idx' k = index_get idx k) \<Longrightarrow> index_exact key primary idx'"
  by (simp add: index_exact_def)

lemma index_exact_put:
  assumes "index_exact key primary idx" "\<And>r0. hget primary row = Some r0 \<Longrightarrow> key r0 = key r"
  shows "index_exact key (hput row r primary) (index_add_row key row r idx)"
proof (cases "hget primary row")
  case None
  then show ?thesis using index_exact_add [OF assms(1)] by blast
next
  case (Some r0)
  have "index_get (index_add_row key row r idx) k = index_get idx k" for k
    using assms Some by (auto simp: index_add_row_def index_exact_def List.insert_def simp del: map_of_eq_Some_iff split: option.split)
  then show ?thesis using index_exact_cong [OF index_exact_change [OF assms(1) Some]] assms(2) [OF Some] by simp
qed

lemma index_exact_forget:
  assumes "index_exact key primary idx" "hget primary row = Some r" "key r = Some k"
  shows "index_exact key (hdel row primary) (index_forget k row idx)"
  by (rule index_exact_cong [OF index_exact_remove [OF assms(1,2)]]) (simp add: index_remove_row_def assms(3))

lemma ls_invI:
  assumes "index_exact (\<lambda>l. Some (ln_source_node_id l)) p by_src" "index_exact (\<lambda>l. Some (ln_dest_node_id l)) p by_dest"
    "index_exact (\<lambda>l. Some (ln_link_id l)) p by_link" "\<forall>row l. hget p row = Some l \<longrightarrow> storage_key l = row \<and> link_plain l"
  shows "ls_inv (st\<lparr>ls_primary := p, ls_by_src := by_src, ls_by_dest := by_dest, ls_by_link_id := by_link\<rparr>)"
  using assms unfolding ls_inv_def by simp

lemma find_claimable_some:
  assumes "ls_inv st" "find_claimable st lid dest_domain = Some key"
  shows "\<exists>l. hget (ls_primary st) key = Some l \<and> ln_dest_node_id l = [] \<and> ln_dest_domain l = dest_domain \<and>
    ln_status l \<noteq> Link_Deleted \<and> ln_link_id l = lid"
proof -
  have key: "key \<in> set (index_get (ls_by_link_id st) lid)"
      "case hget (ls_primary st) key of
         Some l \<Rightarrow> ln_dest_node_id l = [] \<and> ln_dest_domain l = dest_domain \<and> ln_status l \<noteq> Link_Deleted | None \<Rightarrow> False"
    using assms(2) by (auto simp: find_claimable_def find_Some_iff in_set_conv_nth)
  then obtain l where "hget (ls_primary st) key = Some l" "ln_link_id l = lid"
    using assms(1) by (auto simp: ls_inv_def index_exact_def simp del: map_of_eq_Some_iff)
  with key(2) show ?thesis by auto
qed

lemma db_claim_link_inv:
  assumes inv: "ls_inv st" and claimant: "CHR ''|'' \<notin> set claimant"
  shows "ls_inv (snd (db_claim_link now lid dest_domain claimant st))"
proof (cases "find_claimable st lid dest_domain")
  case None
  then show ?thesis using inv by (simp add: db_claim_link_def)
next
  case (Some old_key)
  from find_claimable_some [OF inv Some] obtain link where link: "hget (ls_primary st) old_key = Some link" "ln_dest_node_id link = []" "ln_link_id link = lid"
    by blast
  have ex: "index_exact (\<lambda>l. Some (ln_source_node_id l)) (ls_primary st) (ls_by_src st)"
      "index_exact (\<lambda>l. Some (ln_dest_node_id l)) (ls_primary st) (ls_by_dest st)"
      "index_exact (\<lambda>l. Some (ln_link_id l)) (ls_primary st) (ls_by_link_id st)"
    using inv unfolding ls_inv_def by blast+
  define l where "l = link\<lparr>ln_dest_node_id := claimant, ln_status := Link_Applied, ln_last_updated := now\<rparr>"
  have plain: "link_plain l" using inv link(1) claimant unfolding ls_inv_def by (auto simp: l_def link_plain_def)
  let ?p = "hdel old_key (ls_primary st)"
  have rows: "storage_key r0 = storage_key l \<and> link_plain r0" if "hget ?p (storage_key l) = Some r0" for r0
    using inv that unfolding ls_inv_def by (auto split: if_splits simp del: map_of_eq_Some_iff)
  have same: "ln_source_node_id r0 = ln_source_node_id l" "ln_dest_node_id r0 = ln_dest_node_id l" "ln_link_id r0 = ln_link_id l"
    if "hget ?p (storage_key l) = Some r0" for r0
    using storage_key_inj [of r0 l] rows [OF that] plain by simp_all
  have re: "index_exact (\<lambda>l. Some (f l)) (hput (storage_key l) l ?p) (index_put (f l) (storage_key l) (index_forget k old_key idx))"
    if "index_exact (\<lambda>l. Some (f l)) (ls_primary st) idx" "f link = k" "\<And>r0. hget ?p (storage_key l) = Some r0 \<Longrightarrow> f r0 = f l" for f k idx
    using index_exact_put [OF index_exact_forget [OF that(1) link(1), of k], of "storage_key l" l] that(2,3)
    by (simp add: index_add_row_def)
  have "\<forall>row l'. hget (hput (storage_key l) l ?p) row = Some l' \<longrightarrow> storage_key l' = row \<and> link_plain l'"
    using inv plain unfolding ls_inv_def by (auto split: if_splits simp del: map_of_eq_Some_iff)
  moreover have "snd (db_claim_link now lid dest_domain claimant st) =
      st\<lparr>ls_primary := hput (storage_key l) l ?p,
        ls_by_src := index_put (ln_source_node_id l) (storage_key l) (index_forget (ln_source_node_id link) old_key (ls_by_src st)),
        ls_by_dest := index_put (ln_dest_node_id l) (storage_key l) (index_forget [] old_key (ls_by_dest st)),
        ls_by_link_id := index_put (ln_link_id l) (storage_key l) (index_forget lid old_key (ls_by_link_id st))\<rparr>"
    using Some link(1) by (simp add: db_claim_link_def Let_def l_def)
  moreover have "index_exact (\<lambda>l. Some (ln_source_node_id l)) (hput (storage_key l) l ?p)
      (index_put (ln_source_node_id l) (storage_key l) (index_forget (ln_source_node_id link) old_key (ls_by_src st)))"
    by (rule re [OF ex(1) refl same(1)])
  moreover have "index_exact (\<lambda>l. Some (ln_dest_node_id l)) (hput (storage_key l) l ?p)
      (index_put (ln_dest_node_id l) (storage_key l) (index_forget [] old_key (ls_by_dest st)))"
    by (rule re [OF ex(2) link(2) same(2)])
  moreover have "index_exact (\<lambda>l. Some (ln_link_id l)) (hput (storage_key l) l ?p)
      (index_put (ln_link_id l) (storage_key l) (index_forget lid old_key (ls_by_link_id st)))"
    by (rule re [OF ex(3) link(3) same(3)])
  ultimately show ?thesis by (simp only: ls_invI)
qed

lemma db_link_ops_inv:
  assumes "ls_inv st"
  shows "link_plain link \<Longrightarrow> ls_inv (snd (db_add_link created updated link st))"
    "link_plain link \<Longrightarrow> ls_inv (snd (db_update_link now link st))" "ls_inv (snd (db_delete_link link st))"
    "link_plain link \<Longrightarrow> ls_inv (snd (db_find_or_create_link now link st))"
proof -
  have upd: "storage_key (l\<lparr>ln_last_updated := u\<rparr>) = storage_key l" "link_plain (l\<lparr>ln_last_updated := u\<rparr>) = link_plain l"
      "link_plain (l\<lparr>ln_created_at := u\<rparr>) = link_plain l" for l u
    by (simp_all add: storage_key_def link_plain_def)
  show "link_plain link \<Longrightarrow> ls_inv (snd (db_add_link created updated link st))"
    using assms by (auto simp: db_add_link_def Let_def upd intro!: ls_insert_inv)
  show "link_plain link \<Longrightarrow> ls_inv (snd (db_update_link now link st))"
    using assms ls_overwrite_inv [OF assms, of "link\<lparr>ln_last_updated := now\<rparr>"] by (auto simp: db_update_link_def upd)
  show "ls_inv (snd (db_delete_link link st))"
    using assms ls_delete_inv [OF assms] by (auto simp: db_delete_link_def simp del: map_of_eq_Some_iff split: option.split)
  show "link_plain link \<Longrightarrow> ls_inv (snd (db_find_or_create_link now link st))"
    using assms by (auto simp: db_find_or_create_link_def Let_def upd intro!: ls_insert_inv split: option.split)
qed

section \<open>Nodes, topology and registration secrets\<close>

record in_memory_db =
  db_nodes :: "(string, cp_node) hmap"
  db_routes :: route_store
  db_links :: link_store
  db_topology_segments :: "(string, topology_segment) hmap"
  db_topology_segment_links :: "topology_segment_link list"
  db_registration_secrets :: "(string, string) hmap"

definition in_memory_db_new :: in_memory_db where
  "in_memory_db_new =
     \<lparr>db_nodes = [], db_routes = route_store_new, db_links = link_store_new, db_topology_segments = [],
      db_topology_segment_links = [], db_registration_secrets = []\<rparr>"

definition db_save_node :: "string \<Rightarrow> timestamp \<Rightarrow> timestamp \<Rightarrow> cp_node \<Rightarrow> in_memory_db \<Rightarrow> (string \<times> bool) \<times> in_memory_db" where
  "db_save_node fresh_uuid created updated node db =
     (case (if node_id node = [] then (node\<lparr>node_id := fresh_uuid, node_created_at := created\<rparr>, False)
            else
              (case hget (db_nodes db) (node_id node) of
                 Some existing \<Rightarrow>
                   (node\<lparr>node_created_at := node_created_at existing\<rparr>,
                    has_connection_details_changed (node_conn_details existing) (node_conn_details node))
               | None \<Rightarrow> (node\<lparr>node_created_at := created\<rparr>, False))) of
        (n, changed) \<Rightarrow>
          ((node_id n, changed), db\<lparr>db_nodes := hput (node_id n) (n\<lparr>node_last_updated := updated\<rparr>) (db_nodes db)\<rparr>))"

definition db_delete_node :: "string \<Rightarrow> in_memory_db \<Rightarrow> (cp_error + unit) \<times> in_memory_db" where
  "db_delete_node n db =
     (if hget (db_nodes db) n = None then (Inl (Node_Not_Found n), db)
      else (Inr (), db\<lparr>db_nodes := hdel n (db_nodes db)\<rparr>))"

definition db_get_segment_by_name :: "string \<Rightarrow> in_memory_db \<Rightarrow> topology_segment option" where
  "db_get_segment_by_name name db = List.find (\<lambda>s. seg_name s = name) (hvalues (db_topology_segments db))"

definition db_create_segment :: "string \<Rightarrow> timestamp \<Rightarrow> string \<Rightarrow> in_memory_db \<Rightarrow> topology_segment \<times> in_memory_db" where
  "db_create_segment fresh_uuid now name db =
     (case db_get_segment_by_name name db of
        Some existing \<Rightarrow> (existing, db)
      | None \<Rightarrow>
          (let seg = \<lparr>seg_id = fresh_uuid, seg_name = name, seg_created_at = now\<rparr>
           in (seg, db\<lparr>db_topology_segments := hput fresh_uuid seg (db_topology_segments db)\<rparr>)))"

definition db_delete_segment :: "string \<Rightarrow> in_memory_db \<Rightarrow> in_memory_db" where
  "db_delete_segment sid db =
     db\<lparr>db_topology_segments := hdel sid (db_topology_segments db),
       db_topology_segment_links := filter (\<lambda>l. sl_segment_id l \<noteq> sid) (db_topology_segment_links db)\<rparr>"

definition db_add_link_to_segment :: "string \<Rightarrow> string \<Rightarrow> string \<Rightarrow> in_memory_db \<Rightarrow> in_memory_db" where
  "db_add_link_to_segment sid src dest db =
     (if \<exists>l\<in>set (db_topology_segment_links db). sl_segment_id l = sid \<and> sl_source_domain l = src \<and> sl_dest_domain l = dest then db
      else db\<lparr>db_topology_segment_links :=
             db_topology_segment_links db @ [\<lparr>sl_segment_id = sid, sl_source_domain = src, sl_dest_domain = dest\<rparr>]\<rparr>)"

definition db_delete_link_from_segment :: "string \<Rightarrow> string \<Rightarrow> string \<Rightarrow> in_memory_db \<Rightarrow> in_memory_db" where
  "db_delete_link_from_segment sid src dest db =
     db\<lparr>db_topology_segment_links :=
       filter (\<lambda>l. \<not> (sl_segment_id l = sid \<and>
           (sl_source_domain l = src \<and> sl_dest_domain l = dest \<or> sl_source_domain l = dest \<and> sl_dest_domain l = src)))
         (db_topology_segment_links db)\<rparr>"

definition db_get_links_for_segment :: "string \<Rightarrow> in_memory_db \<Rightarrow> (string \<times> string) list" where
  "db_get_links_for_segment sid db =
     map (\<lambda>l. (sl_source_domain l, sl_dest_domain l)) (filter (\<lambda>l. sl_segment_id l = sid) (db_topology_segment_links db))"

definition db_clear_runtime_state :: "in_memory_db \<Rightarrow> in_memory_db" where
  "db_clear_runtime_state db = db\<lparr>db_nodes := [], db_routes := route_store_new, db_links := link_store_new\<rparr>"

definition db_clear_all_state :: "in_memory_db \<Rightarrow> in_memory_db" where
  "db_clear_all_state db =
     (db_clear_runtime_state db)\<lparr>db_topology_segment_links := [], db_topology_segments := [], db_registration_secrets := []\<rparr>"

definition db_upsert_registration_secret :: "string \<Rightarrow> string \<Rightarrow> in_memory_db \<Rightarrow> in_memory_db" where
  "db_upsert_registration_secret domain secret db =
     db\<lparr>db_registration_secrets := hput domain secret (db_registration_secrets db)\<rparr>"

definition db_delete_registration_secret :: "string \<Rightarrow> in_memory_db \<Rightarrow> in_memory_db" where
  "db_delete_registration_secret domain db = db\<lparr>db_registration_secrets := hdel domain (db_registration_secrets db)\<rparr>"

definition db_delete_all_registration_secrets :: "in_memory_db \<Rightarrow> in_memory_db" where
  "db_delete_all_registration_secrets db = db\<lparr>db_registration_secrets := []\<rparr>"

section \<open>Reachable databases\<close>

text \<open>The calls that change the tables of routes and links; links come with plain fields.\<close>

inductive db_step :: "(string \<Rightarrow> string) \<Rightarrow> in_memory_db \<Rightarrow> in_memory_db \<Rightarrow> bool" for uuid_v5 where
  add_route: "db_add_route uuid_v5 c u r (db_routes db) = (res, st) \<Longrightarrow> db_step uuid_v5 db (db\<lparr>db_routes := st\<rparr>)"
| delete_route: "db_delete_route row (db_routes db) = (res, st) \<Longrightarrow> db_step uuid_v5 db (db\<lparr>db_routes := st\<rparr>)"
| mark_route_deleted: "db_mark_route_deleted now row (db_routes db) = (res, st) \<Longrightarrow> db_step uuid_v5 db (db\<lparr>db_routes := st\<rparr>)"
| mark_route_applied: "db_mark_route_applied now row (db_routes db) = (res, st) \<Longrightarrow> db_step uuid_v5 db (db\<lparr>db_routes := st\<rparr>)"
| mark_route_failed: "db_mark_route_failed now row msg (db_routes db) = (res, st) \<Longrightarrow> db_step uuid_v5 db (db\<lparr>db_routes := st\<rparr>)"
| update_route_link_id: "db_update_route_link_id now row lid (db_routes db) = (res, st) \<Longrightarrow> db_step uuid_v5 db (db\<lparr>db_routes := st\<rparr>)"
| add_link: "link_plain l \<Longrightarrow> db_add_link c u l (db_links db) = (res', st') \<Longrightarrow> db_step uuid_v5 db (db\<lparr>db_links := st'\<rparr>)"
| update_link: "link_plain l \<Longrightarrow> db_update_link now l (db_links db) = (res'', st') \<Longrightarrow> db_step uuid_v5 db (db\<lparr>db_links := st'\<rparr>)"
| delete_link: "db_delete_link l (db_links db) = (res'', st') \<Longrightarrow> db_step uuid_v5 db (db\<lparr>db_links := st'\<rparr>)"
| find_or_create_link: "link_plain l \<Longrightarrow> db_find_or_create_link now l (db_links db) = (res3, st') \<Longrightarrow> db_step uuid_v5 db (db\<lparr>db_links := st'\<rparr>)"
| claim_link: "CHR ''|'' \<notin> set claimant \<Longrightarrow> db_claim_link now lid d claimant (db_links db) = (res4, st') \<Longrightarrow>
    db_step uuid_v5 db (db\<lparr>db_links := st'\<rparr>)"
| save_node: "db_save_node fresh c u n db = (res5, db') \<Longrightarrow> db_step uuid_v5 db db'"
| delete_node: "db_delete_node nid db = (res6, db') \<Longrightarrow> db_step uuid_v5 db db'"
| create_segment: "db_create_segment fresh now name db = (seg, db') \<Longrightarrow> db_step uuid_v5 db db'"
| delete_segment: "db_step uuid_v5 db (db_delete_segment sid db)"
| add_link_to_segment: "db_step uuid_v5 db (db_add_link_to_segment sid a b db)"
| delete_link_from_segment: "db_step uuid_v5 db (db_delete_link_from_segment sid a b db)"
| upsert_secret: "db_step uuid_v5 db (db_upsert_registration_secret d secret db)"
| delete_secret: "db_step uuid_v5 db (db_delete_registration_secret d db)"
| delete_all_secrets: "db_step uuid_v5 db (db_delete_all_registration_secrets db)"
| clear_runtime_state: "db_step uuid_v5 db (db_clear_runtime_state db)"
| clear_all_state: "db_step uuid_v5 db (db_clear_all_state db)"

inductive db_reachable :: "(string \<Rightarrow> string) \<Rightarrow> in_memory_db \<Rightarrow> bool" for uuid_v5 where
  new: "db_reachable uuid_v5 in_memory_db_new"
| step: "db_reachable uuid_v5 db \<Longrightarrow> db_step uuid_v5 db db' \<Longrightarrow> db_reachable uuid_v5 db'"

definition db_inv :: "in_memory_db \<Rightarrow> bool" where
  "db_inv db \<longleftrightarrow> rs_inv (db_routes db) \<and> ls_inv (db_links db)"

lemma db_inv_routes: "db_inv db \<Longrightarrow> rs_inv st \<Longrightarrow> db_inv (db\<lparr>db_routes := st\<rparr>)"
  by (simp add: db_inv_def)

lemma db_inv_links: "db_inv db \<Longrightarrow> ls_inv st \<Longrightarrow> db_inv (db\<lparr>db_links := st\<rparr>)"
  by (simp add: db_inv_def)

lemma db_inv_same: "db_inv db \<Longrightarrow> db_routes db' = db_routes db \<Longrightarrow> db_links db' = db_links db \<Longrightarrow> db_inv db'"
  by (simp add: db_inv_def)

lemma db_step_inv:
  assumes "db_step uuid_v5 db db'" "db_inv db"
  shows "db_inv db'"
  using assms
proof (induction rule: db_step.induct)
  case (add_route c u r db res st)
  then show ?case using db_route_ops_inv(1) [of "db_routes db" uuid_v5 c u r] by (intro db_inv_routes) (simp_all add: db_inv_def)
next
  case (delete_route row db res st)
  then show ?case using db_route_ops_inv(2) [of "db_routes db" row] by (intro db_inv_routes) (simp_all add: db_inv_def)
next
  case (mark_route_deleted now row db res st)
  then show ?case using db_route_ops_inv(3) [of "db_routes db" now row] by (intro db_inv_routes) (simp_all add: db_inv_def)
next
  case (mark_route_applied now row db res st)
  then show ?case using db_route_ops_inv(4) [of "db_routes db" now row]
    by (intro db_inv_routes) (simp_all add: db_inv_def db_mark_route_applied_def, metis snd_conv)
next
  case (mark_route_failed now row msg db res st)
  then show ?case using db_route_ops_inv(4) [of "db_routes db" now row]
    by (intro db_inv_routes) (simp_all add: db_inv_def db_mark_route_failed_def, metis snd_conv)
next
  case (update_route_link_id now row lid db res st)
  then show ?case using db_route_ops_inv(5) [of "db_routes db" now row lid] by (intro db_inv_routes) (simp_all add: db_inv_def)
next
  case (add_link l c u db res' st')
  then show ?case using db_link_ops_inv(1) [of "db_links db" l c u] by (intro db_inv_links) (simp_all add: db_inv_def)
next
  case (update_link l now db res'' st')
  then show ?case using db_link_ops_inv(2) [of "db_links db" l now] by (intro db_inv_links) (simp_all add: db_inv_def)
next
  case (delete_link l db res'' st')
  then show ?case using db_link_ops_inv(3) [of "db_links db" l] by (intro db_inv_links) (simp_all add: db_inv_def)
next
  case (find_or_create_link l now db res3 st')
  then show ?case using db_link_ops_inv(4) [of "db_links db" l now] by (intro db_inv_links) (simp_all add: db_inv_def)
next
  case (claim_link claimant now lid d db res4 st')
  then show ?case using db_claim_link_inv [of "db_links db" claimant now lid d] by (intro db_inv_links) (simp_all add: db_inv_def)
next
  case (save_node fresh c u n db res5 db')
  then show ?case by (intro db_inv_same [of db db']) (auto simp: db_save_node_def split: prod.splits)
next
  case (delete_node nid db res6 db')
  then show ?case by (intro db_inv_same [of db db']) (auto simp: db_delete_node_def split: if_splits)
next
  case (create_segment fresh now name db seg db')
  then show ?case by (intro db_inv_same [of db db']) (auto simp: db_create_segment_def Let_def split: option.splits)
next
  case (clear_runtime_state db)
  then show ?case by (simp add: db_inv_def db_clear_runtime_state_def route_store_new_inv link_store_new_inv)
next
  case (clear_all_state db)
  then show ?case by (simp add: db_inv_def db_clear_all_state_def db_clear_runtime_state_def route_store_new_inv link_store_new_inv)
qed (simp_all add: db_inv_def db_delete_segment_def db_add_link_to_segment_def db_delete_link_from_segment_def
      db_upsert_registration_secret_def db_delete_registration_secret_def db_delete_all_registration_secrets_def)

lemma db_reachable_inv: "db_reachable uuid_v5 db \<Longrightarrow> db_inv db"
  by (induction rule: db_reachable.induct)
     (simp_all add: db_step_inv, simp add: db_inv_def in_memory_db_new_def route_store_new_inv link_store_new_inv)

section \<open>Queries\<close>

lemma route_rows:
  assumes "rs_inv st"
  shows "mset (index_rows (rs_primary st) (rs_by_src st) k) = {#r \<in># mset (hvalues (rs_primary st)). rt_source_node_id r = k#}"
    "mset (index_rows (rs_primary st) (rs_by_dest st) k) = {#r \<in># mset (hvalues (rs_primary st)). rt_dest_node_id r = k#}"
    "mset (index_rows (rs_primary st) (rs_by_link st) k) = {#r \<in># mset (hvalues (rs_primary st)). rt_link_id r = Some k#}"
proof -
  have "index_exact (\<lambda>r. Some (rt_source_node_id r)) (rs_primary st) (rs_by_src st)"
      "index_exact (\<lambda>r. Some (rt_dest_node_id r)) (rs_primary st) (rs_by_dest st)"
      "index_exact rt_link_id (rs_primary st) (rs_by_link st)"
    using assms unfolding rs_inv_def by blast+
  from this [THEN index_rows_exact, of k]
  show "mset (index_rows (rs_primary st) (rs_by_src st) k) = {#r \<in># mset (hvalues (rs_primary st)). rt_source_node_id r = k#}"
    "mset (index_rows (rs_primary st) (rs_by_dest st) k) = {#r \<in># mset (hvalues (rs_primary st)). rt_dest_node_id r = k#}"
    "mset (index_rows (rs_primary st) (rs_by_link st) k) = {#r \<in># mset (hvalues (rs_primary st)). rt_link_id r = Some k#}"
    by (simp_all add: mset_filter)
qed

lemma link_rows:
  assumes "ls_inv st"
  shows "mset (index_rows (ls_primary st) (ls_by_src st) k) = {#l \<in># mset (hvalues (ls_primary st)). ln_source_node_id l = k#}"
    "mset (index_rows (ls_primary st) (ls_by_dest st) k) = {#l \<in># mset (hvalues (ls_primary st)). ln_dest_node_id l = k#}"
    "mset (index_rows (ls_primary st) (ls_by_link_id st) k) = {#l \<in># mset (hvalues (ls_primary st)). ln_link_id l = k#}"
proof -
  have "index_exact (\<lambda>l. Some (ln_source_node_id l)) (ls_primary st) (ls_by_src st)"
      "index_exact (\<lambda>l. Some (ln_dest_node_id l)) (ls_primary st) (ls_by_dest st)"
      "index_exact (\<lambda>l. Some (ln_link_id l)) (ls_primary st) (ls_by_link_id st)"
    using assms unfolding ls_inv_def by blast+
  from this [THEN index_rows_exact, of k]
  show "mset (index_rows (ls_primary st) (ls_by_src st) k) = {#l \<in># mset (hvalues (ls_primary st)). ln_source_node_id l = k#}"
    "mset (index_rows (ls_primary st) (ls_by_dest st) k) = {#l \<in># mset (hvalues (ls_primary st)). ln_dest_node_id l = k#}"
    "mset (index_rows (ls_primary st) (ls_by_link_id st) k) = {#l \<in># mset (hvalues (ls_primary st)). ln_link_id l = k#}"
    by (simp_all add: mset_filter)
qed

lemma index_rows_absent: "hget idx k = None \<Longrightarrow> index_rows primary idx k = []"
  by (simp add: index_rows_def index_get_def map_filter_simps)

lemma db_filter_routes_exact:
  assumes "rs_inv st"
  shows "mset (db_filter_routes src dest st) =
    {#r \<in># mset (hvalues (rs_primary st)). (src = [] \<or> rt_source_node_id r = src) \<and> (dest = [] \<or> rt_dest_node_id r = dest)#}"
proof (cases "src = [] \<or> dest = []")
  case True
  then show ?thesis
    by (cases "src = []"; cases "dest = []") (simp_all add: db_filter_routes_def route_rows [OF assms, simplified])
next
  case False

  have one: "mset (filter (\<lambda>r. rt_dest_node_id r = dest) (index_rows (rs_primary st) (rs_by_src st) src)) =
      {#r \<in># mset (hvalues (rs_primary st)). rt_source_node_id r = src \<and> rt_dest_node_id r = dest#}"
    and two: "mset (filter (\<lambda>r. rt_source_node_id r = src) (index_rows (rs_primary st) (rs_by_dest st) dest)) =
      {#r \<in># mset (hvalues (rs_primary st)). rt_source_node_id r = src \<and> rt_dest_node_id r = dest#}"
    by (simp_all add: mset_filter route_rows [OF assms, simplified] filter_filter_mset conj_commute)
  show ?thesis
  proof (cases "hget (rs_by_src st) src = None \<or> hget (rs_by_dest st) dest = None")
    case True
    then have "{#r \<in># mset (hvalues (rs_primary st)). rt_source_node_id r = src \<and> rt_dest_node_id r = dest#} = {#}"
      using one two index_rows_absent by (metis filter.simps(1) mset.simps(1))
    moreover have "db_filter_routes src dest st = []"
      using True False by (auto simp: db_filter_routes_def split: option.split bool.split)
    ultimately show ?thesis using False by simp
  next
    case other: False
    then show ?thesis using False one two by (auto simp: db_filter_routes_def split: bool.split)
  qed
qed

lemma db_filter_links_exact:
  assumes "ls_inv st"
  shows "mset (db_filter_links src dest st) =
    {#l \<in># mset (hvalues (ls_primary st)). (src = [] \<or> ln_source_node_id l = src) \<and> (dest = [] \<or> ln_dest_node_id l = dest)#}"
  by (cases "src = []"; cases "dest = []")
     (simp_all add: db_filter_links_def mset_filter link_rows [OF assms, simplified] filter_filter_mset conj_commute)

lemma index_rows_set: "index_exact key primary idx \<Longrightarrow> r \<in> set (index_rows primary idx k) \<longleftrightarrow> r \<in> set (hvalues primary) \<and> key r = Some k"
  using arg_cong [OF index_rows_exact [of key primary idx k], of set_mset] by simp

lemma db_get_links_for_node_exact:
  assumes "ls_inv st"
  shows "set (db_get_links_for_node n st) = {l \<in> set (hvalues (ls_primary st)). ln_source_node_id l = n \<or> ln_dest_node_id l = n}"
proof -
  have ex: "index_exact (\<lambda>l. Some (ln_source_node_id l)) (ls_primary st) (ls_by_src st)"
      "index_exact (\<lambda>l. Some (ln_dest_node_id l)) (ls_primary st) (ls_by_dest st)"
    using assms unfolding ls_inv_def by blast+
  have "set (List.map_filter f (List.union xs ys)) = set (List.map_filter f xs) \<union> set (List.map_filter f ys)" for f :: "string \<Rightarrow> cp_link option" and xs ys
    by (auto simp: map_filter_def)
  then have "set (db_get_links_for_node n st) =
      set (index_rows (ls_primary st) (ls_by_src st) n) \<union> set (index_rows (ls_primary st) (ls_by_dest st) n)"
    by (simp add: db_get_links_for_node_def index_rows_def)
  then show ?thesis using index_rows_set [OF ex(1), of _ n] index_rows_set [OF ex(2), of _ n] by auto
qed

lemma latest_link_None: "latest_link P ls latest = None \<longleftrightarrow> latest = None \<and> (\<forall>l\<in>set ls. \<not> P l)"
  by (induction ls arbitrary: latest) (auto split: option.splits)

end
