(* ===== verification/Control_Properties.thy ===== *)
theory Control_Properties
  imports Work_Queue Control_Db
begin

text \<open>
  The correctness properties of the control plane: the work queue of its reconcilers under every
  interleaving, and the tables of its database.
\<close>

section \<open>The work queue\<close>

text \<open>
  C10. The work queue is safe under every interleaving of producers, workers, notifications, delayed
  additions, shutdowns and drains: no item is processed by two workers at once or processed while it
  waits, and none waits twice; while the queue is not empty some worker is about to look at it or a
  wake-up for one is under way; a caller that drains sleeps only while items are in process or its
  wake-up is under way.
\<close>

theorem work_queue_safe:
  assumes "sys_reachable n s"
  shows "distinct (wq_queue (sys_queue s)) \<and>
    (\<forall>i j item. i < length (sys_workers s) \<and> j < length (sys_workers s) \<and>
       sys_workers s ! i = Working item \<and> sys_workers s ! j = Working item \<longrightarrow> i = j) \<and>
    (\<forall>item. Working item \<in> set (sys_workers s) \<longrightarrow> item \<notin> set (wq_queue (sys_queue s))) \<and>
    (wq_queue (sys_queue s) \<noteq> [] \<longrightarrow>
       0 < sys_owed s \<or> sys_permit s \<or> (\<exists>w\<in>set (sys_workers s). w = Ready \<or> (\<exists>item. w = Working item))) \<and>
    (Sleeping \<in> set (sys_drainers s) \<longrightarrow> wq_drain (sys_queue s) \<and> wq_processing (sys_queue s) \<noteq> {} \<or> 0 < sys_drain_owed s)"
proof -
  have inv: "sys_inv s" using assms by (rule sys_reachable_inv)
  then have held: "held_once (sys_workers s) (wq_processing (sys_queue s))" and q: "wq_inv (sys_queue s)" by (simp_all add: sys_inv_def)
  have "at_work w \<longleftrightarrow> w = Ready \<or> (\<exists>item. w = Working item)" for w :: "'a worker" by (cases w) auto
  then have "wq_queue (sys_queue s) \<noteq> [] \<longrightarrow>
       0 < sys_owed s \<or> sys_permit s \<or> (\<exists>w\<in>set (sys_workers s). w = Ready \<or> (\<exists>item. w = Working item))"
    using inv by (simp add: sys_inv_def attended_def)
  moreover have "Working item \<in> set (sys_workers s) \<longrightarrow> item \<notin> set (wq_queue (sys_queue s))" for item
    using held q by (auto simp: held_once_def wq_inv_def)
  moreover have "Sleeping \<in> set (sys_drainers s) \<longrightarrow> wq_drain (sys_queue s) \<and> wq_processing (sys_queue s) \<noteq> {} \<or> 0 < sys_drain_owed s"
    using inv by (auto simp: sys_inv_def wq_drained_def)
  moreover have "\<forall>i j item. i < length (sys_workers s) \<and> j < length (sys_workers s) \<and>
       sys_workers s ! i = Working item \<and> sys_workers s ! j = Working item \<longrightarrow> i = j"
    using held unfolding held_once_def by blast
  ultimately show ?thesis using q by (simp add: wq_inv_def)
qed

text \<open>Two workers, an item added again while it is processed, and a drain.\<close>

definition demo_schedule :: "nat sys_event list" where
  "demo_schedule = [E_Add 7, E_Work 0, E_Add 7, E_Add 8, E_Work 1, E_Shutdown_With_Drain, E_Drain_Check 0, E_Work 0]"

definition demo_system :: "nat wq_system" where
  "demo_system = the (sys_run demo_schedule (sys_start 2))"

lemma demo_system_run: "sys_run demo_schedule (sys_start 2) = Some demo_system"
proof -
  have "sys_run demo_schedule (sys_start 2) \<noteq> None" by code_simp
  then show ?thesis by (simp add: demo_system_def)
qed

theorem work_queue_safe_witness:
  "wq_queue (sys_queue demo_system) = [7] \<and> sys_workers demo_system ! 1 = Working 8 \<and> (8 :: nat) \<notin> set (wq_queue (sys_queue demo_system)) \<and>
   sys_drainers demo_system = [Sleeping] \<and> (wq_drain (sys_queue demo_system) \<and> wq_processing (sys_queue demo_system) \<noteq> {} \<or> 0 < sys_drain_owed demo_system)"
proof -
  have reach: "sys_reachable 2 demo_system" by (rule sys_run_reachable [OF sys_reachable.start demo_system_run])
  have "wq_queue (sys_queue demo_system) = [7]" "sys_workers demo_system = [Ready, Working 8]" "sys_drainers demo_system = [Sleeping]"
    unfolding demo_system_def by code_simp+
  then show ?thesis using work_queue_safe [OF reach] by simp
qed

text \<open>
  C31. No work is lost or made up. An item added before the shutdown is handed out later, or still
  waits, or is still due because it was added while being processed, whatever calls follow; and only
  items that were added are handed out.
\<close>

theorem no_work_lost:
  assumes "queue_run before wq_new = (rs, g)" "\<not> wq_shutdown g" "queue_run (Q_Add item # calls) g = (rs', g')"
  shows "(Some item \<in> set rs' \<or> item \<in> set (wq_queue g') \<or> item \<in> wq_dirty g' \<and> item \<in> wq_processing g') \<and>
    (\<forall>x. Some x \<in> set (rs @ rs') \<longrightarrow> Q_Add x \<in> set (before @ Q_Add item # calls))"
proof -
  have g: "wq_inv g" by (rule queue_run_inv [OF wq_new_inv assms(1)])
  obtain rs1 where run: "queue_run calls (snd (wq_add item g)) = (rs1, g')" "rs' = None # rs1"
    using assms(3) by (auto split: prod.splits)
  have "item \<in> wq_pending (snd (wq_add item g))" using g assms(2) by (simp add: wq_add_pending)
  then have "item \<in> wq_pending g' \<or> Some item \<in> set rs1" by (rule queue_run_pending [OF wq_add_inv [OF g] run(1)])
  moreover have "wq_inv g'" by (rule queue_run_inv [OF g assms(3)])
  ultimately have "Some item \<in> set rs' \<or> item \<in> set (wq_queue g') \<or> item \<in> wq_dirty g' \<and> item \<in> wq_processing g'"
    using run(2) by (auto simp: wq_pending_def wq_inv_def)
  moreover have "Q_Add x \<in> set (before @ Q_Add item # calls)" if "Some x \<in> set (rs @ rs')" for x
  proof -
    have none: "wq_pending wq_new = {}" by (simp add: wq_pending_def wq_new_def)
    have "x \<in> wq_pending g \<or> Q_Add x \<in> set (Q_Add item # calls)" if "Some x \<in> set rs'"
      using queue_run_source [OF g assms(3), of x] that by blast
    then show ?thesis using that none queue_run_source [OF wq_new_inv assms(1), of x] by auto
  qed
  ultimately show ?thesis by blast
qed

theorem no_work_lost_witness:
  "case queue_run [Q_Add (3 :: nat), Q_Pop] wq_new of (rs, g) \<Rightarrow>
     (case queue_run [Q_Add 3, Q_Done 3, Q_Pop] g of (rs', g') \<Rightarrow>
        rs' = [None, None, Some 3] \<and> (\<forall>x. Some x \<in> set (rs @ rs') \<longrightarrow> x = 3))"
proof -
  obtain rs g rs' g' where run: "queue_run [Q_Add (3 :: nat), Q_Pop] wq_new = (rs, g)" "queue_run [Q_Add 3, Q_Done 3, Q_Pop] g = (rs', g')"
    by (metis surj_pair)
  then have "\<not> wq_shutdown g" "rs' = [None, None, Some 3]" by (auto simp: wq_defs wq_new_def)
  then show ?thesis using no_work_lost [OF run(1) _ run(2)] run by auto
qed

text \<open>
  C40. A worker can miss the shutdown. If it finds the queue empty, and the queue is shut down before
  the worker has started to wait, then \<open>notify_waiters\<close> finds nobody and leaves no permit: the worker
  waits although the queue is shut down and empty, and no later step but another shutdown wakes it, so that
  \<open>pop\<close> does not return \<open>None\<close>.
\<close>

theorem shutdown_missed:
  assumes "missed i s" "sys_run es s = Some s'" "E_Shutdown \<notin> set es" "E_Shutdown_With_Drain \<notin> set es"
  shows "sys_workers s' ! i = Waiting \<and> wq_shutdown (sys_queue s') \<and> wq_queue (sys_queue s') = []"
  using missed_run [OF assms(1,3,4,2)] by (simp add: missed_def)

definition demo_stuck :: "nat wq_system" where
  "demo_stuck = the (sys_run [E_Work 0, E_Shutdown, E_Wake_All, E_Work 0] (sys_start 1))"

theorem shutdown_missed_witness:
  "sys_reachable 1 demo_stuck \<and> sys_workers (the (sys_run [E_Add 4, E_Drain_Notify] demo_stuck)) ! 0 = Waiting \<and>
   wq_shutdown (sys_queue (the (sys_run [E_Add 4, E_Drain_Notify] demo_stuck)))"
proof -
  have "sys_run [E_Work 0, E_Shutdown, E_Wake_All, E_Work 0] (sys_start 1 :: nat wq_system) \<noteq> None" by code_simp
  then have "sys_reachable 1 demo_stuck"
    by (intro sys_run_reachable [OF sys_reachable.start, of "[E_Work 0, E_Shutdown, E_Wake_All, E_Work 0]"]) (simp add: demo_stuck_def)
  moreover have "missed 0 demo_stuck"
    by (simp add: missed_def demo_stuck_def sys_start_def sys_work_def wq_defs wq_new_def)
  moreover have "sys_run [E_Add 4, E_Drain_Notify] demo_stuck = Some (the (sys_run [E_Add 4, E_Drain_Notify] demo_stuck))"
  proof -
    have "sys_run [E_Add 4, E_Drain_Notify] demo_stuck \<noteq> None" unfolding demo_stuck_def by code_simp
    then show ?thesis by simp
  qed
  ultimately show ?thesis using shutdown_missed [of 0 demo_stuck "[E_Add 4, E_Drain_Notify]"] by auto
qed

section \<open>The database\<close>

text \<open>
  C11. The indexed lookups are exact. In every database reached by the calls of the control plane, with
  link fields free of the separator of the storage key, each query through an index returns what a
  scan of the whole table returns, row for row: routes by source, by destination, by link, by name and by both
  ends, links by both ends, by node, and the existence of a usable link between two nodes.
\<close>

theorem db_queries_exact:
  assumes "db_reachable uuid_v5 db"
  defines "routes \<equiv> hvalues (rs_primary (db_routes db))" and "links \<equiv> hvalues (ls_primary (db_links db))"
  shows "mset (db_get_routes_for_node n (db_routes db)) = mset (filter (\<lambda>r. rt_source_node_id r = n) routes) \<and>
    mset (db_get_routes_for_dest_and_name n name (db_routes db)) = mset (filter (\<lambda>r. rt_dest_node_id r = n \<and> has_name name r) routes) \<and>
    mset (db_get_routes_by_link lid (db_routes db)) = mset (filter (\<lambda>r. rt_link_id r = Some lid) routes) \<and>
    mset (db_filter_routes src dest (db_routes db)) =
      mset (filter (\<lambda>r. (src = [] \<or> rt_source_node_id r = src) \<and> (dest = [] \<or> rt_dest_node_id r = dest)) routes) \<and>
    mset (db_filter_links src dest (db_links db)) =
      mset (filter (\<lambda>l. (src = [] \<or> ln_source_node_id l = src) \<and> (dest = [] \<or> ln_dest_node_id l = dest)) links) \<and>
    set (db_get_links_for_node n (db_links db)) = set (filter (\<lambda>l. ln_source_node_id l = n \<or> ln_dest_node_id l = n) links) \<and>
    (find_link_in_store (db_links db) a b = None \<longleftrightarrow>
      (\<forall>l\<in>set links. ln_status l \<noteq> Link_Deleted \<longrightarrow>
        \<not> (ln_source_node_id l = a \<and> ln_dest_node_id l = b \<or> ln_source_node_id l = b \<and> ln_dest_node_id l = a)))"
proof -
  have inv: "rs_inv (db_routes db)" "ls_inv (db_links db)" using db_reachable_inv [OF assms(1)] by (simp_all add: db_inv_def)
  have src: "index_exact (\<lambda>l. Some (ln_source_node_id l)) (ls_primary (db_links db)) (ls_by_src (db_links db))"
    using inv(2) unfolding ls_inv_def by blast
  have "find_link_in_store (db_links db) a b = None \<longleftrightarrow>
      (\<forall>l\<in>set links. ln_status l \<noteq> Link_Deleted \<longrightarrow>
        \<not> (ln_source_node_id l = a \<and> ln_dest_node_id l = b \<or> ln_source_node_id l = b \<and> ln_dest_node_id l = a))"
    unfolding find_link_in_store_def latest_link_None links_def using index_rows_set [OF src] by blast
  moreover have "mset (db_get_routes_for_node n (db_routes db)) = mset (filter (\<lambda>r. rt_source_node_id r = n) routes)"
    by (simp add: db_get_routes_for_node_def routes_def route_rows [OF inv(1), simplified] mset_filter)
  moreover have "mset (db_get_routes_for_dest_and_name n name (db_routes db)) = mset (filter (\<lambda>r. rt_dest_node_id r = n \<and> has_name name r) routes)"
    by (simp add: db_get_routes_for_dest_and_name_def routes_def route_rows [OF inv(1), simplified] mset_filter filter_filter_mset conj_commute)
  moreover have "mset (db_get_routes_by_link lid (db_routes db)) = mset (filter (\<lambda>r. rt_link_id r = Some lid) routes)"
    by (simp add: db_get_routes_by_link_def routes_def route_rows [OF inv(1), simplified] mset_filter)
  ultimately show ?thesis
    unfolding db_filter_routes_exact [OF inv(1)] db_filter_links_exact [OF inv(2)] db_get_links_for_node_exact [OF inv(2)]
    by (simp add: routes_def links_def mset_filter)
qed

definition demo_row :: cp_route where
  "demo_row = \<lparr>rt_id = [], rt_source_node_id = ''n1'', rt_source_domain = ''a'', rt_dest_node_id = ''n2'', rt_dest_domain = ''b'',
     rt_link_id = Some ''l1'', rt_component0 = ''org'', rt_component1 = ''ns'', rt_component2 = ''app'', rt_component_id = None,
     rt_status = Route_Pending, rt_status_msg = [], rt_created_at = 0, rt_last_updated = 0\<rparr>"

definition demo_db :: in_memory_db where
  "demo_db = in_memory_db_new\<lparr>db_routes := snd (db_add_route id 5 5 demo_row route_store_new)\<rparr>"

theorem db_queries_exact_witness:
  "\<exists>r. hvalues (rs_primary (db_routes demo_db)) = [r] \<and> rt_created_at r = 5 \<and> mset (db_get_routes_by_link ''l1'' (db_routes demo_db)) = {#r#} \<and>
     mset (db_filter_routes ''n1'' ''n2'' (db_routes demo_db)) = {#r#} \<and> mset (db_get_routes_for_node ''n2'' (db_routes demo_db)) = {#}"
proof -
  have "db_step id in_memory_db_new demo_db"
    using db_step.add_route [of id 5 5 demo_row in_memory_db_new] by (simp add: demo_db_def in_memory_db_new_def prod_eq_iff)
  then have reach: "db_reachable id demo_db" by (rule db_reachable.step [OF db_reachable.new])
  obtain r where "hvalues (rs_primary (db_routes demo_db)) = [r]" "rt_created_at r = 5" "rt_source_node_id r = ''n1''"
      "rt_dest_node_id r = ''n2''" "rt_link_id r = Some ''l1''"
    by (simp add: demo_db_def db_add_route_def route_store_new_def Let_def rs_index_add_def demo_row_def)
  then show ?thesis
    using db_queries_exact [OF reach, of "''n2''"] db_queries_exact [OF reach, of _ _ "''l1''" "''n1''" "''n2''"] by auto
qed

end
