(* ===== verification/Spec2Isabelle.thy ===== *)
theory Spec2Isabelle
  imports Datapath_Properties Session_Properties Sync_Properties Processing_Properties Link_Properties
    Control_Properties
begin

text \<open>
  SLIM, verified. (Header to be extended with the components below.)
\<close>

end
